(* ===== verification/Json.thy ===== *)
theory Json
  imports Prelude
begin

text \<open>
  JSON values and \<open>JSON.stringify\<close>, which the audit log hashes, and the proof
  that the printed text determines the value: two values without \<open>undefined\<close>
  print alike only when they are equal.
\<close>

datatype json =
    JUndef
  | JNull
  | JBool bool
  | JNum int
  | JStr string
  | JArr "json list"
  | JObj "(string \<times> json) list"

subsection \<open>Printing\<close>

definition hex_digit :: "nat \<Rightarrow> char" where
  "hex_digit n = ''0123456789abcdef'' ! n"

text \<open>The escapes of \<open>JSON.stringify\<close> (the code units below 256 need no others).\<close>

definition json_escape :: "char \<Rightarrow> string" where
  "json_escape c =
     (let n = (of_char c :: nat) in
      if n = 34 then [CHR 92, CHR 34]
      else if n = 92 then [CHR 92, CHR 92]
      else if n = 8 then [CHR 92, CHR ''b'']
      else if n = 9 then [CHR 92, CHR ''t'']
      else if n = 10 then [CHR 92, CHR ''n'']
      else if n = 12 then [CHR 92, CHR ''f'']
      else if n = 13 then [CHR 92, CHR ''r'']
      else if n < 32 then [CHR 92, CHR ''u'', CHR ''0'', CHR ''0'', hex_digit (n div 16), hex_digit (n mod 16)]
      else [c])"

definition json_quote :: "string \<Rightarrow> string" where
  "json_quote s = [CHR 34] @ concat (map json_escape s) @ [CHR 34]"

fun join :: "string \<Rightarrow> string list \<Rightarrow> string" where
  "join sep [] = []"
| "join sep [x] = x"
| "join sep (x # y # xs) = x @ sep @ join sep (y # xs)"

lemma size_snd_less: "kv \<in> set kvs \<Longrightarrow> size (snd kv) < Suc (size_list (size_prod (\<lambda>_. 0) size) kvs)"
  by (induction kvs) auto

function stringify :: "json \<Rightarrow> string" where
  "stringify JUndef = ''null''"
| "stringify JNull = ''null''"
| "stringify (JBool b) = (if b then ''true'' else ''false'')"
| "stringify (JNum n) = show_int n"
| "stringify (JStr s) = json_quote s"
| "stringify (JArr xs) = ''['' @ join '','' (map stringify xs) @ '']''"
| "stringify (JObj kvs) =
     ''{'' @ join '','' (map (\<lambda>kv. json_quote (fst kv) @ '':'' @ stringify (snd kv))
                           (filter (\<lambda>kv. snd kv \<noteq> JUndef) kvs)) @ ''}''"
  by pat_completeness auto
termination
  by (relation "measure size") (auto simp: size_snd_less less_Suc_eq_le size_list_estimation')

subsection \<open>Reading back\<close>

text \<open>Values with no \<open>undefined\<close> inside: what \<open>JSON.parse\<close> can return.\<close>

function json_defined :: "json \<Rightarrow> bool" where
  "json_defined JUndef = False"
| "json_defined JNull = True"
| "json_defined (JBool b) = True"
| "json_defined (JNum n) = True"
| "json_defined (JStr s) = True"
| "json_defined (JArr xs) = list_all json_defined xs"
| "json_defined (JObj kvs) = list_all (\<lambda>kv. json_defined (snd kv)) kvs"
  by pat_completeness auto
termination
  by (relation "measure size") (auto simp: size_snd_less less_Suc_eq_le size_list_estimation')

definition delim :: "string \<Rightarrow> bool" where
  "delim r \<longleftrightarrow> r = [] \<or> hd r \<in> {CHR '','', CHR '']'', CHR ''}''}"

lemma delim_simps [simp]:
  "delim []" "delim (c # r) \<longleftrightarrow> c \<in> {CHR '','', CHR '']'', CHR ''}''}"
  by (auto simp: delim_def)

lemma append_eq_takeWhile:
  assumes "xs @ r = ys @ r'" "\<forall>x\<in>set xs. D x" "\<forall>y\<in>set ys. D y"
    "r = [] \<or> \<not> D (hd r)" "r' = [] \<or> \<not> D (hd r')"
  shows "xs = ys \<and> r = r'"
proof -
  have "takeWhile D (xs @ r) = xs"
    using assms(2,4) by (cases r) (auto simp: takeWhile_append)
  moreover have "takeWhile D (ys @ r') = ys"
    using assms(3,5) by (cases r') (auto simp: takeWhile_append)
  ultimately have "xs = ys" using assms(1) by simp
  with assms(1) show ?thesis by simp
qed

paragraph \<open>Numbers\<close>

definition digit_chars :: "char set" where
  "digit_chars = set ''0123456789''"

lemma nth_digits_in: "n < 10 \<Longrightarrow> ''0123456789'' ! n \<in> digit_chars"
  unfolding digit_chars_def by (rule nth_mem) simp

lemma nth_digits_inj: "m < 10 \<Longrightarrow> n < 10 \<Longrightarrow> ''0123456789'' ! m = ''0123456789'' ! n \<Longrightarrow> m = n"
  by (subst (asm) nth_eq_iff_index_eq) auto

lemma show_nat_digits: "set (show_nat n) \<subseteq> digit_chars"
proof (induction n rule: show_nat.induct)
  case (1 n)
  show ?case
  proof (cases "n < 10")
    case True
    then show ?thesis by (subst show_nat.simps) (simp add: nth_digits_in del: nth_Cons_numeral)
  next
    case False
    then have "''0123456789'' ! (n mod 10) \<in> digit_chars" by (intro nth_digits_in) simp
    with False 1 show ?thesis by (subst show_nat.simps) auto
  qed
qed

lemma show_nat_nonempty: "show_nat n \<noteq> []"
  by (subst show_nat.simps) simp

lemma show_nat_single: "n < 10 \<Longrightarrow> show_nat n = [''0123456789'' ! n]"
  by (subst show_nat.simps) simp

lemma show_nat_step: "10 \<le> n \<Longrightarrow> show_nat n = show_nat (n div 10) @ [''0123456789'' ! (n mod 10)]"
  by (subst show_nat.simps) simp

lemma show_nat_inj: "show_nat m = show_nat n \<Longrightarrow> m = n"
proof (induction m arbitrary: n rule: show_nat.induct)
  case (1 m)
  consider "m < 10" "n < 10" | "m < 10" "10 \<le> n" | "10 \<le> m" "n < 10" | "10 \<le> m" "10 \<le> n"
    by linarith
  then show ?case
  proof cases
    case 1
    with "1.prems" show ?thesis by (simp add: show_nat_single nth_digits_inj)
  next
    case 2
    with "1.prems" show ?thesis by (simp add: show_nat_single show_nat_step show_nat_nonempty [symmetric])
  next
    case 3
    with "1.prems" show ?thesis by (simp add: show_nat_single show_nat_step show_nat_nonempty)
  next
    case 4
    with "1.prems" have "show_nat (m div 10) = show_nat (n div 10)"
      and d: "''0123456789'' ! (m mod 10) = ''0123456789'' ! (n mod 10)"
      by (simp_all add: show_nat_step)
    with "1.IH" 4 have "m div 10 = n div 10" by simp
    moreover have "m mod 10 = n mod 10" using d by (intro nth_digits_inj) auto
    ultimately show ?thesis by (metis div_mult_mod_eq)
  qed
qed

lemma show_int_inj: "show_int i = show_int j \<Longrightarrow> i = j"
proof -
  have no_minus: "show_nat k \<noteq> CHR ''-'' # xs" for k xs
    using show_nat_digits [of k] by (auto simp: digit_chars_def)
  assume "show_int i = show_int j"
  then show ?thesis
    by (auto simp: show_int_def no_minus no_minus [symmetric] split: if_splits dest!: show_nat_inj)
qed

lemma show_int_chars: "set (show_int i) \<subseteq> insert CHR ''-'' digit_chars"
  using show_nat_digits by (auto simp: show_int_def)

lemma show_int_nonempty: "show_int i \<noteq> []"
  by (simp add: show_int_def show_nat_nonempty)

lemma delim_not_number: "delim r \<Longrightarrow> r = [] \<or> hd r \<notin> insert CHR ''-'' digit_chars"
  by (auto simp: delim_def digit_chars_def)

lemma show_int_unique:
  assumes "show_int i @ r = show_int j @ r'" "delim r" "delim r'"
  shows "i = j \<and> r = r'"
proof -
  have "show_int i = show_int j \<and> r = r'"
    using show_int_chars [of i] show_int_chars [of j] assms delim_not_number
    by (intro append_eq_takeWhile [where D = "\<lambda>c. c \<in> insert CHR ''-'' digit_chars"]) auto
  then show ?thesis by (auto dest: show_int_inj)
qed

paragraph \<open>Strings\<close>

text \<open>Reading one code unit of a string literal back.\<close>

definition hex_value :: "char \<Rightarrow> nat" where
  "hex_value c = length (takeWhile (\<lambda>d. d \<noteq> c) ''0123456789abcdef'')"

lemma length_takeWhile_nth:
  "distinct xs \<Longrightarrow> n < length xs \<Longrightarrow> length (takeWhile (\<lambda>d. d \<noteq> xs ! n) xs) = n"
proof (induction xs arbitrary: n)
  case Nil
  then show ?case by simp
next
  case (Cons x xs)
  then show ?case by (cases n) auto
qed

lemma hex_value_digit: "n < 16 \<Longrightarrow> hex_value (hex_digit n) = n"
  unfolding hex_value_def hex_digit_def by (rule length_takeWhile_nth) simp_all

definition json_unescape :: "string \<Rightarrow> nat \<times> string" where
  "json_unescape s =
     (if hd s \<noteq> CHR 92 then (of_char (hd s), tl s)
      else let c = s ! 1 in
        if c = CHR ''b'' then (8, drop 2 s)
        else if c = CHR ''t'' then (9, drop 2 s)
        else if c = CHR ''n'' then (10, drop 2 s)
        else if c = CHR ''f'' then (12, drop 2 s)
        else if c = CHR ''r'' then (13, drop 2 s)
        else if c = CHR ''u'' then (16 * hex_value (s ! 4) + hex_value (s ! 5), drop 6 s)
        else (of_char c, drop 2 s))"

lemma hex_pair: "n < 32 \<Longrightarrow> 16 * hex_value (hex_digit (n div 16)) + hex_value (hex_digit (n mod 16)) = n"
  by (simp add: hex_value_digit less_mult_imp_div_less)

lemma json_unescape_escape: "json_unescape (json_escape c @ x) = (of_char c, x)"
proof (cases "of_char c \<in> {34, 92, 8, 9, 10, 12, 13 :: nat}")
  case True
  then show ?thesis unfolding json_escape_def json_unescape_def Let_def
    by (elim insertE emptyE) simp_all
next
  case False
  then have esc: "json_escape c = (if of_char c < (32::nat) then
      [CHR 92, CHR ''u'', CHR ''0'', CHR ''0'', hex_digit (of_char c div 16), hex_digit (of_char c mod 16)]
      else [c])"
    by (simp add: json_escape_def Let_def)
  have "c \<noteq> CHR 92" using False by auto
  then show ?thesis using hex_pair [of "of_char c"]
    by (simp add: esc json_unescape_def)
qed

lemma json_escape_nonempty: "json_escape c \<noteq> []"
  by (simp add: json_escape_def Let_def)

lemma json_escape_not_quote: "json_escape c @ x \<noteq> CHR 34 # y"
  by (auto simp: json_escape_def Let_def)

lemma json_escape_unique: "json_escape c @ x = json_escape d @ y \<Longrightarrow> c = d \<and> x = y"
  by (metis json_unescape_escape of_char_eq_iff prod.inject)

lemma json_escapes_unique:
  "concat (map json_escape s) @ CHR 34 # r = concat (map json_escape t) @ CHR 34 # r' \<Longrightarrow>
   s = t \<and> r = r'"
proof (induction s arbitrary: t)
  case Nil
  then show ?case by (cases t) (auto simp: json_escape_not_quote [symmetric])
next
  case (Cons c s)
  show ?case
  proof (cases t)
    case Nil
    with Cons.prems show ?thesis by (simp add: json_escape_not_quote)
  next
    case (Cons d u)
    with Cons.prems json_escape_unique [of c "concat (map json_escape s) @ CHR 34 # r" d]
    have "c = d" "concat (map json_escape s) @ CHR 34 # r = concat (map json_escape u) @ CHR 34 # r'"
      by auto
    with Cons.IH Cons show ?thesis by simp
  qed
qed

lemma json_quote_unique: "json_quote s @ r = json_quote t @ r' \<Longrightarrow> s = t \<and> r = r'"
  by (auto simp: json_quote_def dest: json_escapes_unique)

paragraph \<open>Sequences and values\<close>

text \<open>
  A printer \<open>e\<close> can be read back on \<open>x\<close> when its text, followed by a delimiter,
  determines \<open>x\<close> and the rest.
\<close>

definition readable :: "('a \<Rightarrow> string) \<Rightarrow> ('a \<Rightarrow> bool) \<Rightarrow> 'a \<Rightarrow> bool" where
  "readable e P x \<longleftrightarrow>
     (\<forall>y r r'. P y \<longrightarrow> delim r \<longrightarrow> delim r' \<longrightarrow> e x @ r = e y @ r' \<longrightarrow> x = y \<and> r = r')"

lemma readableD:
  "readable e P x \<Longrightarrow> e x @ r = e y @ r' \<Longrightarrow> P y \<Longrightarrow> delim r \<Longrightarrow> delim r' \<Longrightarrow> x = y \<and> r = r'"
  by (auto simp: readable_def)

lemma join_Cons: "join sep (x # xs) = (if xs = [] then x else x @ sep @ join sep xs)"
  by (cases xs) auto

lemma join_unique:
  assumes xs: "\<forall>x\<in>set xs. readable e P x \<and> P x" and ys: "\<forall>y\<in>set ys. P y"
    and opens: "\<And>z t u. P z \<Longrightarrow> e z @ t \<noteq> cl # u"
    and cl: "cl = CHR '']'' \<or> cl = CHR ''}''"
    and eq: "join '','' (map e xs) @ cl # r = join '','' (map e ys) @ cl # r'"
  shows "xs = ys \<and> r = r'"
  using xs ys eq
proof (induction xs arbitrary: ys)
  case Nil
  then show ?case
    using opens [symmetric] by (cases ys) (auto simp: join_Cons split: if_splits)
next
  case (Cons x xs)
  show ?case
  proof (cases ys)
    case Nil
    with Cons.prems opens show ?thesis by (auto simp: join_Cons split: if_splits)
  next
    case (Cons y zs)
    let ?rest = "\<lambda>ws r. if ws = [] then cl # r else '','' @ join '','' (map e ws) @ cl # r"
    have "x = y \<and> ?rest xs r = ?rest zs r'"
      using Cons.prems Cons cl by (intro readableD [of e P x]) (auto simp: join_Cons)
    then show ?thesis using Cons.IH [of zs] Cons.prems Cons cl by (auto split: if_splits)
  qed
qed

lemma stringify_first:
  "json_defined j \<Longrightarrow> \<exists>c t. stringify j = c # t \<and> c \<notin> {CHR '','', CHR '']'', CHR ''}'', CHR '':''}"
proof (cases j)
  case (JNum n)
  with show_int_chars [of n] show_int_nonempty [of n] show ?thesis
    by (cases "show_int n") (auto simp: digit_chars_def)
qed (auto simp: json_quote_def)

lemma stringify_not_close: "json_defined j \<Longrightarrow> stringify j @ t \<noteq> CHR '']'' # u"
  using stringify_first [of j] by auto

lemma filter_defined [simp]:
  "list_all (\<lambda>kv. json_defined (snd kv)) kvs \<Longrightarrow> filter (\<lambda>kv. snd kv \<noteq> JUndef) kvs = kvs"
  by (rule filter_True) (auto simp: list_all_iff)

abbreviation json_member :: "string \<times> json \<Rightarrow> string" where
  "json_member kv \<equiv> json_quote (fst kv) @ '':'' @ stringify (snd kv)"

lemma json_member_not_close: "json_member kv @ t \<noteq> CHR ''}'' # u"
  by (simp add: json_quote_def)

lemma json_member_readable:
  assumes "readable stringify json_defined (snd kv)"
  shows "readable json_member (\<lambda>kv. json_defined (snd kv)) kv"
  unfolding readable_def
proof (intro allI impI)
  fix kw r r'
  assume "json_defined (snd kw)" "delim r" "delim r'" "json_member kv @ r = json_member kw @ r'"
  moreover from this json_quote_unique [of "fst kv" "'':'' @ stringify (snd kv) @ r" "fst kw" "'':'' @ stringify (snd kw) @ r'"]
  have "fst kv = fst kw" "stringify (snd kv) @ r = stringify (snd kw) @ r'" by auto
  ultimately show "kv = kw \<and> r = r'" using assms by (auto simp: prod_eq_iff dest: readableD)
qed

text \<open>The first character tells the kind of a value.\<close>

fun json_kind :: "json \<Rightarrow> nat" where
  "json_kind JUndef = 0"
| "json_kind JNull = 1"
| "json_kind (JBool b) = 2"
| "json_kind (JNum n) = 3"
| "json_kind (JStr s) = 4"
| "json_kind (JArr xs) = 5"
| "json_kind (JObj kvs) = 6"

definition char_kind :: "char \<Rightarrow> nat" where
  "char_kind c =
     (if c = CHR ''n'' then 1 else if c = CHR ''t'' \<or> c = CHR ''f'' then 2
      else if c = CHR 34 then 4 else if c = CHR ''['' then 5 else if c = CHR ''{'' then 6 else 3)"

lemma char_kind_number: "c \<in> insert CHR ''-'' digit_chars \<Longrightarrow> char_kind c = 3"
  by (auto simp: char_kind_def digit_chars_def)

lemma stringify_kind: "json_defined j \<Longrightarrow> char_kind (hd (stringify j)) = json_kind j"
proof (cases j)
  case (JNum n)
  have "hd (show_int n) \<in> insert CHR ''-'' digit_chars"
    using show_int_chars [of n] show_int_nonempty [of n] hd_in_set by blast
  with JNum show ?thesis by (simp add: char_kind_number)
qed (auto simp: char_kind_def json_quote_def)

lemma stringify_same_kind:
  assumes "json_defined j" "json_defined k" "stringify j @ r = stringify k @ r'"
  shows "json_kind j = json_kind k"
proof -
  have "stringify j \<noteq> []" "stringify k \<noteq> []" using stringify_first assms by force+
  then have "hd (stringify j) = hd (stringify k)" using assms(3) by (metis hd_append2)
  with assms show ?thesis by (metis stringify_kind)
qed

lemma stringify_readableI:
  assumes "json_defined j"
    and "\<And>k r r'. \<lbrakk>json_defined k; json_kind k = json_kind j; delim r; delim r';
          stringify j @ r = stringify k @ r'\<rbrakk> \<Longrightarrow> j = k \<and> r = r'"
  shows "readable stringify json_defined j"
  unfolding readable_def using assms stringify_same_kind by metis

lemma stringify_readable: "json_defined j \<Longrightarrow> readable stringify json_defined j"
proof (induction j rule: stringify.induct)
  case (2)
  show ?case by (rule stringify_readableI) (simp, case_tac k, auto)
next
  case (3 b)
  show ?case by (rule stringify_readableI) (simp, case_tac k, auto split: if_splits)
next
  case (4 n)
  show ?case
    by (rule stringify_readableI) (simp, case_tac k, auto dest: show_int_unique)
next
  case (5 s)
  show ?case
    by (rule stringify_readableI) (simp, case_tac k, auto dest: json_quote_unique)
next
  case (6 xs)
  show ?case
  proof (rule stringify_readableI)
    fix k r r'
    assume k: "json_defined k" "json_kind k = json_kind (JArr xs)"
      and eq: "stringify (JArr xs) @ r = stringify k @ r'"
    then obtain ys where ys: "k = JArr ys" by (cases k) auto
    have "xs = ys \<and> r = r'"
      using 6 k ys eq stringify_not_close
      by (intro join_unique [where e = stringify and P = json_defined and cl = "CHR '']''"])
        (auto simp: list_all_iff)
    with ys show "JArr xs = k \<and> r = r'" by simp
  qed (rule 6)
next
  case (7 kvs)
  show ?case
  proof (rule stringify_readableI)
    fix k r r'
    assume k: "json_defined k" "json_kind k = json_kind (JObj kvs)"
      and eq: "stringify (JObj kvs) @ r = stringify k @ r'"
    then obtain kws where kws: "k = JObj kws" by (cases k) auto
    have "readable json_member (\<lambda>kv. json_defined (snd kv)) kv \<and> json_defined (snd kv)"
      if "kv \<in> set kvs" for kv
      using 7 that by (intro conjI json_member_readable; cases kv) (fastforce simp: list_all_iff)+
    then have "kvs = kws \<and> r = r'"
      using 7 k kws eq json_member_not_close
      by (intro join_unique [where e = json_member and P = "\<lambda>kv. json_defined (snd kv)"
            and cl = "CHR ''}''"]) (auto simp: list_all_iff)
    with kws show "JObj kvs = k \<and> r = r'" by simp
  qed (rule 7)
qed simp

theorem stringify_inj:
  assumes "json_defined j" "json_defined k" "stringify j = stringify k"
  shows "j = k"
  using readableD [OF stringify_readable [OF assms(1)], of "[]" k "[]"] assms by simp

end
