(* ===== verification/AuditLog.thy ===== *)
theory AuditLog
  imports Json "HOL-Library.Char_ord" "HOL-Library.List_Lexorder"
begin

text \<open>
  The tamper-evident audit log: \<open>src/audit/types.ts\<close> (entries, queries,
  reports) and the in-memory \<open>AuditStore\<close> of \<open>src/audit/store.ts\<close>.  SHA-256 is
  the parameter \<open>sha\<close>; the UUID and the time of an append are its arguments.
  The opaque cursor of a page is modelled by the \<open>CursorData\<close> it encodes, a
  cursor that does not decode by \<open>Malformed_Cursor\<close>.
\<close>

subsection \<open>Data\<close>

datatype audit_action =
    CONTRACT_CREATED | CONTRACT_UPDATED | CONTRACT_CANCELLED | CONTRACT_COMPLETED | CONTRACT_DELETED
  | PAYMENT_INITIATED | PAYMENT_RELEASED | PAYMENT_DISPUTED
  | REPUTATION_UPDATED
  | USER_CREATED | USER_UPDATED | USER_DELETED
  | AUTH_LOGIN | AUTH_LOGOUT | AUTH_FAILED | AUTH_LOCKOUT_TRIGGERED | AUTH_LOCKOUT_RELEASED
  | ADMIN_ACTION | ENDPOINT_ACCESS | ENDPOINT_MUTATION
  | DEPLOYMENT_PROMOTED | DEPLOYMENT_ROLLED_BACK
  | MILESTONES_CREATED | MILESTONES_UPDATED | MILESTONES_DELETED

datatype audit_severity = INFO | WARNING | CRITICAL

primrec action_string :: "audit_action \<Rightarrow> string" where
  "action_string CONTRACT_CREATED = ''CONTRACT_CREATED''"
| "action_string CONTRACT_UPDATED = ''CONTRACT_UPDATED''"
| "action_string CONTRACT_CANCELLED = ''CONTRACT_CANCELLED''"
| "action_string CONTRACT_COMPLETED = ''CONTRACT_COMPLETED''"
| "action_string CONTRACT_DELETED = ''CONTRACT_DELETED''"
| "action_string PAYMENT_INITIATED = ''PAYMENT_INITIATED''"
| "action_string PAYMENT_RELEASED = ''PAYMENT_RELEASED''"
| "action_string PAYMENT_DISPUTED = ''PAYMENT_DISPUTED''"
| "action_string REPUTATION_UPDATED = ''REPUTATION_UPDATED''"
| "action_string USER_CREATED = ''USER_CREATED''"
| "action_string USER_UPDATED = ''USER_UPDATED''"
| "action_string USER_DELETED = ''USER_DELETED''"
| "action_string AUTH_LOGIN = ''AUTH_LOGIN''"
| "action_string AUTH_LOGOUT = ''AUTH_LOGOUT''"
| "action_string AUTH_FAILED = ''AUTH_FAILED''"
| "action_string AUTH_LOCKOUT_TRIGGERED = ''AUTH_LOCKOUT_TRIGGERED''"
| "action_string AUTH_LOCKOUT_RELEASED = ''AUTH_LOCKOUT_RELEASED''"
| "action_string ADMIN_ACTION = ''ADMIN_ACTION''"
| "action_string ENDPOINT_ACCESS = ''ENDPOINT_ACCESS''"
| "action_string ENDPOINT_MUTATION = ''ENDPOINT_MUTATION''"
| "action_string DEPLOYMENT_PROMOTED = ''DEPLOYMENT_PROMOTED''"
| "action_string DEPLOYMENT_ROLLED_BACK = ''DEPLOYMENT_ROLLED_BACK''"
| "action_string MILESTONES_CREATED = ''MILESTONES_CREATED''"
| "action_string MILESTONES_UPDATED = ''MILESTONES_UPDATED''"
| "action_string MILESTONES_DELETED = ''MILESTONES_DELETED''"

primrec severity_string :: "audit_severity \<Rightarrow> string" where
  "severity_string INFO = ''INFO''"
| "severity_string WARNING = ''WARNING''"
| "severity_string CRITICAL = ''CRITICAL''"

text \<open>\<open>CreateAuditEntryInput\<close>, the entry without its hash, and \<open>AuditEntry\<close>.\<close>

record audit_input =
  ae_action :: audit_action
  ae_severity :: audit_severity
  ae_actor :: string
  ae_resource :: string
  ae_resourceId :: string
  ae_metadata :: "(string \<times> json) list"
  ae_ipAddress :: "string option"
  ae_correlationId :: "string option"

record audit_partial = audit_input +
  ae_id :: string
  ae_timestamp :: string
  ae_previousHash :: string

record audit_entry = audit_partial +
  ae_hash :: string

record audit_filters =
  qf_action :: "audit_action option"
  qf_severity :: "audit_severity option"
  qf_actor :: "string option"
  qf_resource :: "string option"
  qf_resourceId :: "string option"
  qf_from :: "string option"
  qf_to :: "string option"

record cursor_data =
  cd_lastId :: string
  cd_lastTimestamp :: string
  cd_filters :: audit_filters

datatype audit_cursor = Malformed_Cursor | Cursor cursor_data

record audit_query =
  q_filters :: audit_filters
  q_limit :: "int option"
  q_offset :: "int option"
  q_cursor :: "audit_cursor option"

record audit_query_result =
  qr_entries :: "audit_entry list"
  qr_count :: nat
  qr_limit :: int
  qr_nextCursor :: "cursor_data option"

record integrity_report =
  ir_valid :: bool
  ir_totalEntries :: nat
  ir_firstCorruptedIndex :: "nat option"
  ir_firstCorruptedId :: "string option"
  ir_checkedAt :: string

record audit_store =
  as_log :: "audit_entry list"
  as_appendGuard :: bool

datatype audit_error = Append_Reentrancy

subsection \<open>Appending\<close>

definition GENESIS_HASH :: string where
  "GENESIS_HASH = ''GENESIS''"

definition nullable :: "string option \<Rightarrow> json" where
  "nullable x = (case x of None \<Rightarrow> JNull | Some s \<Rightarrow> JStr s)"

definition entry_payload :: "'a audit_partial_scheme \<Rightarrow> json" where
  "entry_payload e = JObj
     [(''id'', JStr (ae_id e)),
      (''timestamp'', JStr (ae_timestamp e)),
      (''action'', JStr (action_string (ae_action e))),
      (''severity'', JStr (severity_string (ae_severity e))),
      (''actor'', JStr (ae_actor e)),
      (''resource'', JStr (ae_resource e)),
      (''resourceId'', JStr (ae_resourceId e)),
      (''metadata'', JObj (ae_metadata e)),
      (''ipAddress'', nullable (ae_ipAddress e)),
      (''correlationId'', nullable (ae_correlationId e)),
      (''previousHash'', JStr (ae_previousHash e))]"

definition computeEntryHash :: "(string \<Rightarrow> string) \<Rightarrow> 'a audit_partial_scheme \<Rightarrow> string" where
  "computeEntryHash sha e = sha (stringify (entry_payload e))"

definition new_audit_store :: audit_store where
  "new_audit_store = \<lparr>as_log = [], as_appendGuard = False\<rparr>"

definition last_hash :: "audit_entry list \<Rightarrow> string" where
  "last_hash log = (if length log = 0 then GENESIS_HASH else ae_hash (log ! (length log - 1)))"

definition make_entry ::
  "(string \<Rightarrow> string) \<Rightarrow> string \<Rightarrow> string \<Rightarrow> string \<Rightarrow> audit_input \<Rightarrow> audit_entry" where
  "make_entry sha uuid timestamp previousHash input =
     (let partial =
        \<lparr>ae_action = ae_action input, ae_severity = ae_severity input, ae_actor = ae_actor input,
         ae_resource = ae_resource input, ae_resourceId = ae_resourceId input,
         ae_metadata = ae_metadata input, ae_ipAddress = ae_ipAddress input,
         ae_correlationId = ae_correlationId input, ae_id = uuid, ae_timestamp = timestamp,
         ae_previousHash = previousHash\<rparr>
      in audit_partial.extend partial (audit_entry.fields (computeEntryHash sha partial)))"

definition audit_append ::
  "(string \<Rightarrow> string) \<Rightarrow> string \<Rightarrow> string \<Rightarrow> audit_input \<Rightarrow> audit_store
     \<Rightarrow> (audit_error, audit_entry) result \<times> audit_store" where
  "audit_append sha uuid timestamp input st =
     (if as_appendGuard st then (Throw Append_Reentrancy, st)
      else let entry = make_entry sha uuid timestamp (last_hash (as_log st)) input
           in (Ok entry, st\<lparr>as_log := as_log st @ [entry], as_appendGuard := False\<rparr>))"

subsection \<open>Reading\<close>

definition audit_getAll :: "audit_store \<Rightarrow> audit_entry list" where
  "audit_getAll st = as_log st"

definition audit_count :: "audit_store \<Rightarrow> nat" where
  "audit_count st = length (as_log st)"

definition audit_getById :: "string \<Rightarrow> audit_store \<Rightarrow> audit_entry option" where
  "audit_getById i st = find (\<lambda>e. ae_id e = i) (as_log st)"

text \<open>A string filter applies when it is truthy: neither absent nor empty.\<close>

definition str_filter :: "string option \<Rightarrow> (string \<Rightarrow> bool) \<Rightarrow> bool" where
  "str_filter f rejects \<longleftrightarrow> (case f of None \<Rightarrow> True | Some s \<Rightarrow> s = [] \<or> \<not> rejects s)"

definition matches :: "audit_filters \<Rightarrow> audit_entry \<Rightarrow> bool" where
  "matches f e \<longleftrightarrow>
     (case qf_action f of None \<Rightarrow> True | Some a \<Rightarrow> ae_action e = a) \<and>
     (case qf_severity f of None \<Rightarrow> True | Some s \<Rightarrow> ae_severity e = s) \<and>
     str_filter (qf_actor f) (\<lambda>s. ae_actor e \<noteq> s) \<and>
     str_filter (qf_resource f) (\<lambda>s. ae_resource e \<noteq> s) \<and>
     str_filter (qf_resourceId f) (\<lambda>s. ae_resourceId e \<noteq> s) \<and>
     str_filter (qf_from f) (\<lambda>s. ae_timestamp e < s) \<and>
     str_filter (qf_to f) (\<lambda>s. ae_timestamp e > s)"

definition audit_query_log :: "audit_query \<Rightarrow> audit_store \<Rightarrow> audit_entry list" where
  "audit_query_log q st =
     (let offset = nat (max (case q_offset q of None \<Rightarrow> 0 | Some n \<Rightarrow> n) 0);
          results = filter (matches (q_filters q)) (as_log st)
      in case q_limit q of
           None \<Rightarrow> drop offset results
         | Some l \<Rightarrow> take (nat (max l 0)) (drop offset results))"

fun findIndex :: "('a \<Rightarrow> bool) \<Rightarrow> 'a list \<Rightarrow> nat option" where
  "findIndex P [] = None"
| "findIndex P (x # xs) = (if P x then Some 0 else map_option Suc (findIndex P xs))"

definition cursor_start :: "audit_query \<Rightarrow> audit_store \<Rightarrow> nat" where
  "cursor_start q st =
     (case q_cursor q of
        None \<Rightarrow> 0
      | Some Malformed_Cursor \<Rightarrow> 0
      | Some (Cursor c) \<Rightarrow>
          if cd_filters c \<noteq> q_filters q then 0
          else (case findIndex (\<lambda>e. ae_id e = cd_lastId c) (as_log st) of
                  None \<Rightarrow> 0 | Some i \<Rightarrow> i + 1))"

definition page_limit :: "audit_query \<Rightarrow> int" where
  "page_limit q = min (max (case q_limit q of None \<Rightarrow> 50 | Some l \<Rightarrow> l) 1) 100"

definition queryWithCursor :: "audit_query \<Rightarrow> audit_store \<Rightarrow> audit_query_result" where
  "queryWithCursor q st =
     (let limit = page_limit q;
          startIndex = cursor_start q st;
          filtered = filter (matches (q_filters q)) (as_log st);
          entries = take (nat limit) (drop startIndex filtered);
          nextCursor =
            (if startIndex + nat limit < length filtered \<and> 0 < length entries
             then let lastEntry = entries ! (length entries - 1)
                  in Some \<lparr>cd_lastId = ae_id lastEntry, cd_lastTimestamp = ae_timestamp lastEntry,
                          cd_filters = q_filters q\<rparr>
             else None)
      in \<lparr>qr_entries = entries, qr_count = length entries, qr_limit = limit,
          qr_nextCursor = nextCursor\<rparr>)"

subsection \<open>Verifying\<close>

fun verify_loop ::
  "(string \<Rightarrow> string) \<Rightarrow> string \<Rightarrow> nat \<Rightarrow> audit_entry list \<Rightarrow> (nat \<times> string) option" where
  "verify_loop sha expectedPreviousHash i [] = None"
| "verify_loop sha expectedPreviousHash i (entry # rest) =
     (if ae_previousHash entry \<noteq> expectedPreviousHash then Some (i, ae_id entry)
      else if ae_hash entry \<noteq> computeEntryHash sha entry then Some (i, ae_id entry)
      else verify_loop sha (ae_hash entry) (i + 1) rest)"

definition verifyIntegrity :: "(string \<Rightarrow> string) \<Rightarrow> string \<Rightarrow> audit_store \<Rightarrow> integrity_report" where
  "verifyIntegrity sha checkedAt st =
     (case verify_loop sha GENESIS_HASH 0 (as_log st) of
        None \<Rightarrow> \<lparr>ir_valid = True, ir_totalEntries = length (as_log st), ir_firstCorruptedIndex = None,
                 ir_firstCorruptedId = None, ir_checkedAt = checkedAt\<rparr>
      | Some (i, eid) \<Rightarrow>
          \<lparr>ir_valid = False, ir_totalEntries = length (as_log st), ir_firstCorruptedIndex = Some i,
           ir_firstCorruptedId = Some eid, ir_checkedAt = checkedAt\<rparr>)"

definition audit_reset :: "audit_store \<Rightarrow> audit_store" where
  "audit_reset st = st\<lparr>as_log := [], as_appendGuard := False\<rparr>"

subsection \<open>The chain\<close>

definition chain_ok :: "(string \<Rightarrow> string) \<Rightarrow> audit_entry list \<Rightarrow> bool" where
  "chain_ok sha log \<longleftrightarrow> verify_loop sha GENESIS_HASH 0 log = None"

lemma make_entry_sel [simp]:
  "ae_id (make_entry sha u t p i) = u"
  "ae_timestamp (make_entry sha u t p i) = t"
  "ae_previousHash (make_entry sha u t p i) = p"
  "ae_action (make_entry sha u t p i) = ae_action i"
  "ae_severity (make_entry sha u t p i) = ae_severity i"
  "ae_actor (make_entry sha u t p i) = ae_actor i"
  "ae_resource (make_entry sha u t p i) = ae_resource i"
  "ae_resourceId (make_entry sha u t p i) = ae_resourceId i"
  "ae_metadata (make_entry sha u t p i) = ae_metadata i"
  "ae_ipAddress (make_entry sha u t p i) = ae_ipAddress i"
  "ae_correlationId (make_entry sha u t p i) = ae_correlationId i"
  by (simp_all add: make_entry_def audit_partial.extend_def audit_entry.fields_def Let_def)

lemma make_entry_hash:
  "ae_hash (make_entry sha u t p i) = computeEntryHash sha (make_entry sha u t p i)"
  by (simp add: make_entry_def audit_partial.extend_def audit_entry.fields_def Let_def
      computeEntryHash_def entry_payload_def)

lemma last_hash_simps [simp]:
  "last_hash [] = GENESIS_HASH" "last_hash (log @ [e]) = ae_hash e"
  by (simp_all add: last_hash_def)

lemma verify_loop_index_shift:
  "verify_loop sha p i log = map_option (\<lambda>(k, eid). (k + i, eid)) (verify_loop sha p 0 log)"
proof (induction log arbitrary: p i)
  case Nil
  then show ?case by simp
next
  case (Cons e log)
  show ?case using Cons [of "ae_hash e" "i + 1"] Cons [of "ae_hash e" 1]
    by (cases "verify_loop sha (ae_hash e) 0 log") auto
qed

lemma verify_loop_None_shift: "verify_loop sha p i log = None \<longleftrightarrow> verify_loop sha p 0 log = None"
  by (subst verify_loop_index_shift) simp

lemma verify_loop_snoc:
  "verify_loop sha p i (log @ [e]) = None \<longleftrightarrow>
     verify_loop sha p i log = None \<and>
     ae_previousHash e = (if log = [] then p else ae_hash (last log)) \<and>
     ae_hash e = computeEntryHash sha e"
  by (induction log arbitrary: p i) auto

lemma chain_ok_Nil [simp]: "chain_ok sha []"
  by (simp add: chain_ok_def)

lemma chain_ok_snoc:
  "chain_ok sha (log @ [e]) \<longleftrightarrow>
     chain_ok sha log \<and> ae_previousHash e = last_hash log \<and> ae_hash e = computeEntryHash sha e"
  unfolding chain_ok_def verify_loop_snoc
  by (cases log rule: rev_cases) auto

lemma chain_ok_append: "chain_ok sha (log @ log') \<Longrightarrow> chain_ok sha log"
  by (induction log' rule: rev_induct) (auto simp: chain_ok_snoc simp flip: append_assoc)

lemma verifyIntegrity_valid: "ir_valid (verifyIntegrity sha now st) \<longleftrightarrow> chain_ok sha (as_log st)"
  by (auto simp: verifyIntegrity_def chain_ok_def split: option.splits)

subsection \<open>Serialisation of an entry is injective\<close>

lemma action_string_inj: "action_string a = action_string b \<Longrightarrow> a = b"
  by (cases a; cases b) simp_all

lemma severity_string_inj: "severity_string a = severity_string b \<Longrightarrow> a = b"
  by (cases a; cases b) simp_all

lemma nullable_inj: "nullable x = nullable y \<longleftrightarrow> x = y"
  by (auto simp: nullable_def split: option.splits)

definition metadata_json :: "'a audit_input_scheme \<Rightarrow> bool" where
  "metadata_json e \<longleftrightarrow> json_defined (JObj (ae_metadata e))"

lemma entry_payload_defined: "metadata_json e \<Longrightarrow> json_defined (entry_payload e)"
  by (auto simp: entry_payload_def metadata_json_def nullable_def split: option.splits)

lemma entry_payload_inj:
  assumes "entry_payload e = entry_payload e'"
  shows "audit_partial.truncate e = audit_partial.truncate e'"
proof -
  have "ae_action e = ae_action e'" "ae_severity e = ae_severity e'"
    using assms by (auto simp: entry_payload_def intro: action_string_inj severity_string_inj)
  with assms show ?thesis
    by (simp add: entry_payload_def nullable_inj audit_partial.truncate_def)
qed

lemma audit_entry_eqI:
  fixes e e' :: audit_entry
  assumes "audit_partial.truncate e = audit_partial.truncate e'" "ae_hash e = ae_hash e'"
  shows "e = e'"
  using assms by (cases e; cases e') (simp add: audit_partial.truncate_def)

subsection \<open>The repository interface\<close>

text \<open>
  \<open>AuditLogRepository\<close> of \<open>src/audit/repository.ts\<close>: what an append promises of
  the entries, whatever holds them.
\<close>

locale audit_repository =
  fixes sha :: "string \<Rightarrow> string"
    and entries :: "'s \<Rightarrow> audit_entry list"
    and app :: "string \<Rightarrow> string \<Rightarrow> audit_input \<Rightarrow> 's \<Rightarrow> (audit_error, audit_entry) result \<times> 's"
  assumes app_ok: "app u t i s = (Ok e, s') \<Longrightarrow>
      entries s' = entries s @ [e] \<and> audit_input.truncate e = i \<and>
      ae_previousHash e = last_hash (entries s) \<and> ae_hash e = computeEntryHash sha e"
    and app_throw: "app u t i s = (Throw err, s') \<Longrightarrow> entries s' = entries s"
begin

lemma app_chain: "chain_ok sha (entries s) \<Longrightarrow> chain_ok sha (entries (snd (app u t i s)))"
proof -
  assume ok: "chain_ok sha (entries s)"
  obtain r s' where eq: "app u t i s = (r, s')" by fastforce
  show ?thesis
  proof (cases r)
    case (Inl err)
    with eq app_throw ok show ?thesis by simp
  next
    case (Inr e)
    with eq app_ok [of u t i s e s'] ok show ?thesis by (simp add: chain_ok_snoc)
  qed
qed

text \<open>Appending never drops or changes what is in the log.\<close>

lemma app_prefix: "\<exists>new. entries (snd (app u t i s)) = entries s @ new"
proof -
  obtain r s' where eq: "app u t i s = (r, s')" by fastforce
  then show ?thesis using app_ok app_throw by (cases r) fastforce+
qed

end

interpretation memory_audit: audit_repository sha as_log "audit_append sha" for sha
  by unfold_locales
    (auto simp: audit_append_def Let_def make_entry_hash audit_input.truncate_def split: if_splits)

text \<open>The calls of the store that change it.\<close>

datatype audit_op = Append string string audit_input | Reset

primrec audit_handle :: "(string \<Rightarrow> string) \<Rightarrow> audit_op \<Rightarrow> audit_store \<Rightarrow> audit_store" where
  "audit_handle sha (Append u t i) st = snd (audit_append sha u t i st)"
| "audit_handle sha Reset st = audit_reset st"

definition audit_inv :: "(string \<Rightarrow> string) \<Rightarrow> audit_store \<Rightarrow> bool" where
  "audit_inv sha st \<longleftrightarrow> chain_ok sha (as_log st) \<and> \<not> as_appendGuard st"

interpretation audit_sys: handler_system "audit_handle sha" "audit_inv sha" for sha
proof unfold_locales
  fix s e assume "audit_inv sha s"
  then show "audit_inv sha (audit_handle sha e s)"
    using memory_audit.app_chain [of sha s]
    by (cases e) (auto simp: audit_inv_def audit_reset_def audit_append_def Let_def)
qed

text \<open>
  C1. Whatever is appended, in whatever order, the log that the store builds
  passes its own verification, and no append is ever refused: the re-entrancy
  guard is down between calls.
\<close>

theorem audit_chain_invariant:
  "ir_valid (verifyIntegrity sha now (fold (audit_handle sha) ops new_audit_store)) \<and>
   (\<exists>e. fst (audit_append sha u t i (fold (audit_handle sha) ops new_audit_store)) = Ok e)"
proof -
  have "audit_inv sha (fold (audit_handle sha) ops new_audit_store)"
    by (rule audit_sys.run_inv) (simp add: audit_inv_def new_audit_store_def)
  then show ?thesis
    by (simp add: verifyIntegrity_valid audit_inv_def audit_append_def Let_def)
qed

subsection \<open>Tampering\<close>

definition payload_text :: "audit_entry \<Rightarrow> string" where
  "payload_text e = stringify (entry_payload e)"

lemma payload_text_inj:
  assumes "payload_text e = payload_text e'" "metadata_json e" "metadata_json e'"
  shows "audit_partial.truncate e = audit_partial.truncate e'"
  using assms stringify_inj entry_payload_defined entry_payload_inj
  unfolding payload_text_def by blast

lemma truncate_previousHash:
  "audit_partial.truncate e = audit_partial.truncate e' \<Longrightarrow> ae_previousHash e = ae_previousHash e'"
  by (simp add: audit_partial.truncate_def)

lemma last_hash_genesis:
  "chain_ok sha log \<Longrightarrow> \<forall>p. sha p \<noteq> GENESIS_HASH \<Longrightarrow> last_hash log = GENESIS_HASH \<longleftrightarrow> log = []"
  by (cases log rule: rev_cases) (auto simp: chain_ok_snoc computeEntryHash_def)

definition collision_free :: "(string \<Rightarrow> string) \<Rightarrow> audit_entry list \<Rightarrow> audit_entry list \<Rightarrow> bool" where
  "collision_free sha xs ys \<longleftrightarrow>
     (\<forall>e\<in>set xs. \<forall>e'\<in>set ys. sha (payload_text e) = sha (payload_text e') \<longrightarrow>
        payload_text e = payload_text e')"

lemma chain_pinned:
  assumes "chain_ok sha xs" "chain_ok sha ys" "last_hash xs = last_hash ys"
    and "\<forall>e\<in>set xs. metadata_json e" "\<forall>e\<in>set ys. metadata_json e"
    and "collision_free sha xs ys" and gen: "\<forall>p. sha p \<noteq> GENESIS_HASH"
  shows "xs = ys"
  using assms(1-6)
proof (induction xs arbitrary: ys rule: rev_induct)
  case Nil
  then show ?case using last_hash_genesis [OF _ gen] by metis
next
  case (snoc e xs)
  then have "ys \<noteq> []" using last_hash_genesis [OF _ gen] by (metis snoc_eq_iff_butlast)
  then obtain e' zs where ys: "ys = zs @ [e']" by (cases ys rule: rev_cases) auto
  have h: "ae_hash e = ae_hash e'" and "payload_text e = payload_text e'"
    using snoc.prems ys
    by (auto simp: chain_ok_snoc computeEntryHash_def payload_text_def collision_free_def)
  then have eq: "audit_partial.truncate e = audit_partial.truncate e'"
    using snoc.prems ys by (intro payload_text_inj) auto
  have "xs = zs" using snoc.prems ys truncate_previousHash [OF eq]
    by (intro snoc.IH) (auto simp: chain_ok_snoc collision_free_def)
  with ys audit_entry_eqI [OF eq h] show ?case by simp
qed

text \<open>
  C2. A log is pinned by its last hash: a second log that verifies and ends in
  the same hash is the same log, entry for entry, provided SHA-256 does not
  collide on the serialised entries of the two logs and never prints the
  genesis marker, and the metadata of entries has no \<open>undefined\<close> in it.  So any edit, insertion, deletion or reordering that leaves
  the last hash in place is caught.
\<close>

theorem audit_tamper_evident:
  assumes "ir_valid (verifyIntegrity sha t st)" "ir_valid (verifyIntegrity sha t' st')"
    and "last_hash (as_log st) = last_hash (as_log st')"
    and "\<forall>e\<in>set (as_log st). metadata_json e" "\<forall>e\<in>set (as_log st'). metadata_json e"
    and "collision_free sha (as_log st) (as_log st')"
    and "\<forall>p. sha p \<noteq> GENESIS_HASH"
  shows "as_log st = as_log st'"
  using assms by (intro chain_pinned) (simp_all add: verifyIntegrity_valid)

definition toy_sha :: "string \<Rightarrow> string" where
  "toy_sha p = CHR ''#'' # p"

definition login_input :: audit_input where
  "login_input =
     \<lparr>ae_action = AUTH_LOGIN, ae_severity = INFO, ae_actor = ''user-1'', ae_resource = ''auth'',
      ae_resourceId = ''user-1'', ae_metadata = [(''attempt'', JNum 1)], ae_ipAddress = None,
      ae_correlationId = Some ''c-1''\<rparr>"

definition login_log :: audit_store where
  "login_log =
     fold (audit_handle toy_sha)
       [Append ''id-1'' ''2026-01-01T00:00:00.000Z'' login_input,
        Append ''id-2'' ''2026-01-01T00:00:01.000Z'' (login_input\<lparr>ae_action := AUTH_LOGOUT\<rparr>)]
       new_audit_store"

lemma login_log_valid: "ir_valid (verifyIntegrity toy_sha t login_log)"
proof -
  have "audit_inv toy_sha login_log"
    unfolding login_log_def
    by (rule audit_sys.run_inv) (simp add: audit_inv_def new_audit_store_def)
  then show ?thesis by (simp add: verifyIntegrity_valid audit_inv_def)
qed

lemma login_log_metadata: "\<forall>e\<in>set (as_log login_log). metadata_json e"
  by (simp add: login_log_def new_audit_store_def audit_append_def Let_def metadata_json_def login_input_def)

definition login_log_again :: audit_store where
  "login_log_again = fold (audit_handle toy_sha) [Append ''id-0'' ''t'' login_input, Reset,
        Append ''id-1'' ''2026-01-01T00:00:00.000Z'' login_input,
        Append ''id-2'' ''2026-01-01T00:00:01.000Z'' (login_input\<lparr>ae_action := AUTH_LOGOUT\<rparr>)]
       new_audit_store"

lemmas login_log_defs = login_log_def login_log_again_def new_audit_store_def audit_append_def
  audit_reset_def Let_def

theorem audit_tamper_evident_witness:
  "length (as_log login_log) = 2 \<and> as_log login_log = as_log login_log_again"
proof -
  have "audit_inv toy_sha login_log_again" unfolding login_log_again_def
    by (rule audit_sys.run_inv) (simp add: audit_inv_def new_audit_store_def)
  then have "ir_valid (verifyIntegrity toy_sha ''t'' login_log_again)"
    by (simp add: verifyIntegrity_valid audit_inv_def)
  moreover have "last_hash (as_log login_log) = last_hash (as_log login_log_again)"
    "\<forall>e\<in>set (as_log login_log_again). metadata_json e"
    "collision_free toy_sha (as_log login_log) (as_log login_log_again)"
    "\<forall>p. toy_sha p \<noteq> GENESIS_HASH"
    by (simp_all add: login_log_defs metadata_json_def login_input_def last_hash_def
        collision_free_def toy_sha_def GENESIS_HASH_def)
  ultimately have "as_log login_log = as_log login_log_again"
    using login_log_valid login_log_metadata by (intro audit_tamper_evident)
  then show ?thesis by (simp add: login_log_defs)
qed

subsection \<open>Where verification stops\<close>

text \<open>
  An entry is intact when it links to the entry before it (the first one to the
  genesis hash) and carries the hash of its own content.
\<close>

definition entry_intact :: "(string \<Rightarrow> string) \<Rightarrow> string \<Rightarrow> audit_entry list \<Rightarrow> nat \<Rightarrow> bool" where
  "entry_intact sha prev log k \<longleftrightarrow>
     ae_previousHash (log ! k) = (if k = 0 then prev else ae_hash (log ! (k - 1))) \<and>
     ae_hash (log ! k) = computeEntryHash sha (log ! k)"

lemma entry_intact_Cons [simp]:
  "entry_intact sha p (e # log) 0 \<longleftrightarrow> ae_previousHash e = p \<and> ae_hash e = computeEntryHash sha e"
  "entry_intact sha p (e # log) (Suc k) \<longleftrightarrow> entry_intact sha (ae_hash e) log k"
  by (simp_all add: entry_intact_def nth_Cons')

lemma find_upt_Suc:
  "find P [0..<Suc n] = (if P 0 then Some 0 else map_option Suc (find (\<lambda>k. P (Suc k)) [0..<n]))"
proof -
  have "find P (map Suc xs) = map_option Suc (find (\<lambda>k. P (Suc k)) xs)" for xs
    by (induction xs) auto
  then show ?thesis by (simp add: upt_conv_Cons map_Suc_upt [symmetric] del: upt_Suc)
qed

lemma verify_loop_first:
  "verify_loop sha p 0 log =
     map_option (\<lambda>k. (k, ae_id (log ! k))) (find (\<lambda>k. \<not> entry_intact sha p log k) [0..<length log])"
proof (induction log arbitrary: p)
  case Nil
  then show ?case by simp
next
  case (Cons e log)
  have "verify_loop sha (ae_hash e) 1 log =
      map_option (\<lambda>(k, eid). (k + 1, eid)) (verify_loop sha (ae_hash e) 0 log)"
    using verify_loop_index_shift [of sha "ae_hash e" 1 log] by simp
  then show ?case
    by (auto simp: Cons.IH find_upt_Suc option.map_comp comp_def simp del: upt_Suc)
qed

lemma verifyIntegrity_report:
  "ir_valid (verifyIntegrity sha t st) \<longleftrightarrow> verify_loop sha GENESIS_HASH 0 (as_log st) = None"
  "ir_firstCorruptedIndex (verifyIntegrity sha t st) = map_option fst (verify_loop sha GENESIS_HASH 0 (as_log st))"
  "ir_firstCorruptedId (verifyIntegrity sha t st) = map_option snd (verify_loop sha GENESIS_HASH 0 (as_log st))"
  by (auto simp: verifyIntegrity_def split: option.splits)

text \<open>
  C3. The report names the first broken entry, and validity means that there is
  none: the reported index is the first one whose entry does not link to the hash
  of the entry before it (the genesis hash for the first entry) or does not carry
  the hash of its own content, the reported id is that entry's id, and the log is
  reported valid exactly when every entry links and hashes correctly.
\<close>

theorem verifyIntegrity_first_corrupted:
  "ir_firstCorruptedIndex (verifyIntegrity sha t st) =
     find (\<lambda>k. \<not> (ae_previousHash (as_log st ! k) =
                    (if k = 0 then GENESIS_HASH else ae_hash (as_log st ! (k - 1))) \<and>
                  ae_hash (as_log st ! k) = computeEntryHash sha (as_log st ! k)))
       [0..<length (as_log st)] \<and>
   ir_firstCorruptedId (verifyIntegrity sha t st) =
     map_option (\<lambda>k. ae_id (as_log st ! k)) (ir_firstCorruptedIndex (verifyIntegrity sha t st)) \<and>
   ir_valid (verifyIntegrity sha t st) =
     list_all (\<lambda>k. ae_previousHash (as_log st ! k) =
                    (if k = 0 then GENESIS_HASH else ae_hash (as_log st ! (k - 1))) \<and>
                  ae_hash (as_log st ! k) = computeEntryHash sha (as_log st ! k))
       [0..<length (as_log st)] \<and>
   ir_totalEntries (verifyIntegrity sha t st) = length (as_log st)"
proof -
  have loop: "verify_loop sha GENESIS_HASH 0 (as_log st) =
      map_option (\<lambda>k. (k, ae_id (as_log st ! k)))
        (find (\<lambda>k. \<not> entry_intact sha GENESIS_HASH (as_log st) k) [0..<length (as_log st)])"
    by (rule verify_loop_first)
  have "ir_totalEntries (verifyIntegrity sha t st) = length (as_log st)"
    by (simp add: verifyIntegrity_def split: option.split)
  then show ?thesis
    by (simp add: verifyIntegrity_report loop option.map_comp comp_def find_None_iff list_all_iff
        entry_intact_def [symmetric] option.map_ident Ball_def)
qed

text \<open>
  Cutting entries off the end leaves a log that verifies: deletion at the tail
  is not detected by the log alone.
\<close>

theorem verifyIntegrity_truncation:
  "ir_valid (verifyIntegrity sha t st) \<Longrightarrow>
   ir_valid (verifyIntegrity sha t (st\<lparr>as_log := take n (as_log st)\<rparr>))"
  using chain_ok_append [of sha "take n (as_log st)" "drop n (as_log st)"]
  by (simp add: verifyIntegrity_valid)

subsection \<open>Pages\<close>

definition no_filters :: audit_filters where
  "no_filters = \<lparr>qf_action = None, qf_severity = None, qf_actor = None, qf_resource = None,
     qf_resourceId = None, qf_from = None, qf_to = None\<rparr>"

lemma matches_no_filters [simp]: "matches no_filters e"
  by (simp add: matches_def no_filters_def str_filter_def)

text \<open>A client that follows \<open>nextCursor\<close> until there is none.\<close>

fun page_walk :: "nat \<Rightarrow> audit_query \<Rightarrow> audit_store \<Rightarrow> audit_entry list option" where
  "page_walk 0 q st = None"
| "page_walk (Suc n) q st =
     (let r = queryWithCursor q st
      in case qr_nextCursor r of
           None \<Rightarrow> Some (qr_entries r)
         | Some c \<Rightarrow> map_option ((@) (qr_entries r)) (page_walk n (q\<lparr>q_cursor := Some (Cursor c)\<rparr>) st))"

lemma findIndex_distinct:
  "distinct (map f xs) \<Longrightarrow> k < length xs \<Longrightarrow> findIndex (\<lambda>x. f x = f (xs ! k)) xs = Some k"
proof (induction xs arbitrary: k)
  case Nil
  then show ?case by simp
next
  case (Cons x xs)
  show ?case
  proof (cases k)
    case (Suc j)
    then have "f x \<noteq> f (xs ! j)" using Cons.prems by auto
    with Suc Cons show ?thesis by simp
  qed simp
qed

abbreviation page_size :: "audit_query \<Rightarrow> nat" where
  "page_size q \<equiv> nat (page_limit q)"

lemma page_size_pos: "0 < page_size q"
  by (auto simp: page_limit_def)

lemma unfiltered_page:
  assumes "q_filters q = no_filters"
  shows "qr_entries (queryWithCursor q st) = take (page_size q) (drop (cursor_start q st) (as_log st))"
    and "\<not> cursor_start q st + page_size q < length (as_log st) \<Longrightarrow> qr_nextCursor (queryWithCursor q st) = None"
    and "cursor_start q st + page_size q < length (as_log st) \<Longrightarrow>
      \<exists>c. qr_nextCursor (queryWithCursor q st) = Some c \<and> cd_filters c = no_filters \<and>
          cd_lastId c = ae_id (as_log st ! (cursor_start q st + page_size q - 1))"
  using assms page_size_pos [of q]
  by (auto simp: queryWithCursor_def Let_def min_def)

lemma cursor_start_next:
  assumes "distinct (map ae_id (as_log st))" "q_filters q = no_filters" "cd_filters c = no_filters"
    and "cd_lastId c = ae_id (as_log st ! k)" "k < length (as_log st)"
  shows "cursor_start (q\<lparr>q_cursor := Some (Cursor c)\<rparr>) st = Suc k"
  using assms findIndex_distinct [of ae_id "as_log st" k] by (simp add: cursor_start_def)

lemma page_walk_from:
  assumes "distinct (map ae_id (as_log st))" "q_filters q = no_filters" "cursor_start q st \<le> length (as_log st)"
    and "length (as_log st) - cursor_start q st < n"
  shows "page_walk n q st = Some (drop (cursor_start q st) (as_log st))"
  using assms
proof (induction n arbitrary: q)
  case 0
  then show ?case by simp
next
  case (Suc n)
  let ?k = "cursor_start q st" and ?L = "page_size q" and ?r = "queryWithCursor q st"
  show ?case
  proof (cases "?k + ?L < length (as_log st)")
    case False
    with Suc.prems unfiltered_page(1,2) [of q st] show ?thesis by (simp add: Let_def)
  next
    case True
    then obtain c where c: "qr_nextCursor ?r = Some c" "cd_filters c = no_filters"
      "cd_lastId c = ae_id (as_log st ! (?k + ?L - 1))"
      using unfiltered_page(3) [of q st] Suc.prems by blast
    let ?q = "q\<lparr>q_cursor := Some (Cursor c)\<rparr>"
    have start: "cursor_start ?q st = ?k + ?L"
      using cursor_start_next [OF Suc.prems(1,2) c(2,3)] True page_size_pos [of q] by simp
    have "page_walk n ?q st = Some (drop (cursor_start ?q st) (as_log st))"
      by (rule Suc.IH) (use Suc.prems True page_size_pos [of q] in \<open>simp_all add: start\<close>)
    moreover have "take ?L (drop ?k (as_log st)) @ drop (?k + ?L) (as_log st) = drop ?k (as_log st)"
      by (metis add.commute append_take_drop_id drop_drop)
    ultimately show ?thesis
      using Suc.prems(2) by (simp add: Let_def c(1) unfiltered_page(1) start)
  qed
qed

text \<open>
  C4. Paging through the log without filters loses nothing: following
  \<open>nextCursor\<close> from the first page ends after finitely many pages, and the
  pages together are the log, in order and without repetition, whatever page
  size was asked for.
\<close>

theorem audit_pages_complete:
  assumes "distinct (map ae_id (as_log st))" "q_filters q = no_filters" "q_cursor q = None"
  shows "page_walk (Suc (length (as_log st))) q st = Some (as_log st)"
  using page_walk_from [of st q "Suc (length (as_log st))"] assms
  by (simp add: cursor_start_def del: page_walk.simps)

definition unfiltered_query :: audit_query where
  "unfiltered_query = \<lparr>q_filters = no_filters, q_limit = Some 1, q_offset = None, q_cursor = None\<rparr>"

theorem audit_pages_complete_witness:
  "length (as_log login_log) = 2 \<and>
   page_walk 3 unfiltered_query login_log = Some (as_log login_log)"
  using audit_pages_complete [of login_log unfiltered_query]
  by (simp add: unfiltered_query_def login_log_defs eval_nat_numeral del: page_walk.simps)

text \<open>
  With a filter the index of the last entry in the whole log is used as an
  index into the filtered list.  Three matching entries after one that does
  not match: the second page starts too late and one matching entry is lost.
\<close>

definition logout_query :: audit_query where
  "logout_query = \<lparr>q_filters = no_filters\<lparr>qf_action := Some AUTH_LOGOUT\<rparr>, q_limit = Some 1,
     q_offset = None, q_cursor = None\<rparr>"

definition mixed_log :: audit_store where
  "mixed_log = fold (audit_handle toy_sha)
     [Append ''id-1'' ''t1'' login_input,
      Append ''id-2'' ''t2'' (login_input\<lparr>ae_action := AUTH_LOGOUT\<rparr>),
      Append ''id-3'' ''t3'' (login_input\<lparr>ae_action := AUTH_LOGOUT\<rparr>),
      Append ''id-4'' ''t4'' (login_input\<lparr>ae_action := AUTH_LOGOUT\<rparr>)] new_audit_store"

lemma filtered_page_2:
  assumes "as_log st = [e1, e2, e3, e4]" "map ae_id [e1, e2, e3, e4] = [''id-1'', ''id-2'', ''id-3'', ''id-4'']"
    and "\<not> matches f e1" "matches f e2" "matches f e3" "matches f e4"
  shows "page_walk 2 \<lparr>q_filters = f, q_limit = Some 1, q_offset = None, q_cursor = None\<rparr> st = Some [e2, e4]"
  using assms by (simp add: queryWithCursor_def cursor_start_def page_limit_def numeral_2_eq_2)

theorem filtered_pages_skip:
  "map ae_id (filter (matches (q_filters logout_query)) (as_log mixed_log)) = [''id-2'', ''id-3'', ''id-4''] \<and>
   map_option (map ae_id) (page_walk 2 logout_query mixed_log) = Some [''id-2'', ''id-4'']"
proof -
  let ?f = "no_filters\<lparr>qf_action := Some AUTH_LOGOUT\<rparr>"
  obtain e1 e2 e3 e4 where log: "as_log mixed_log = [e1, e2, e3, e4]"
    and ids: "map ae_id [e1, e2, e3, e4] = [''id-1'', ''id-2'', ''id-3'', ''id-4'']"
    and acts: "map ae_action [e1, e2, e3, e4] = [AUTH_LOGIN, AUTH_LOGOUT, AUTH_LOGOUT, AUTH_LOGOUT]"
    by (simp add: mixed_log_def login_log_defs login_input_def last_hash_def)
  have m: "\<not> matches ?f e1" "matches ?f e2" "matches ?f e3" "matches ?f e4"
    using acts by (simp_all add: matches_def no_filters_def str_filter_def)
  show ?thesis using filtered_page_2 [OF log ids m] log ids m by (simp add: logout_query_def)
qed

end
