(* ===== verification/JsMap.thy ===== *)
theory JsMap
  imports Prelude
begin

text \<open>
  The JavaScript \<open>Map\<close>, on which every in-memory store of the sources is built:
  a finite map that remembers the order in which its keys were first inserted.
  \<open>set\<close> on a present key replaces the value and keeps the position, on an
  absent key it appends; \<open>delete\<close> removes; iteration follows the order.  The
  locale \<open>js_map\<close> states the contract the stores use; the association-list
  model is its interpretation.
\<close>

type_synonym ('k, 'v) jsmap = "('k \<times> 'v) list"

definition map_empty :: "('k, 'v) jsmap" where
  "map_empty = []"

definition map_get :: "('k, 'v) jsmap \<Rightarrow> 'k \<Rightarrow> 'v option" where
  "map_get m k = map_of m k"

fun map_set :: "'k \<Rightarrow> 'v \<Rightarrow> ('k, 'v) jsmap \<Rightarrow> ('k, 'v) jsmap" where
  "map_set k v [] = [(k, v)]"
| "map_set k v ((k', v') # m) =
     (if k = k' then (k, v) # m else (k', v') # map_set k v m)"

definition map_delete :: "'k \<Rightarrow> ('k, 'v) jsmap \<Rightarrow> ('k, 'v) jsmap" where
  "map_delete k m = filter (\<lambda>e. fst e \<noteq> k) m"

definition map_has :: "('k, 'v) jsmap \<Rightarrow> 'k \<Rightarrow> bool" where
  "map_has m k \<longleftrightarrow> map_get m k \<noteq> None"

definition map_keys :: "('k, 'v) jsmap \<Rightarrow> 'k list" where
  "map_keys m = map fst m"

definition map_values :: "('k, 'v) jsmap \<Rightarrow> 'v list" where
  "map_values m = map snd m"

definition map_size :: "('k, 'v) jsmap \<Rightarrow> nat" where
  "map_size m = length m"

definition map_wf :: "('k, 'v) jsmap \<Rightarrow> bool" where
  "map_wf m \<longleftrightarrow> distinct (map fst m)"

text \<open>
  The sweep loops of the sources walk over the entries and delete the current
  one when a condition holds, counting the deletions.  Deleting the current
  entry does not disturb a \<open>Map\<close> iterator, so the walk visits the entries that
  were there at the start.
\<close>

fun reap_loop ::
  "('k \<times> 'v) list \<Rightarrow> ('k \<Rightarrow> 'v \<Rightarrow> bool) \<Rightarrow> ('k, 'v) jsmap \<Rightarrow> nat \<Rightarrow> ('k, 'v) jsmap \<times> nat" where
  "reap_loop [] P m n = (m, n)"
| "reap_loop ((k, v) # es) P m n =
     (if P k v then reap_loop es P (map_delete k m) (n + 1) else reap_loop es P m n)"

definition map_reap :: "('k \<Rightarrow> 'v \<Rightarrow> bool) \<Rightarrow> ('k, 'v) jsmap \<Rightarrow> ('k, 'v) jsmap \<times> nat" where
  "map_reap P m = reap_loop m P m 0"

subsection \<open>The contract\<close>

locale js_map =
  fixes empty :: 'm
    and get :: "'m \<Rightarrow> 'k \<Rightarrow> 'v option"
    and put :: "'k \<Rightarrow> 'v \<Rightarrow> 'm \<Rightarrow> 'm"
    and del :: "'k \<Rightarrow> 'm \<Rightarrow> 'm"
    and keys :: "'m \<Rightarrow> 'k list"
    and wf :: "'m \<Rightarrow> bool"
  assumes get_empty: "get empty k = None"
    and get_put: "get (put k v m) k' = (if k' = k then Some v else get m k')"
    and get_del: "wf m \<Longrightarrow> get (del k m) k' = (if k' = k then None else get m k')"
    and keys_dom: "set (keys m) = {k. get m k \<noteq> None}"
    and keys_put: "keys (put k v m) = (if get m k = None then keys m @ [k] else keys m)"
    and keys_del: "keys (del k m) = filter (\<lambda>k'. k' \<noteq> k) (keys m)"
    and wf_distinct: "wf m \<longleftrightarrow> distinct (keys m)"
    and keys_empty: "keys empty = []"
begin

lemma wf_empty: "wf empty"
  by (simp add: wf_distinct keys_empty)

lemma wf_put: "wf m \<Longrightarrow> wf (put k v m)"
  using keys_dom [of m] by (auto simp: wf_distinct keys_put)

lemma wf_del: "wf m \<Longrightarrow> wf (del k m)"
  by (simp add: wf_distinct keys_del)

text \<open>Deleting and setting again brings a key to the end: the move of an LRU cache.\<close>

lemma keys_touch: "wf m \<Longrightarrow> keys (put k v (del k m)) = filter (\<lambda>k'. k' \<noteq> k) (keys m) @ [k]"
  by (simp add: keys_put keys_del get_del)

lemma size_put: "length (keys (put k v m)) = (if get m k = None then Suc (length (keys m)) else length (keys m))"
  by (simp add: keys_put)

lemma size_touch:
  assumes "wf m"
  shows "length (keys (put k v (del k m))) = (if get m k = None then Suc (length (keys m)) else length (keys m))"
proof -
  have "get m k = None \<longleftrightarrow> k \<notin> set (keys m)" using keys_dom [of m] by auto
  moreover have "length (filter (\<lambda>k'. k' \<noteq> k) (keys m)) = length (remove1 k (keys m))"
    using assms by (simp add: wf_distinct distinct_remove1_removeAll removeAll_filter_not_eq eq_commute)
  ultimately show ?thesis
    using keys_touch [OF assms, of k v] length_pos_if_in_set [of k "keys m"]
    by (auto simp: length_remove1)
qed

end

subsection \<open>The association-list model keeps the contract\<close>

lemma map_get_empty [simp]: "map_get map_empty k = None"
  by (simp add: map_get_def map_empty_def)

lemma map_get_set [simp]: "map_get (map_set k v m) k' = (if k' = k then Some v else map_get m k')"
  unfolding map_get_def by (induction k v m rule: map_set.induct) auto

lemma map_get_delete [simp]: "map_get (map_delete k m) k' = (if k' = k then None else map_get m k')"
  unfolding map_get_def map_delete_def by (induction m) auto

lemma map_keys_set: "map_keys (map_set k v m) = (if map_get m k = None then map_keys m @ [k] else map_keys m)"
  unfolding map_get_def map_keys_def by (induction k v m rule: map_set.induct) auto

lemma map_keys_delete: "map_keys (map_delete k m) = filter (\<lambda>k'. k' \<noteq> k) (map_keys m)"
  unfolding map_keys_def map_delete_def by (induction m) auto

lemma set_map_keys: "set (map_keys m) = {k. map_get m k \<noteq> None}"
  by (auto simp: map_keys_def map_get_def map_of_eq_None_iff dom_map_of_conv_image_fst
        weak_map_of_SomeI image_iff)

interpretation jm: js_map map_empty map_get map_set map_delete map_keys map_wf
proof unfold_locales
  show "\<And>k. map_get map_empty k = None" by simp
  show "\<And>k v m k'. map_get (map_set k v m) k' = (if k' = k then Some v else map_get m k')" by simp
  show "\<And>m k k'. map_wf m \<Longrightarrow> map_get (map_delete k m) k' = (if k' = k then None else map_get m k')"
    by simp
  show "\<And>m. map_wf m \<longleftrightarrow> distinct (map_keys m)" by (simp add: map_wf_def map_keys_def)
  show "map_keys map_empty = []" by (simp add: map_keys_def map_empty_def)
qed (simp_all add: set_map_keys map_keys_set map_keys_delete)

lemmas map_wf_intros [simp, intro] = jm.wf_empty jm.wf_put jm.wf_del

lemma map_wf_Nil [simp]: "map_wf []"
  by (simp add: map_wf_def)

lemma map_size_keys: "map_size m = length (map_keys m)"
  by (simp add: map_size_def map_keys_def)

lemma map_wf_filter [simp, intro]: "map_wf m \<Longrightarrow> map_wf (filter P m)"
  by (simp add: map_wf_def distinct_map_filter)

subsection \<open>Sweeping\<close>

lemma map_delete_filter:
  "map_wf m \<Longrightarrow> (k, v) \<in> set m \<Longrightarrow> map_delete k m = filter (\<lambda>e. e \<noteq> (k, v)) m"
  unfolding map_wf_def map_delete_def
  by (rule filter_cong [OF refl]) (auto dest: eq_key_imp_eq_value)

lemma reap_loop_filter:
  assumes "map_wf m" "distinct es" "set es \<subseteq> set m"
  shows "reap_loop es P m n =
    (filter (\<lambda>e. \<not> (e \<in> set es \<and> P (fst e) (snd e))) m,
     n + length (filter (\<lambda>e. P (fst e) (snd e)) es))"
  using assms
proof (induction es P m n rule: reap_loop.induct)
  case (1 P m n)
  then show ?case by simp
next
  case (2 k v es P m n)
  have del: "map_delete k m = filter (\<lambda>e. e \<noteq> (k, v)) m"
    using "2.prems" by (intro map_delete_filter) auto
  show ?case
  proof (cases "P k v")
    case True
    have "set es \<subseteq> set (map_delete k m)" using "2.prems" by (auto simp: del)
    with True "2.IH"(1) "2.prems" show ?thesis
      by (auto simp: del intro!: filter_cong)
  next
    case False
    with "2.IH"(2) "2.prems" show ?thesis by (auto intro!: filter_cong)
  qed
qed

lemma map_reap_eq:
  assumes "map_wf m"
  shows "map_reap P m =
    (filter (\<lambda>e. \<not> P (fst e) (snd e)) m, length (filter (\<lambda>e. P (fst e) (snd e)) m))"
proof -
  have "distinct m" using assms by (simp add: map_wf_def distinct_map)
  with assms show ?thesis
    unfolding map_reap_def by (subst reap_loop_filter) (auto intro!: filter_cong)
qed

lemma map_get_filter:
  "map_wf m \<Longrightarrow> map_get (filter (\<lambda>e. P (fst e) (snd e)) m) k =
     (case map_get m k of None \<Rightarrow> None | Some v \<Rightarrow> if P k v then Some v else None)"
  using map_of_filter_distinct [of m P k]
  by (simp add: map_get_def map_wf_def case_prod_unfold)

lemma map_get_reap:
  assumes "map_wf m"
  shows "map_get (fst (map_reap P m)) k =
    (case map_get m k of None \<Rightarrow> None | Some v \<Rightarrow> if P k v then None else Some v)"
  using map_get_filter [OF assms, of "\<lambda>k v. \<not> P k v" k]
  by (auto simp: map_reap_eq [OF assms] split: option.splits)

lemma map_reap_count:
  assumes "map_wf m"
  shows "snd (map_reap P m) + map_size (fst (map_reap P m)) = map_size m"
  by (simp add: map_reap_eq [OF assms] map_size_def sum_length_filter_compl)

lemma map_wf_reap [simp, intro]: "map_wf m \<Longrightarrow> map_wf (fst (map_reap P m))"
  by (simp add: map_reap_eq)

lemma map_get_in_set: "map_get m k = Some v \<Longrightarrow> (k, v) \<in> set m"
  by (simp add: map_get_def map_of_SomeD)

lemma in_set_map_get: "map_wf m \<Longrightarrow> (k, v) \<in> set m \<Longrightarrow> map_get m k = Some v"
  by (simp add: map_get_def map_wf_def)

lemma set_map_set_subset: "set (map_set k v m) \<subseteq> insert (k, v) (set m)"
  by (induction k v m rule: map_set.induct) auto

lemma map_set_fresh: "map_get m k = None \<Longrightarrow> map_set k v m = m @ [(k, v)]"
  unfolding map_get_def by (induction k v m rule: map_set.induct) (auto split: if_splits)

lemma set_map_delete: "set (map_delete k m) = {e \<in> set m. fst e \<noteq> k}"
  by (auto simp: map_delete_def)

lemma map_get_fold_delete [simp]:
  "map_get (fold map_delete ks m) k = (if k \<in> set ks then None else map_get m k)"
  by (induction ks arbitrary: m) auto

lemma map_wf_fold_delete [simp, intro]: "map_wf m \<Longrightarrow> map_wf (fold map_delete ks m)"
  by (induction ks arbitrary: m) auto

lemma map_size_set: "map_size (map_set k v m) = (if map_get m k = None then Suc (map_size m) else map_size m)"
  by (simp add: map_size_keys map_keys_set)

lemma map_size_delete:
  "map_wf m \<Longrightarrow> map_get m k \<noteq> None \<Longrightarrow> Suc (map_size (map_delete k m)) = map_size m"
  using jm.size_touch [of m k] jm.size_put [of k _ "map_delete k m"]
  by (simp add: map_size_keys map_get_delete)

lemma map_size_delete_le: "map_size (map_delete k m) \<le> map_size m"
  by (simp add: map_size_def map_delete_def)

lemma map_size_fold_delete_le: "map_size (fold map_delete ks m) \<le> map_size m"
  by (induction ks arbitrary: m) (auto intro: order_trans map_size_delete_le)

lemma map_size_zero: "map_size m = 0 \<longleftrightarrow> m = []"
  by (simp add: map_size_def)

end
