(* ===== verification/AuditService.thy ===== *)
theory AuditService
  imports AuditLog JsMap
begin

text \<open>
  The facade of the audit log: the read cache of \<open>src/audit/auditCache.ts\<close> (TTL
  and least-recently-used eviction) and the \<open>AuditService\<close> of
  \<open>src/audit/service.ts\<close>.  A cache key is the text the source builds, from the
  JSON of the query in the field order of \<open>parseAuditQuery\<close>; the base64 text of
  a cursor is given by the parameter \<open>enc\<close>.  The Prometheus counters mirror
  \<open>hitCount\<close> and \<open>missCount\<close> and are left out.
\<close>

subsection \<open>The cache\<close>

datatype cache_data = CEntries "audit_entry list" | CEntry audit_entry | CResult audit_query_result

record cache_entry =
  ce_data :: cache_data
  ce_expiresAt :: ms
  ce_lastAccessed :: ms

record audit_cache =
  ac_cache :: "(string, cache_entry) jsmap"
  ac_ttlMs :: ms
  ac_maxEntries :: int
  ac_hitCount :: nat
  ac_missCount :: nat

datatype key_type = QueryKey | QueryWithCursorKey | GetByIdKey string

definition new_audit_cache :: "ms \<Rightarrow> int \<Rightarrow> audit_cache" where
  "new_audit_cache ttl maxEntries =
     \<lparr>ac_cache = map_empty, ac_ttlMs = ttl, ac_maxEntries = maxEntries, ac_hitCount = 0, ac_missCount = 0\<rparr>"

definition opt_json :: "('a \<Rightarrow> json) \<Rightarrow> 'a option \<Rightarrow> json" where
  "opt_json f x = (case x of None \<Rightarrow> JUndef | Some v \<Rightarrow> f v)"

definition filters_json :: "audit_filters \<Rightarrow> (string \<times> json) list" where
  "filters_json f =
     [(''action'', opt_json (\<lambda>a. JStr (action_string a)) (qf_action f)),
      (''severity'', opt_json (\<lambda>s. JStr (severity_string s)) (qf_severity f)),
      (''actor'', opt_json JStr (qf_actor f)),
      (''resource'', opt_json JStr (qf_resource f)),
      (''resourceId'', opt_json JStr (qf_resourceId f)),
      (''from'', opt_json JStr (qf_from f)),
      (''to'', opt_json JStr (qf_to f))]"

text \<open>The text of a cursor is the base64 form of its JSON; \<open>base64\<close> is a parameter.\<close>

definition encodeCursor :: "(string \<Rightarrow> string) \<Rightarrow> cursor_data \<Rightarrow> string" where
  "encodeCursor base64 d =
     base64 (stringify (JObj [(''lastId'', JStr (cd_lastId d)), (''lastTimestamp'', JStr (cd_lastTimestamp d)),
       (''filters'', JObj (filters_json (cd_filters d)))]))"

definition query_json :: "(audit_cursor \<Rightarrow> string) \<Rightarrow> audit_query \<Rightarrow> (string \<times> json) list" where
  "query_json enc q = filters_json (q_filters q) @
     [(''limit'', opt_json JNum (q_limit q)),
      (''offset'', opt_json JNum (q_offset q)),
      (''cursor'', opt_json (\<lambda>c. JStr (enc c)) (q_cursor q))]"

definition generateKey :: "(audit_cursor \<Rightarrow> string) \<Rightarrow> audit_query \<Rightarrow> key_type \<Rightarrow> string" where
  "generateKey enc q t =
     (case t of
        GetByIdKey i \<Rightarrow> ''getById:'' @ i
      | QueryKey \<Rightarrow> ''query:'' @ stringify (JObj (query_json enc q))
      | QueryWithCursorKey \<Rightarrow> ''queryWithCursor:'' @ stringify (JObj (query_json enc q)))"

definition cache_get :: "string \<Rightarrow> ms \<Rightarrow> audit_cache \<Rightarrow> cache_data option \<times> audit_cache" where
  "cache_get key now c =
     (case map_get (ac_cache c) key of
        None \<Rightarrow> (None, c\<lparr>ac_missCount := ac_missCount c + 1\<rparr>)
      | Some entry \<Rightarrow>
          if now > ce_expiresAt entry
          then (None, c\<lparr>ac_cache := map_delete key (ac_cache c), ac_missCount := ac_missCount c + 1\<rparr>)
          else (Some (ce_data entry),
                c\<lparr>ac_cache := map_set key (entry\<lparr>ce_lastAccessed := now\<rparr>) (ac_cache c),
                  ac_hitCount := ac_hitCount c + 1\<rparr>))"

fun oldest_loop :: "(string \<times> cache_entry) list \<Rightarrow> (string \<times> ms) option \<Rightarrow> (string \<times> ms) option" where
  "oldest_loop [] best = best"
| "oldest_loop ((key, entry) # es) best =
     (case best of
        None \<Rightarrow> oldest_loop es (Some (key, ce_lastAccessed entry))
      | Some (_, oldestAccessed) \<Rightarrow>
          if ce_lastAccessed entry < oldestAccessed
          then oldest_loop es (Some (key, ce_lastAccessed entry))
          else oldest_loop es best)"

definition evictOldest :: "audit_cache \<Rightarrow> audit_cache" where
  "evictOldest c =
     (case oldest_loop (ac_cache c) None of
        None \<Rightarrow> c
      | Some (oldestKey, _) \<Rightarrow>
          if oldestKey = [] then c else c\<lparr>ac_cache := map_delete oldestKey (ac_cache c)\<rparr>)"

definition cache_set :: "string \<Rightarrow> cache_data \<Rightarrow> ms \<Rightarrow> audit_cache \<Rightarrow> audit_cache" where
  "cache_set key data now c =
     (let entry = \<lparr>ce_data = data, ce_expiresAt = now + ac_ttlMs c, ce_lastAccessed = now\<rparr>;
          c' = (if int (map_size (ac_cache c)) \<ge> ac_maxEntries c \<and> \<not> map_has (ac_cache c) key
                then evictOldest c else c)
      in c'\<lparr>ac_cache := map_set key entry (ac_cache c')\<rparr>)"

definition cache_invalidate :: "audit_cache \<Rightarrow> audit_cache" where
  "cache_invalidate c = c\<lparr>ac_cache := map_empty\<rparr>"

definition mentions_resource :: "string \<Rightarrow> string \<Rightarrow> bool" where
  "mentions_resource resourceId key \<longleftrightarrow>
     js_includes key ([CHR 34] @ ''resourceId'' @ [CHR 34] @ '':'' @ [CHR 34] @ resourceId @ [CHR 34]) \<or>
     js_includes key ([CHR 34] @ ''resourceId'' @ [CHR 34] @ '':'' @ [CHR 39] @ resourceId @ [CHR 39])"

definition invalidateByResourceId :: "string \<Rightarrow> audit_cache \<Rightarrow> audit_cache" where
  "invalidateByResourceId resourceId c =
     (let keysToDelete = filter (mentions_resource resourceId) (map_keys (ac_cache c))
      in c\<lparr>ac_cache := fold map_delete keysToDelete (ac_cache c)\<rparr>)"

definition cleanupExpired :: "ms \<Rightarrow> audit_cache \<Rightarrow> nat \<times> audit_cache" where
  "cleanupExpired now c =
     (let keysToDelete = map fst (filter (\<lambda>(key, entry). now > ce_expiresAt entry) (ac_cache c))
      in (length keysToDelete, c\<lparr>ac_cache := fold map_delete keysToDelete (ac_cache c)\<rparr>))"

definition cache_getStats :: "audit_cache \<Rightarrow> nat \<times> nat \<times> nat" where
  "cache_getStats c = (map_size (ac_cache c), ac_hitCount c, ac_missCount c)"

subsection \<open>The service\<close>

record audit_service =
  sv_repository :: audit_store
  sv_cache :: "audit_cache option"

datatype service_error = Missing_Required_Fields | Store_Error audit_error

definition new_audit_service :: "(ms \<times> int) option \<Rightarrow> audit_service" where
  "new_audit_service options =
     \<lparr>sv_repository = new_audit_store, sv_cache = map_option (\<lambda>(ttl, m). new_audit_cache ttl m) options\<rparr>"

definition service_log ::
  "(string \<Rightarrow> string) \<Rightarrow> string \<Rightarrow> string \<Rightarrow> audit_input \<Rightarrow> audit_service
     \<Rightarrow> (service_error, audit_entry) result \<times> audit_service" where
  "service_log sha uuid timestamp input sv =
     (case audit_append sha uuid timestamp input (sv_repository sv) of
        (Throw err, st) \<Rightarrow> (Throw (Store_Error err), sv\<lparr>sv_repository := st\<rparr>)
      | (Ok entry, st) \<Rightarrow>
          (Ok entry, sv\<lparr>sv_repository := st,
             sv_cache := map_option (invalidateByResourceId (ae_resourceId input)) (sv_cache sv)\<rparr>))"

definition createEntry ::
  "(string \<Rightarrow> string) \<Rightarrow> string \<Rightarrow> string \<Rightarrow> audit_input \<Rightarrow> audit_service
     \<Rightarrow> (service_error, audit_entry) result \<times> audit_service" where
  "createEntry sha uuid timestamp input sv =
     (if ae_actor input = [] \<or> ae_resource input = [] \<or> ae_resourceId input = []
      then (Throw Missing_Required_Fields, sv)
      else service_log sha uuid timestamp input sv)"

definition cached_read ::
  "string \<Rightarrow> ms \<Rightarrow> ms \<Rightarrow> (audit_store \<Rightarrow> cache_data option) \<Rightarrow> audit_service
     \<Rightarrow> cache_data option \<times> audit_service" where
  "cached_read key now now' fetch sv =
     (case sv_cache sv of
        None \<Rightarrow> (fetch (sv_repository sv), sv)
      | Some c \<Rightarrow>
          (case cache_get key now c of
             (Some cached, c') \<Rightarrow> (Some cached, sv\<lparr>sv_cache := Some c'\<rparr>)
           | (None, c') \<Rightarrow>
               (case fetch (sv_repository sv) of
                  None \<Rightarrow> (None, sv\<lparr>sv_cache := Some c'\<rparr>)
                | Some data \<Rightarrow> (Some data, sv\<lparr>sv_cache := Some (cache_set key data now' c')\<rparr>))))"

definition service_query ::
  "(audit_cursor \<Rightarrow> string) \<Rightarrow> audit_query \<Rightarrow> ms \<Rightarrow> ms \<Rightarrow> audit_service \<Rightarrow> cache_data option \<times> audit_service" where
  "service_query enc q now now' sv =
     cached_read (generateKey enc q QueryKey) now now' (\<lambda>st. Some (CEntries (audit_query_log q st))) sv"

definition service_queryWithCursor ::
  "(audit_cursor \<Rightarrow> string) \<Rightarrow> audit_query \<Rightarrow> ms \<Rightarrow> ms \<Rightarrow> audit_service \<Rightarrow> cache_data option \<times> audit_service" where
  "service_queryWithCursor enc q now now' sv =
     cached_read (generateKey enc q QueryWithCursorKey) now now' (\<lambda>st. Some (CResult (queryWithCursor q st))) sv"

definition service_getById ::
  "(audit_cursor \<Rightarrow> string) \<Rightarrow> string \<Rightarrow> ms \<Rightarrow> ms \<Rightarrow> audit_service \<Rightarrow> cache_data option \<times> audit_service" where
  "service_getById enc i now now' sv =
     cached_read (generateKey enc \<lparr>q_filters = no_filters, q_limit = None, q_offset = None, q_cursor = None\<rparr>
         (GetByIdKey i)) now now'
       (\<lambda>st. map_option CEntry (audit_getById i st)) sv"

definition checkIntegrity :: "(string \<Rightarrow> string) \<Rightarrow> string \<Rightarrow> audit_service \<Rightarrow> integrity_report \<times> nat" where
  "checkIntegrity sha t sv =
     (let report = verifyIntegrity sha t (sv_repository sv)
      in (report, if ir_valid report then 200 else 409))"

subsection \<open>Convenience wrappers\<close>

type_synonym event_context = "string option \<times> string option"

definition service_event ::
  "audit_action \<Rightarrow> audit_severity \<Rightarrow> string \<Rightarrow> string \<Rightarrow> string \<Rightarrow> (string \<times> json) list \<Rightarrow> event_context \<Rightarrow> audit_input" where
  "service_event action severity actor resource resourceId metadata context =
     \<lparr>ae_action = action, ae_severity = severity, ae_actor = actor, ae_resource = resource,
      ae_resourceId = resourceId, ae_metadata = metadata, ae_ipAddress = fst context,
      ae_correlationId = snd context\<rparr>"

definition logContractEvent where
  "logContractEvent sha uuid ts action actor contractId metadata context sv =
     service_log sha uuid ts (service_event action INFO actor ''contract'' contractId metadata context) sv"

definition logMilestonesEvent where
  "logMilestonesEvent sha uuid ts action actor contractId metadata context sv =
     (let severity = (if action = MILESTONES_DELETED then WARNING else INFO)
      in service_log sha uuid ts (service_event action severity actor ''milestones'' contractId metadata context) sv)"

definition logPaymentEvent where
  "logPaymentEvent sha uuid ts action actor paymentId metadata context sv =
     service_log sha uuid ts (service_event action CRITICAL actor ''payment'' paymentId metadata context) sv"

definition logAuthEvent where
  "logAuthEvent sha uuid ts action actor metadata context sv =
     (let severity = (if action = AUTH_FAILED then WARNING else INFO)
      in service_log sha uuid ts (service_event action severity actor ''auth'' actor metadata context) sv)"

definition logUserEvent where
  "logUserEvent sha uuid ts action actor targetUserId metadata context sv =
     (let severity = (if action = USER_DELETED then WARNING else INFO)
      in service_log sha uuid ts (service_event action severity actor ''user'' targetUserId metadata context) sv)"

subsection \<open>Cache keys\<close>

lemma stringify_JObj_filter: "stringify (JObj kvs) = stringify (JObj (filter (\<lambda>kv. snd kv \<noteq> JUndef) kvs))"
  by simp

lemma query_json_keys: "distinct (map fst (query_json enc q))"
  by (simp add: query_json_def filters_json_def)

lemma opt_json_defined: "(\<And>v. json_defined (f v)) \<Longrightarrow> opt_json f x = JUndef \<or> json_defined (opt_json f x)"
  by (cases x) (auto simp: opt_json_def)

lemma query_json_defined: "json_defined (JObj (filter (\<lambda>kv. snd kv \<noteq> JUndef) (query_json enc q)))"
proof -
  have "\<forall>kv\<in>set (query_json enc q). snd kv = JUndef \<or> json_defined (snd kv)"
    by (simp add: query_json_def filters_json_def opt_json_defined)
  then show ?thesis by (auto simp: list_all_iff)
qed

lemma query_json_inj:
  assumes "stringify (JObj (query_json enc q)) = stringify (JObj (query_json enc q'))"
    and "(k, j) \<in> set (query_json enc q)" "(k, j') \<in> set (query_json enc q')"
  shows "j = j'"
proof -
  let ?f = "filter (\<lambda>(_, v). v \<noteq> JUndef)"
  have "?f (query_json enc q) = ?f (query_json enc q')"
    using stringify_inj [OF query_json_defined query_json_defined] assms(1)
      stringify_JObj_filter [of "query_json enc q"] stringify_JObj_filter [of "query_json enc q'"]
    by (simp add: case_prod_unfold)
  then have eq: "map_of (?f (query_json enc q)) k = map_of (?f (query_json enc q')) k" by simp
  have "map_of (query_json enc q) k = Some j" "map_of (query_json enc q') k = Some j'"
    using assms(2,3) query_json_keys by (auto intro: map_of_is_SomeI)
  with eq show ?thesis by (auto simp: map_of_filter_distinct query_json_keys split: if_splits)
qed

lemma opt_json_inj: "opt_json f x = opt_json f y \<Longrightarrow> (\<And>a b. f a = f b \<Longrightarrow> a = b) \<Longrightarrow> (\<And>a. f a \<noteq> JUndef) \<Longrightarrow> x = y"
  by (auto simp: opt_json_def split: option.splits) metis+

text \<open>Equal keys come from queries that differ at most in their cursor.\<close>

lemma query_key_inj:
  assumes "stringify (JObj (query_json enc q)) = stringify (JObj (query_json enc q'))"
  shows "q_filters q = q_filters q'" "q_limit q = q_limit q'" "q_offset q = q_offset q'"
proof -
  note inj = query_json_inj [OF assms]
  have "qf_action (q_filters q) = qf_action (q_filters q')"
    by (rule opt_json_inj [OF inj [of "''action''"]]) (auto simp: query_json_def filters_json_def intro: action_string_inj)
  moreover have "qf_severity (q_filters q) = qf_severity (q_filters q')"
    by (rule opt_json_inj [OF inj [of "''severity''"]]) (auto simp: query_json_def filters_json_def intro: severity_string_inj)
  moreover have "qf_actor (q_filters q) = qf_actor (q_filters q')"
    by (rule opt_json_inj [OF inj [of "''actor''"]]) (auto simp: query_json_def filters_json_def)
  moreover have "qf_resource (q_filters q) = qf_resource (q_filters q')"
    by (rule opt_json_inj [OF inj [of "''resource''"]]) (auto simp: query_json_def filters_json_def)
  moreover have "qf_resourceId (q_filters q) = qf_resourceId (q_filters q')"
    by (rule opt_json_inj [OF inj [of "''resourceId''"]]) (auto simp: query_json_def filters_json_def)
  moreover have "qf_from (q_filters q) = qf_from (q_filters q')"
    by (rule opt_json_inj [OF inj [of "''from''"]]) (auto simp: query_json_def filters_json_def)
  moreover have "qf_to (q_filters q) = qf_to (q_filters q')"
    by (rule opt_json_inj [OF inj [of "''to''"]]) (auto simp: query_json_def filters_json_def)
  ultimately show "q_filters q = q_filters q'" by simp
  show "q_limit q = q_limit q'"
    by (rule opt_json_inj [OF inj [of "''limit''"]]) (auto simp: query_json_def filters_json_def)
  show "q_offset q = q_offset q'"
    by (rule opt_json_inj [OF inj [of "''offset''"]]) (auto simp: query_json_def filters_json_def)
qed

lemma query_cursor_inj:
  assumes "inj enc" "stringify (JObj (query_json enc q)) = stringify (JObj (query_json enc q'))"
  shows "q_cursor q = q_cursor q'"
  by (rule opt_json_inj [OF query_json_inj [OF assms(2), of "''cursor''"]])
    (auto simp: query_json_def dest: injD [OF assms(1)])

lemma generateKey_cursor_inj:
  assumes "inj enc" "generateKey enc q QueryWithCursorKey = generateKey enc q' QueryWithCursorKey"
  shows "q = q'"
proof -
  have "stringify (JObj (query_json enc q)) = stringify (JObj (query_json enc q'))"
    using assms(2) by (simp add: generateKey_def del: stringify.simps)
  with query_key_inj [OF this] query_cursor_inj [OF assms(1) this] show ?thesis by simp
qed

text \<open>Cursor texts are as distinct as the base64 texts they are made of.\<close>

lemma filters_json_inj:
  assumes "stringify (JObj (filters_json f)) = stringify (JObj (filters_json f'))"
  shows "f = f'"
proof -
  let ?q = "\<lambda>f. \<lparr>q_filters = f, q_limit = None, q_offset = None, q_cursor = None\<rparr>"
  have "stringify (JObj (query_json (\<lambda>_. []) (?q f))) = stringify (JObj (filters_json f))" for f
    by (simp add: query_json_def opt_json_def)
  with assms show ?thesis using query_key_inj(1) [of "\<lambda>_. []" "?q f" "?q f'"] by simp
qed

lemma encodeCursor_inj:
  assumes "inj base64" "encodeCursor base64 d = encodeCursor base64 d'"
  shows "d = d'"
proof -
  let ?F = "\<lambda>d. filter (\<lambda>kv. snd kv \<noteq> JUndef) (filters_json (cd_filters d))"
  let ?j = "\<lambda>d. JObj [(''lastId'', JStr (cd_lastId d)), (''lastTimestamp'', JStr (cd_lastTimestamp d)),
      (''filters'', JObj (?F d))]"
  have "\<forall>kv\<in>set (filters_json f). snd kv = JUndef \<or> json_defined (snd kv)" for f
    by (simp add: filters_json_def opt_json_defined)
  then have "json_defined (JObj (?F d))" for d by (fastforce simp: list_all_iff)
  then have def: "json_defined (?j d)" for d by simp
  have enc: "encodeCursor base64 d = base64 (stringify (?j d))" for d by (simp add: encodeCursor_def)
  have "stringify (?j d) = stringify (?j d')" by (rule injD [OF assms(1)]) (use assms(2) in \<open>simp only: enc\<close>)
  then have j: "?j d = ?j d'" by (rule stringify_inj [OF def def])
  have "stringify (JObj (filters_json (cd_filters d))) = stringify (JObj (?F d))" for d
    by (rule stringify_JObj_filter)
  with j have "cd_filters d = cd_filters d'" by (intro filters_json_inj) simp
  with j show ?thesis by simp
qed

lemma generateKey_query_inj:
  "generateKey enc q QueryKey = generateKey enc q' QueryKey \<Longrightarrow> audit_query_log q st = audit_query_log q' st"
  using query_key_inj [of enc q q'] by (simp add: generateKey_def audit_query_log_def del: stringify.simps)

lemma generateKey_kinds:
  "generateKey enc q QueryKey \<noteq> ''getById:'' @ i"
  "generateKey enc q QueryWithCursorKey \<noteq> ''getById:'' @ i"
  "generateKey enc q QueryWithCursorKey \<noteq> generateKey enc q' QueryKey"
  by (simp_all add: generateKey_def)

lemmas generateKey_kinds_simps [simp] = generateKey_kinds [simplified]

lemma generateKey_nonempty [simp]: "generateKey enc q t \<noteq> []"
  by (cases t) (simp_all add: generateKey_def)

definition plain_text :: "string \<Rightarrow> bool" where
  "plain_text s \<longleftrightarrow> concat (map json_escape s) = s"

lemma join_includes: "x \<in> set xs \<Longrightarrow> \<exists>a b. join sep xs = a @ x @ b"
proof (induction sep xs rule: join.induct)
  case (3 sep x' y xs)
  show ?case
  proof (cases "x = x'")
    case False
    with 3 obtain a b where "join sep (y # xs) = a @ x @ b" by auto
    then show ?thesis by (auto intro: exI [of _ "x' @ sep @ a"])
  next
    case True
    then have "join sep (x' # y # xs) = [] @ x @ sep @ join sep (y # xs)" by simp
    then show ?thesis by blast
  qed
next
  case (2 sep x')
  then have "join sep [x'] = [] @ x @ []" by simp
  then show ?case by blast
qed simp

lemma key_mentions_resource:
  assumes "qf_resourceId (q_filters q) = Some r" "plain_text r" "t = QueryKey \<or> t = QueryWithCursorKey"
  shows "mentions_resource r (generateKey enc q t)"
proof -
  let ?m = "\<lambda>kv. json_quote (fst kv) @ '':'' @ stringify (snd kv)"
  have "(''resourceId'', JStr r) \<in> set (query_json enc q)"
    using assms(1) by (simp add: query_json_def filters_json_def opt_json_def)
  then have "(''resourceId'', JStr r) \<in> set (filter (\<lambda>kv. snd kv \<noteq> JUndef) (query_json enc q))"
    by simp
  then have "?m (''resourceId'', JStr r) \<in> set (map ?m (filter (\<lambda>kv. snd kv \<noteq> JUndef) (query_json enc q)))"
    unfolding set_map by (rule imageI)
  then obtain a b where "join '','' (map ?m (filter (\<lambda>kv. snd kv \<noteq> JUndef) (query_json enc q))) =
      a @ ?m (''resourceId'', JStr r) @ b" using join_includes by blast
  then obtain p where "generateKey enc q t = (p @ a) @ ?m (''resourceId'', JStr r) @ b @ ''}''"
    using assms(3) by (auto simp: generateKey_def)
  moreover have "?m (''resourceId'', JStr r) =
      [CHR 34] @ ''resourceId'' @ [CHR 34] @ '':'' @ [CHR 34] @ r @ [CHR 34]"
    using assms(2) by (simp add: json_quote_def plain_text_def json_escape_def)
  ultimately show ?thesis unfolding mentions_resource_def js_includes_iff by metis
qed

subsection \<open>What the cache holds is what the repository would answer\<close>

definition cursor_id :: "audit_query \<Rightarrow> string option" where
  "cursor_id q = (case q_cursor q of Some (Cursor c) \<Rightarrow> Some (cd_lastId c) | _ \<Rightarrow> None)"

text \<open>
  The set \<open>F\<close> holds the ids of entries that are logged later: a cached page whose
  cursor names none of them stays right when other resources are written.
\<close>

definition cache_datum_ok :: "(audit_cursor \<Rightarrow> string) \<Rightarrow> string set \<Rightarrow> audit_store \<Rightarrow> string \<Rightarrow> cache_data \<Rightarrow> bool" where
  "cache_datum_ok enc F st key d \<longleftrightarrow>
     (\<forall>q r. key = generateKey enc q QueryKey \<and> qf_resourceId (q_filters q) = Some r \<and> r \<noteq> [] \<and> plain_text r
        \<longrightarrow> d = CEntries (audit_query_log q st)) \<and>
     (\<forall>q r. key = generateKey enc q QueryWithCursorKey \<and> qf_resourceId (q_filters q) = Some r \<and> r \<noteq> [] \<and>
        plain_text r \<longrightarrow> d = CResult (queryWithCursor q st) \<and> cursor_id q \<notin> Some ` F) \<and>
     (\<forall>i. key = ''getById:'' @ i \<longrightarrow> Some d = map_option CEntry (audit_getById i st))"

definition cache_ok :: "(audit_cursor \<Rightarrow> string) \<Rightarrow> string set \<Rightarrow> audit_store \<Rightarrow> audit_cache \<Rightarrow> bool" where
  "cache_ok enc F st c \<longleftrightarrow>
     map_wf (ac_cache c) \<and>
     (\<forall>k e. map_get (ac_cache c) k = Some e \<longrightarrow> cache_datum_ok enc F st k (ce_data e))"

lemma cache_get_ok:
  assumes "cache_ok enc F st c" "cache_get key now c = (r, c')"
  shows "cache_ok enc F st c'" "r = Some d \<Longrightarrow> cache_datum_ok enc F st key d"
  using assms by (auto simp: cache_ok_def cache_get_def split: option.splits if_splits)

lemma evictOldest_ok: "cache_ok enc F st c \<Longrightarrow> cache_ok enc F st (evictOldest c)"
  by (auto simp: cache_ok_def evictOldest_def split: option.splits)

lemma cache_set_ok:
  assumes "cache_ok enc F st c" "cache_datum_ok enc F st key d"
  shows "cache_ok enc F st (cache_set key d now c)"
proof -
  have "cache_ok enc F st (c'\<lparr>ac_cache := map_set key \<lparr>ce_data = d, ce_expiresAt = x, ce_lastAccessed = now\<rparr> (ac_cache c')\<rparr>)"
    if "cache_ok enc F st c'" for c' x
    using that assms(2) by (auto simp: cache_ok_def)
  then show ?thesis using assms(1) evictOldest_ok [OF assms(1)] by (simp add: cache_set_def Let_def)
qed

definition service_ok :: "(audit_cursor \<Rightarrow> string) \<Rightarrow> string set \<Rightarrow> audit_service \<Rightarrow> bool" where
  "service_ok enc F sv \<longleftrightarrow>
     \<not> as_appendGuard (sv_repository sv) \<and>
     (case sv_cache sv of None \<Rightarrow> True | Some c \<Rightarrow> cache_ok enc F (sv_repository sv) c)"

lemma cached_read_ok:
  assumes "service_ok enc F sv"
    and "\<And>d. fetch (sv_repository sv) = Some d \<Longrightarrow> cache_datum_ok enc F (sv_repository sv) key d"
  shows "service_ok enc F (snd (cached_read key now now' fetch sv))"
    and "fst (cached_read key now now' fetch sv) = Some d \<Longrightarrow> cache_datum_ok enc F (sv_repository sv) key d"
    and "sv_repository (snd (cached_read key now now' fetch sv)) = sv_repository sv"
proof -
  let ?st = "sv_repository sv"
  show "sv_repository (snd (cached_read key now now' fetch sv)) = ?st"
    by (auto simp: cached_read_def split: option.splits prod.splits)
  have *: "service_ok enc F (snd (cached_read key now now' fetch sv)) \<and>
      (\<forall>d. fst (cached_read key now now' fetch sv) = Some d \<longrightarrow> cache_datum_ok enc F ?st key d)"
  proof (cases "sv_cache sv")
    case None
    with assms show ?thesis by (simp add: cached_read_def)
  next
    case (Some c)
    obtain r c' where get: "cache_get key now c = (r, c')" by fastforce
    have c: "cache_ok enc F ?st c" "\<not> as_appendGuard ?st" using assms(1) Some by (simp_all add: service_ok_def)
    note ok = cache_get_ok [OF c(1) get]
    show ?thesis
    proof (cases r)
      case None
      then show ?thesis using Some get c ok assms(2) cache_set_ok [OF ok(1)]
        by (simp add: cached_read_def service_ok_def split: option.split)
    next
      case (Some d)
      then show ?thesis using \<open>sv_cache sv = Some c\<close> get c ok
        by (simp add: cached_read_def service_ok_def)
    qed
  qed
  then show "service_ok enc F (snd (cached_read key now now' fetch sv))" by blast
  show "fst (cached_read key now now' fetch sv) = Some d \<Longrightarrow> cache_datum_ok enc F ?st key d"
    using * by blast
qed

lemma query_datum_ok: "cache_datum_ok enc F st (generateKey enc q QueryKey) (CEntries (audit_query_log q st))"
  by (auto simp: cache_datum_ok_def generateKey_kinds(3) [symmetric] intro: generateKey_query_inj)

lemma cursor_datum_ok:
  "inj enc \<Longrightarrow> cursor_id q \<notin> Some ` F \<Longrightarrow>
   cache_datum_ok enc F st (generateKey enc q QueryWithCursorKey) (CResult (queryWithCursor q st))"
  by (auto simp: cache_datum_ok_def dest: generateKey_cursor_inj)

lemma getById_datum_ok:
  "map_option CEntry (audit_getById i st) = Some d \<Longrightarrow> cache_datum_ok enc F st (generateKey enc q (GetByIdKey i)) d"
  by (auto simp: cache_datum_ok_def) (auto simp: generateKey_def)

lemma audit_append_eq:
  "\<not> as_appendGuard st \<Longrightarrow> audit_append sha u t i st =
     (Ok (make_entry sha u t (last_hash (as_log st)) i),
      st\<lparr>as_log := as_log st @ [make_entry sha u t (last_hash (as_log st)) i]\<rparr>)"
  by (simp add: audit_append_def Let_def)

lemma audit_query_log_append_other:
  "qf_resourceId (q_filters q) = Some r \<Longrightarrow> r \<noteq> [] \<Longrightarrow> ae_resourceId e \<noteq> r \<Longrightarrow>
   audit_query_log q (st\<lparr>as_log := as_log st @ [e]\<rparr>) = audit_query_log q st"
  by (simp add: audit_query_log_def matches_def str_filter_def)

lemma audit_getById_append:
  "audit_getById i st = Some x \<Longrightarrow> audit_getById i (st\<lparr>as_log := as_log st @ [e]\<rparr>) = Some x"
  by (simp add: audit_getById_def find_append_Some)

lemma findIndex_append_not: "\<not> P e \<Longrightarrow> findIndex P (xs @ [e]) = findIndex P xs"
  by (induction xs) simp_all

lemma queryWithCursor_append_other:
  assumes "qf_resourceId (q_filters q) = Some r" "r \<noteq> []" "ae_resourceId e \<noteq> r" "cursor_id q \<noteq> Some (ae_id e)"
  shows "queryWithCursor q (st\<lparr>as_log := as_log st @ [e]\<rparr>) = queryWithCursor q st"
proof -
  have "cursor_start q (st\<lparr>as_log := as_log st @ [e]\<rparr>) = cursor_start q st"
    using assms(4) by (auto simp: cursor_start_def cursor_id_def findIndex_append_not
        split: option.splits audit_cursor.splits)
  moreover have "\<not> matches (q_filters q) e"
    using assms(1-3) by (simp add: matches_def str_filter_def)
  ultimately show ?thesis by (simp add: queryWithCursor_def)
qed

lemma datum_append:
  assumes ok: "cache_datum_ok enc F st k d" and no: "\<not> mentions_resource (ae_resourceId e) k"
    and e: "ae_id e \<in> F"
  shows "cache_datum_ok enc F (st\<lparr>as_log := as_log st @ [e]\<rparr>) k d"
  unfolding cache_datum_ok_def
proof (intro conjI allI impI)
  fix q r
  assume q: "k = generateKey enc q QueryKey \<and> qf_resourceId (q_filters q) = Some r \<and> r \<noteq> [] \<and> plain_text r"
  with no have "ae_resourceId e \<noteq> r" using key_mentions_resource by blast
  with q ok show "d = CEntries (audit_query_log q (st\<lparr>as_log := as_log st @ [e]\<rparr>))"
    using audit_query_log_append_other unfolding cache_datum_ok_def by metis
next
  fix q r
  assume q: "k = generateKey enc q QueryWithCursorKey \<and> qf_resourceId (q_filters q) = Some r \<and> r \<noteq> [] \<and> plain_text r"
  with no have r: "ae_resourceId e \<noteq> r" using key_mentions_resource by blast
  have d: "d = CResult (queryWithCursor q st)" "cursor_id q \<notin> Some ` F"
    using ok q unfolding cache_datum_ok_def by blast+
  with e have "cursor_id q \<noteq> Some (ae_id e)" by force
  with q r d show "d = CResult (queryWithCursor q (st\<lparr>as_log := as_log st @ [e]\<rparr>))"
    by (simp add: queryWithCursor_append_other)
  show "cursor_id q \<notin> Some ` F" by (rule d(2))
next
  fix i assume "k = ''getById:'' @ i"
  with ok have "Some d = map_option CEntry (audit_getById i st)" unfolding cache_datum_ok_def by blast
  then show "Some d = map_option CEntry (audit_getById i (st\<lparr>as_log := as_log st @ [e]\<rparr>))"
    by (cases "audit_getById i st") (simp_all add: audit_getById_append)
qed

lemma invalidate_ok:
  assumes ok: "cache_ok enc F st c" and e: "ae_id e \<in> F"
  shows "cache_ok enc F (st\<lparr>as_log := as_log st @ [e]\<rparr>) (invalidateByResourceId (ae_resourceId e) c)"
  unfolding cache_ok_def
proof (intro conjI allI impI)
  show "map_wf (ac_cache (invalidateByResourceId (ae_resourceId e) c))"
    using ok by (auto simp: cache_ok_def invalidateByResourceId_def)
  fix k x
  assume "map_get (ac_cache (invalidateByResourceId (ae_resourceId e) c)) k = Some x"
  then have k: "map_get (ac_cache c) k = Some x" and no: "\<not> mentions_resource (ae_resourceId e) k"
    by (auto simp: invalidateByResourceId_def set_map_keys split: if_splits)
  have "cache_datum_ok enc F st k (ce_data x)" using ok k by (auto simp: cache_ok_def)
  then show "cache_datum_ok enc F (st\<lparr>as_log := as_log st @ [e]\<rparr>) k (ce_data x)"
    by (rule datum_append [OF _ no e])
qed

lemma datum_ok_mono:
  assumes ok: "cache_datum_ok enc F st k d" and sub: "G \<subseteq> F"
  shows "cache_datum_ok enc G st k d"
  unfolding cache_datum_ok_def
proof (intro conjI allI impI)
  fix q r
  assume q: "k = generateKey enc q QueryWithCursorKey \<and> qf_resourceId (q_filters q) = Some r \<and> r \<noteq> [] \<and> plain_text r"
  with ok show "d = CResult (queryWithCursor q st)" unfolding cache_datum_ok_def by blast
  have "cursor_id q \<notin> Some ` F" using ok q unfolding cache_datum_ok_def by blast
  with sub show "cursor_id q \<notin> Some ` G" by blast
qed (use ok in \<open>unfold cache_datum_ok_def, blast+\<close>)

lemma service_ok_mono:
  assumes "service_ok enc F sv" "G \<subseteq> F"
  shows "service_ok enc G sv"
proof -
  have "cache_ok enc G st c" if "cache_ok enc F st c" for st c
    using that datum_ok_mono [OF _ assms(2)] unfolding cache_ok_def by blast
  with assms(1) show ?thesis by (auto simp: service_ok_def split: option.splits)
qed

lemma service_log_ok: "service_ok enc F sv \<Longrightarrow> u \<in> F \<Longrightarrow> service_ok enc F (snd (service_log sha u t i sv))"
  using invalidate_ok [of enc F "sv_repository sv" _ "make_entry sha u t (last_hash (as_log (sv_repository sv))) i"]
  by (auto simp: service_ok_def service_log_def audit_append_eq split: option.splits)

datatype service_op =
    LogOp string string audit_input
  | QueryOp audit_query ms ms
  | QueryWithCursorOp audit_query ms ms
  | GetByIdOp string ms ms

primrec service_handle ::
  "(string \<Rightarrow> string) \<Rightarrow> (audit_cursor \<Rightarrow> string) \<Rightarrow> service_op \<Rightarrow> audit_service \<Rightarrow> audit_service" where
  "service_handle sha enc (LogOp u t i) sv = snd (service_log sha u t i sv)"
| "service_handle sha enc (QueryOp q n n') sv = snd (service_query enc q n n' sv)"
| "service_handle sha enc (QueryWithCursorOp q n n') sv = snd (service_queryWithCursor enc q n n' sv)"
| "service_handle sha enc (GetByIdOp i n n') sv = snd (service_getById enc i n n' sv)"

text \<open>
  The ids a sequence of calls logs, and that no call uses a cursor before the
  entry it names has been logged (entry ids are random UUIDs, and cursors come
  from earlier pages).
\<close>

fun logged_ids :: "service_op list \<Rightarrow> string set" where
  "logged_ids [] = {}"
| "logged_ids (LogOp u t i # ops) = insert u (logged_ids ops)"
| "logged_ids (_ # ops) = logged_ids ops"

fun cursors_issued :: "service_op list \<Rightarrow> bool" where
  "cursors_issued [] \<longleftrightarrow> True"
| "cursors_issued (QueryWithCursorOp q n n' # ops) \<longleftrightarrow>
     cursor_id q \<notin> Some ` logged_ids ops \<and> cursors_issued ops"
| "cursors_issued (_ # ops) \<longleftrightarrow> cursors_issued ops"

lemma service_run_ok:
  assumes "inj enc" "service_ok enc (logged_ids ops) sv" "cursors_issued ops"
  shows "service_ok enc {} (fold (service_handle sha enc) ops sv)"
  using assms(2,3)
proof (induction ops arbitrary: sv)
  case Nil
  then show ?case by simp
next
  case (Cons op ops)
  have "service_ok enc (logged_ids ops) (service_handle sha enc op sv)"
  proof (cases op)
    case (LogOp u t i)
    then have "service_ok enc (insert u (logged_ids ops)) (snd (service_log sha u t i sv))"
      using Cons.prems by (intro service_log_ok) simp_all
    then show ?thesis using LogOp service_ok_mono [OF _ subset_insertI] by simp
  next
    case (QueryOp q n n')
    with Cons.prems show ?thesis by (auto simp: service_query_def query_datum_ok intro!: cached_read_ok(1))
  next
    case (QueryWithCursorOp q n n')
    with Cons.prems show ?thesis
      by (auto simp: service_queryWithCursor_def cursor_datum_ok [OF assms(1)] intro!: cached_read_ok(1))
  next
    case (GetByIdOp i n n')
    with Cons.prems show ?thesis by (auto simp: service_getById_def getById_datum_ok intro!: cached_read_ok(1))
  qed
  moreover have "cursors_issued ops" using Cons.prems(2) by (cases op) simp_all
  ultimately show ?case using Cons.IH by simp
qed

lemma new_audit_service_ok: "service_ok enc F (new_audit_service opts)"
  by (auto simp: service_ok_def new_audit_service_def new_audit_store_def new_audit_cache_def cache_ok_def
      split: option.splits)

lemma cached_read_None: "fst (cached_read key now now' fetch sv) = None \<Longrightarrow> fetch (sv_repository sv) = None"
  by (auto simp: cached_read_def split: option.splits prod.splits)

lemma service_query_result:
  assumes ok: "service_ok enc F sv" and q: "qf_resourceId (q_filters q) = Some r" "r \<noteq> []" "plain_text r"
  shows "fst (service_query enc q n n' sv) = Some (CEntries (audit_query_log q (sv_repository sv)))"
proof -
  obtain d where "fst (service_query enc q n n' sv) = Some d"
    unfolding service_query_def by (metis cached_read_None option.distinct(1) option.exhaust)
  moreover from this have "cache_datum_ok enc F (sv_repository sv) (generateKey enc q QueryKey) d"
    unfolding service_query_def by (rule cached_read_ok(2) [OF ok, rotated]) (auto simp: query_datum_ok)
  ultimately show ?thesis using q by (auto simp: cache_datum_ok_def)
qed

lemma service_getById_result:
  assumes ok: "service_ok enc F sv"
  shows "fst (service_getById enc i n n' sv) = map_option CEntry (audit_getById i (sv_repository sv))"
proof (cases "fst (service_getById enc i n n' sv)")
  case None
  then show ?thesis unfolding service_getById_def by (auto dest: cached_read_None)
next
  case (Some d)
  then have "cache_datum_ok enc F (sv_repository sv) (''getById:'' @ i) d"
    unfolding service_getById_def generateKey_def key_type.case
    by (rule cached_read_ok(2) [OF ok, rotated])
      (use getById_datum_ok in \<open>simp add: generateKey_def\<close>)
  with Some show ?thesis by (simp add: cache_datum_ok_def)
qed

lemma service_cursor_result:
  assumes ok: "service_ok enc {} sv" and q: "qf_resourceId (q_filters q) = Some r" "r \<noteq> []" "plain_text r"
    and inj: "inj enc"
  shows "fst (service_queryWithCursor enc q n n' sv) = Some (CResult (queryWithCursor q (sv_repository sv)))"
proof -
  obtain d where "fst (service_queryWithCursor enc q n n' sv) = Some d"
    unfolding service_queryWithCursor_def by (metis cached_read_None option.distinct(1) option.exhaust)
  moreover from this have "cache_datum_ok enc {} (sv_repository sv) (generateKey enc q QueryWithCursorKey) d"
    unfolding service_queryWithCursor_def
    by (rule cached_read_ok(2) [OF ok, rotated]) (auto simp: cursor_datum_ok inj)
  ultimately show ?thesis using q by (auto simp: cache_datum_ok_def)
qed

text \<open>
  C5. After any sequence of service calls, a query and a cursor page that name a
  resource (with a non-empty id that JSON prints unescaped) and a lookup by id
  answer exactly what the repository holds at that moment, whether the answer
  comes from the cache or not: writes invalidate every cached answer they could
  change.  Cursor texts are assumed to tell cursors apart, and no earlier call to
  have used a cursor that names an entry logged only after it.
\<close>

theorem audit_cache_transparent:
  assumes "qf_resourceId (q_filters q) = Some r" "r \<noteq> []" "plain_text r"
    and "inj enc" "cursors_issued ops"
  shows "let sv = fold (service_handle sha enc) ops (new_audit_service opts) in
      fst (service_query enc q n n' sv) = Some (CEntries (audit_query_log q (sv_repository sv))) \<and>
      fst (service_queryWithCursor enc q n n' sv) = Some (CResult (queryWithCursor q (sv_repository sv))) \<and>
      fst (service_getById enc i n n' sv) = map_option CEntry (audit_getById i (sv_repository sv))"
proof -
  have "service_ok enc {} (fold (service_handle sha enc) ops (new_audit_service opts))"
    by (rule service_run_ok [OF assms(4) new_audit_service_ok assms(5)])
  with assms show ?thesis
    by (simp add: Let_def service_query_result service_getById_result service_cursor_result)
qed

definition user_query :: audit_query where
  "user_query = \<lparr>q_filters = no_filters\<lparr>qf_resourceId := Some ''user-1''\<rparr>, q_limit = Some 1,
     q_offset = None, q_cursor = None\<rparr>"

definition cursor_text :: "(string \<Rightarrow> string) \<Rightarrow> audit_cursor \<Rightarrow> string" where
  "cursor_text base64 c = (case c of Malformed_Cursor \<Rightarrow> [] | Cursor d \<Rightarrow> encodeCursor base64 d)"

lemma cursor_text_inj: "inj (cursor_text (\<lambda>x. x))"
proof (rule injI)
  fix c c' assume eq: "cursor_text (\<lambda>x. x) c = cursor_text (\<lambda>x. x) c'"
  have "encodeCursor (\<lambda>x. x) d \<noteq> []" "[] \<noteq> encodeCursor (\<lambda>x. x) d" for d by (simp_all add: encodeCursor_def)
  with eq encodeCursor_inj [of "\<lambda>x. x"] show "c = c'"
    by (cases c; cases c') (auto simp: cursor_text_def inj_def)
qed

theorem audit_cache_transparent_witness:
  "let enc = cursor_text (\<lambda>x. x);
       sv = fold (service_handle toy_sha enc)
        [LogOp ''id-1'' ''t1'' login_input, QueryOp user_query 0 0, QueryWithCursorOp user_query 0 0,
         LogOp ''id-2'' ''t2'' login_input]
        (new_audit_service (Some (1000, 10)))
   in fst (service_query enc user_query 1 1 sv) =
        Some (CEntries (audit_query_log user_query (sv_repository sv))) \<and>
      fst (service_queryWithCursor enc user_query 1 1 sv) =
        Some (CResult (queryWithCursor user_query (sv_repository sv))) \<and>
      fst (service_getById enc ''id-2'' 1 1 sv) =
        map_option CEntry (audit_getById ''id-2'' (sv_repository sv))"
proof -
  let ?ops = "[LogOp ''id-1'' ''t1'' login_input, QueryOp user_query 0 0, QueryWithCursorOp user_query 0 0,
      LogOp ''id-2'' ''t2'' login_input]"
  have q: "qf_resourceId (q_filters user_query) = Some ''user-1''" "''user-1'' \<noteq> []" "plain_text ''user-1''"
    by (simp_all add: user_query_def plain_text_def json_escape_def)
  have "cursors_issued ?ops" by (simp add: cursor_id_def user_query_def)
  from audit_cache_transparent [OF q cursor_text_inj this] show ?thesis by (simp only: Let_def)
qed

text \<open>
  A query that names no resource is not covered: its cached answer survives a
  write and is served, out of date, until it expires.
\<close>

lemma stale_key: "\<not> mentions_resource r (''query:{}'')"
proof -
  have "\<not> js_includes ''query:{}'' (CHR 34 # t)" for t by simp
  then show ?thesis by (simp add: mentions_resource_def)
qed

theorem unfiltered_query_stale:
  "let q = \<lparr>q_filters = no_filters, q_limit = None, q_offset = None, q_cursor = None\<rparr>;
       sv = fold (service_handle sha enc) [QueryOp q 0 0, LogOp u t input] (new_audit_service (Some (1000, 10)))
   in fst (service_query enc q 1 1 sv) = Some (CEntries []) \<and>
      length (audit_query_log q (sv_repository sv)) = 1"
proof -
  have "filter (\<lambda>kv. snd kv \<noteq> JUndef)
      (query_json enc \<lparr>q_filters = no_filters, q_limit = None, q_offset = None, q_cursor = None\<rparr>) = []"
    by (simp add: query_json_def filters_json_def no_filters_def opt_json_def)
  then have key: "generateKey enc \<lparr>q_filters = no_filters, q_limit = None, q_offset = None, q_cursor = None\<rparr> QueryKey
      = ''query:{}''"
    by (simp add: generateKey_def)
  show ?thesis
    by (simp add: Let_def service_query_def key cached_read_def new_audit_service_def new_audit_cache_def
        cache_get_def cache_set_def map_empty_def map_size_def map_get_def map_has_def new_audit_store_def
        audit_query_log_def service_log_def audit_append_def invalidateByResourceId_def map_keys_def stale_key
        del: js_includes.simps)
qed

text \<open>
  Neither is a resource whose id JSON escapes: a write looks for the id as it is,
  while the key holds its escaped form, so the cached answer stays as well.
\<close>

definition quoted_query :: audit_query where
  "quoted_query = \<lparr>q_filters = no_filters\<lparr>qf_resourceId := Some [CHR 34]\<rparr>, q_limit = None,
     q_offset = None, q_cursor = None\<rparr>"

lemma quoted_key:
  "generateKey enc quoted_query QueryKey =
     ''query:{'' @ [CHR 34] @ ''resourceId'' @ [CHR 34] @ '':'' @ [CHR 34, CHR 92, CHR 34, CHR 34] @ ''}''"
  by (simp add: generateKey_def quoted_query_def query_json_def filters_json_def no_filters_def opt_json_def
      json_quote_def json_escape_def)

lemma quoted_key_unmentioned: "\<not> mentions_resource [CHR 34] (generateKey enc quoted_query QueryKey)"
  unfolding quoted_key mentions_resource_def by simp

theorem escaped_id_stale:
  "let input = login_input\<lparr>ae_resourceId := [CHR 34]\<rparr>;
       sv = fold (service_handle sha enc) [QueryOp quoted_query 0 0, LogOp u t input]
              (new_audit_service (Some (1000, 10)))
   in fst (service_query enc quoted_query 1 1 sv) = Some (CEntries []) \<and>
      length (audit_query_log quoted_query (sv_repository sv)) = 1"
proof -
  let ?key = "generateKey enc quoted_query QueryKey"
  have "filter (matches (q_filters quoted_query)) [make_entry sha u t p (login_input\<lparr>ae_resourceId := [CHR 34]\<rparr>)] =
      [make_entry sha u t p (login_input\<lparr>ae_resourceId := [CHR 34]\<rparr>)]" for p
    by (simp add: quoted_query_def matches_def no_filters_def str_filter_def)
  moreover have "q_offset quoted_query = None" "q_limit quoted_query = None" by (simp_all add: quoted_query_def)
  ultimately show ?thesis
    using quoted_key_unmentioned [of enc]
    by (simp add: Let_def service_query_def cached_read_def new_audit_service_def new_audit_cache_def
        cache_get_def cache_set_def map_empty_def map_size_def map_get_def map_has_def new_audit_store_def
        audit_query_log_def service_log_def audit_append_def invalidateByResourceId_def map_keys_def
        last_hash_def del: filter.simps)
qed

subsection \<open>The bound and the eviction order\<close>

lemma oldest_loop_mono: "\<exists>k a. oldest_loop es (Some (k0, a0)) = Some (k, a) \<and> a \<le> a0"
proof (induction es arbitrary: k0 a0)
  case Nil
  then show ?case by simp
next
  case (Cons e es)
  obtain key entry where e: "e = (key, entry)" by fastforce
  show ?case
  proof (cases "ce_lastAccessed entry < a0")
    case True
    with Cons [of key "ce_lastAccessed entry"] e show ?thesis by fastforce
  next
    case False
    with Cons [of k0 a0] e show ?thesis by simp
  qed
qed

lemma oldest_loop_min:
  "oldest_loop es best = Some (k, a) \<Longrightarrow>
     ((\<exists>e. (k, e) \<in> set es \<and> ce_lastAccessed e = a) \<or> best = Some (k, a)) \<and>
     (\<forall>(k', e')\<in>set es. a \<le> ce_lastAccessed e')"
proof (induction es best rule: oldest_loop.induct)
  case (1 best)
  then show ?case by simp
next
  case (2 key entry es best)
  show ?case
  proof (cases best)
    case None
    with 2 oldest_loop_mono [of es key "ce_lastAccessed entry"] show ?thesis by fastforce
  next
    case (Some b)
    obtain k0 a0 where b: "b = (k0, a0)" by fastforce
    show ?thesis
    proof (cases "ce_lastAccessed entry < a0")
      case True
      with Some b 2 oldest_loop_mono [of es key "ce_lastAccessed entry"] show ?thesis by fastforce
    next
      case False
      with Some b 2 oldest_loop_mono [of es k0 a0] show ?thesis by fastforce
    qed
  qed
qed

definition cache_bounded :: "int \<Rightarrow> audit_cache \<Rightarrow> bool" where
  "cache_bounded m c \<longleftrightarrow>
     map_wf (ac_cache c) \<and> map_get (ac_cache c) [] = None \<and> ac_maxEntries c = m \<and>
     int (map_size (ac_cache c)) \<le> max 1 m"

lemma evictOldest_lru:
  assumes wf: "map_wf (ac_cache c)" "map_get (ac_cache c) [] = None" and ne: "ac_cache c \<noteq> []"
  shows "\<exists>k e. map_get (ac_cache c) k = Some e \<and>
      (\<forall>k' e'. map_get (ac_cache c) k' = Some e' \<longrightarrow> ce_lastAccessed e \<le> ce_lastAccessed e') \<and>
      evictOldest c = c\<lparr>ac_cache := map_delete k (ac_cache c)\<rparr>"
proof -
  obtain k0 e0 es where m: "ac_cache c = (k0, e0) # es" using ne by (cases "ac_cache c") auto
  then obtain k a where best: "oldest_loop (ac_cache c) None = Some (k, a)"
    using oldest_loop_mono [of es k0 "ce_lastAccessed e0"] by auto
  then obtain e where e: "(k, e) \<in> set (ac_cache c)" "ce_lastAccessed e = a"
    and least: "\<forall>(k', e')\<in>set (ac_cache c). a \<le> ce_lastAccessed e'"
    using oldest_loop_min by blast
  have get: "map_get (ac_cache c) k = Some e" using in_set_map_get [OF wf(1) e(1)] .
  with wf(2) have "k \<noteq> []" by auto
  with best have "evictOldest c = c\<lparr>ac_cache := map_delete k (ac_cache c)\<rparr>"
    by (simp add: evictOldest_def)
  with get e(2) least show ?thesis using map_get_in_set by fastforce
qed

lemma cache_set_bounded:
  assumes b: "cache_bounded m c" and key: "key \<noteq> []"
  shows "cache_bounded m (cache_set key d now c)"
proof (cases "int (map_size (ac_cache c)) \<ge> ac_maxEntries c \<and> \<not> map_has (ac_cache c) key \<and> ac_cache c \<noteq> []")
  case True
  then obtain k e where k: "map_get (ac_cache c) k = Some e"
    and ev: "evictOldest c = c\<lparr>ac_cache := map_delete k (ac_cache c)\<rparr>"
    using evictOldest_lru b unfolding cache_bounded_def by blast
  have "Suc (map_size (map_delete k (ac_cache c))) = map_size (ac_cache c)"
    using b k by (intro map_size_delete) (auto simp: cache_bounded_def)
  with True b key ev show ?thesis
    by (auto simp: cache_set_def Let_def cache_bounded_def map_size_set map_has_def)
next
  case False
  then have "ac_cache c = [] \<or> map_has (ac_cache c) key \<or> int (map_size (ac_cache c)) < m"
    using b by (auto simp: cache_bounded_def)
  moreover have "evictOldest c = c" if "ac_cache c = []" using that by (simp add: evictOldest_def)
  ultimately show ?thesis using b key
    by (auto simp: cache_set_def Let_def cache_bounded_def map_size_set map_has_def map_size_zero [THEN iffD2])
qed

lemma cache_get_bounded: "cache_bounded m c \<Longrightarrow> key \<noteq> [] \<Longrightarrow> cache_bounded m (snd (cache_get key now c))"
  using map_size_delete_le [of key "ac_cache c"]
  by (auto simp: cache_get_def cache_bounded_def map_size_set split: option.split)

lemma invalidate_bounded: "cache_bounded m c \<Longrightarrow> cache_bounded m (invalidateByResourceId r c)"
  using map_size_fold_delete_le [of "filter (mentions_resource r) (map_keys (ac_cache c))" "ac_cache c"]
  by (auto simp: invalidateByResourceId_def Let_def cache_bounded_def)

definition service_bounded :: "int \<Rightarrow> audit_service \<Rightarrow> bool" where
  "service_bounded m sv \<longleftrightarrow> (case sv_cache sv of None \<Rightarrow> True | Some c \<Rightarrow> cache_bounded m c)"

lemma cached_read_bounded:
  assumes "service_bounded m sv" "key \<noteq> []"
  shows "service_bounded m (snd (cached_read key now now' fetch sv))"
proof (cases "sv_cache sv")
  case None
  with assms show ?thesis by (simp add: cached_read_def)
next
  case (Some c)
  obtain r c' where get: "cache_get key now c = (r, c')" by fastforce
  then have "cache_bounded m c'"
    using cache_get_bounded [of m c key now] assms Some by (simp add: service_bounded_def)
  with Some get assms show ?thesis
    by (cases r) (auto simp: cached_read_def service_bounded_def cache_set_bounded split: option.split)
qed

interpretation audit_bound: handler_system "service_handle sha enc" "service_bounded m" for sha enc m
proof unfold_locales
  fix s e assume b: "service_bounded m s"
  show "service_bounded m (service_handle sha enc e s)"
  proof (cases e)
    case (LogOp u t i)
    with b show ?thesis
      by (auto simp: service_log_def service_bounded_def invalidate_bounded
          split: option.split sum.split prod.split)
  qed (use b in \<open>auto simp: service_query_def service_queryWithCursor_def service_getById_def
        intro: cached_read_bounded\<close>)
qed

text \<open>
  C6. The cache stays bounded: after any sequence of service calls it holds at
  most \<open>maxEntries\<close> answers (one, if the bound is configured below one).
\<close>

theorem audit_cache_bounded:
  "case sv_cache (fold (service_handle sha enc) ops (new_audit_service (Some (ttl, m)))) of
     None \<Rightarrow> True | Some c \<Rightarrow> int (map_size (ac_cache c)) \<le> max 1 m"
proof -
  have "service_bounded m (fold (service_handle sha enc) ops (new_audit_service (Some (ttl, m))))"
    by (rule audit_bound.run_inv)
      (simp add: service_bounded_def new_audit_service_def new_audit_cache_def cache_bounded_def
        map_size_def map_empty_def map_get_def)
  then show ?thesis by (simp add: service_bounded_def cache_bounded_def split: option.splits)
qed

end
