(* ===== verification/CircuitBreaker.thy ===== *)
theory CircuitBreaker
  imports AuditService
begin

text \<open>
  The circuit breaker of \<open>src/circuit-breaker/CircuitBreaker.ts\<close> and its registry
  \<open>src/circuit-breaker/registry.ts\<close>.  \<open>execute\<close> awaits the guarded call, so it is
  two atomic steps: \<open>execute_enter\<close> runs up to the \<open>await\<close>, \<open>execute_leave\<close> is the
  continuation when the call has settled.  Other calls run in between; the
  system of breaker, clock and calls in flight is the relation \<open>breaker_step\<close>.
\<close>

subsection \<open>The breaker\<close>

datatype circuit_state = CLOSED | OPEN | HALF_OPEN

record breaker_options =
  bo_name :: "string option"
  bo_failureThreshold :: "int option"
  bo_successThreshold :: "int option"
  bo_timeout :: "ms option"

record circuit_breaker =
  cb_name :: string
  cb_failureThreshold :: int
  cb_successThreshold :: int
  cb_timeout :: ms
  cb_state :: circuit_state
  cb_failureCount :: int
  cb_successCount :: int
  cb_lastFailureTime :: "ms option"
  cb_probeInFlight :: bool

datatype circuit_error = CircuitOpenError string

record circuit_stats =
  cs_state :: circuit_state
  cs_failureCount :: int
  cs_successCount :: int
  cs_lastFailureTime :: "ms option"

definition or_default :: "'a \<Rightarrow> 'a option \<Rightarrow> 'a" where
  "or_default d x = (case x of None \<Rightarrow> d | Some v \<Rightarrow> v)"

definition new_breaker :: "breaker_options \<Rightarrow> circuit_breaker" where
  "new_breaker options =
     \<lparr>cb_name = or_default ''default'' (bo_name options),
      cb_failureThreshold = or_default 5 (bo_failureThreshold options),
      cb_successThreshold = or_default 1 (bo_successThreshold options),
      cb_timeout = or_default 30000 (bo_timeout options),
      cb_state = CLOSED, cb_failureCount = 0, cb_successCount = 0, cb_lastFailureTime = None,
      cb_probeInFlight = False\<rparr>"

definition toClosed :: "circuit_breaker \<Rightarrow> circuit_breaker" where
  "toClosed b = b\<lparr>cb_state := CLOSED, cb_failureCount := 0, cb_successCount := 0\<rparr>"

definition toOpen :: "circuit_breaker \<Rightarrow> circuit_breaker" where
  "toOpen b = b\<lparr>cb_state := OPEN\<rparr>"

definition toHalfOpen :: "circuit_breaker \<Rightarrow> circuit_breaker" where
  "toHalfOpen b = b\<lparr>cb_state := HALF_OPEN, cb_successCount := 0, cb_probeInFlight := False\<rparr>"

definition transitionIfNeeded :: "ms \<Rightarrow> circuit_breaker \<Rightarrow> circuit_breaker" where
  "transitionIfNeeded now b =
     (if cb_state b = OPEN \<and>
         (case cb_lastFailureTime b of None \<Rightarrow> False | Some t \<Rightarrow> now - t \<ge> cb_timeout b)
      then toHalfOpen b else b)"

definition onSuccess :: "circuit_breaker \<Rightarrow> circuit_breaker" where
  "onSuccess b =
     (let b1 = b\<lparr>cb_failureCount := 0\<rparr>
      in if cb_state b1 = HALF_OPEN
         then let b2 = b1\<lparr>cb_successCount := cb_successCount b1 + 1\<rparr>
              in if cb_successCount b2 \<ge> cb_successThreshold b2 then toClosed b2 else b2
         else b1)"

definition onFailure :: "ms \<Rightarrow> circuit_breaker \<Rightarrow> circuit_breaker" where
  "onFailure now b =
     (let b1 = b\<lparr>cb_lastFailureTime := Some now, cb_successCount := 0\<rparr>
      in if cb_state b1 = HALF_OPEN then toOpen b1
         else let b2 = b1\<lparr>cb_failureCount := cb_failureCount b1 + 1\<rparr>
              in if cb_failureCount b2 \<ge> cb_failureThreshold b2 then toOpen b2 else b2)"

definition execute_enter :: "ms \<Rightarrow> circuit_breaker \<Rightarrow> (circuit_error, unit) result \<times> circuit_breaker" where
  "execute_enter now b =
     (let b = transitionIfNeeded now b
      in if cb_state b = OPEN then (Throw (CircuitOpenError (cb_name b)), b)
         else if cb_state b = HALF_OPEN
         then if cb_probeInFlight b then (Throw (CircuitOpenError (cb_name b)), b)
              else (Ok (), b\<lparr>cb_probeInFlight := True\<rparr>)
         else (Ok (), b))"

definition execute_leave :: "ms \<Rightarrow> bool \<Rightarrow> circuit_breaker \<Rightarrow> circuit_breaker" where
  "execute_leave now success b =
     (if success then onSuccess b else onFailure now b)\<lparr>cb_probeInFlight := False\<rparr>"

text \<open>A call that nothing else interleaves with.\<close>

definition breaker_execute ::
  "ms \<Rightarrow> ms \<Rightarrow> 'e + 'a \<Rightarrow> circuit_breaker \<Rightarrow> (circuit_error + 'e, 'a) result \<times> circuit_breaker" where
  "breaker_execute now later outcome b =
     (case execute_enter now b of
        (Throw err, b') \<Rightarrow> (Throw (Inl err), b')
      | (Ok _, b') \<Rightarrow>
          (case outcome of
             Inr x \<Rightarrow> (Ok x, execute_leave later True b')
           | Inl err \<Rightarrow> (Throw (Inr err), execute_leave later False b')))"

definition getState :: "ms \<Rightarrow> circuit_breaker \<Rightarrow> circuit_state \<times> circuit_breaker" where
  "getState now b = (let b = transitionIfNeeded now b in (cb_state b, b))"

definition getStats :: "ms \<Rightarrow> circuit_breaker \<Rightarrow> circuit_stats \<times> circuit_breaker" where
  "getStats now b =
     (let b = transitionIfNeeded now b
      in (\<lparr>cs_state = cb_state b, cs_failureCount = cb_failureCount b,
           cs_successCount = cb_successCount b, cs_lastFailureTime = cb_lastFailureTime b\<rparr>, b))"

definition breaker_reset :: "circuit_breaker \<Rightarrow> circuit_breaker" where
  "breaker_reset b =
     b\<lparr>cb_state := CLOSED, cb_failureCount := 0, cb_successCount := 0, cb_lastFailureTime := None,
       cb_probeInFlight := False\<rparr>"

lemmas breaker_defs = toClosed_def toOpen_def toHalfOpen_def transitionIfNeeded_def onSuccess_def
  onFailure_def execute_enter_def execute_leave_def getState_def getStats_def breaker_reset_def Let_def

subsection \<open>The registry\<close>

record breaker_config =
  bc_failureThreshold :: int
  bc_successThreshold :: int
  bc_timeout :: ms

record breaker_status =
  bs_name :: string
  bs_stats :: circuit_stats
  bs_config :: breaker_config

record breaker_registry =
  br_breakers :: "(string, circuit_breaker) jsmap"
  br_configs :: "(string, breaker_config) jsmap"

datatype registry_error = Breaker_Not_Found string | Audit_Failed service_error | Config_Undefined string

definition new_registry :: breaker_registry where
  "new_registry = \<lparr>br_breakers = map_empty, br_configs = map_empty\<rparr>"

definition getOrCreate :: "string \<Rightarrow> breaker_options \<Rightarrow> breaker_registry \<Rightarrow> circuit_breaker option \<times> breaker_registry" where
  "getOrCreate name options r =
     (let r' =
        (if \<not> map_has (br_breakers r) name
         then let opts = options\<lparr>bo_name := (case bo_name options of None \<Rightarrow> Some name | Some n \<Rightarrow> Some n)\<rparr>
              in r\<lparr>br_breakers := map_set name (new_breaker opts) (br_breakers r),
                   br_configs := map_set name
                     \<lparr>bc_failureThreshold = or_default 5 (bo_failureThreshold opts),
                      bc_successThreshold = or_default 1 (bo_successThreshold opts),
                      bc_timeout = or_default 30000 (bo_timeout opts)\<rparr> (br_configs r)\<rparr>
         else r)
      in (map_get (br_breakers r') name, r'))"

text \<open>\<open>configs.get(name)!\<close> is dereferenced: without a configuration it is a \<open>TypeError\<close>.\<close>

fun getAll_loop ::
  "ms \<Rightarrow> (string \<times> circuit_breaker) list \<Rightarrow> breaker_registry
     \<Rightarrow> (registry_error, breaker_status list) result \<times> breaker_registry" where
  "getAll_loop now [] r = (Ok [], r)"
| "getAll_loop now ((name, b) # es) r =
     (let (stats, b') = getStats now b;
          r1 = r\<lparr>br_breakers := map_set name b' (br_breakers r)\<rparr>
      in case map_get (br_configs r) name of
           None \<Rightarrow> (Throw (Config_Undefined name), r1)
         | Some cfg \<Rightarrow>
             (case getAll_loop now es r1 of
                (Throw err, r2) \<Rightarrow> (Throw err, r2)
              | (Ok rest, r2) \<Rightarrow> (Ok (\<lparr>bs_name = name, bs_stats = stats, bs_config = cfg\<rparr> # rest), r2)))"

definition getAll :: "ms \<Rightarrow> breaker_registry \<Rightarrow> (registry_error, breaker_status list) result \<times> breaker_registry" where
  "getAll now r = getAll_loop now (br_breakers r) r"

definition registry_reset :: "string \<Rightarrow> breaker_registry \<Rightarrow> bool \<times> breaker_registry" where
  "registry_reset name r =
     (case map_get (br_breakers r) name of
        None \<Rightarrow> (False, r)
      | Some b \<Rightarrow> (True, r\<lparr>br_breakers := map_set name (breaker_reset b) (br_breakers r)\<rparr>))"

definition resetBreaker ::
  "(string \<Rightarrow> string) \<Rightarrow> string \<Rightarrow> string \<Rightarrow> string \<Rightarrow> string \<Rightarrow> breaker_registry \<times> audit_service
     \<Rightarrow> (registry_error, unit) result \<times> breaker_registry \<times> audit_service" where
  "resetBreaker sha uuid ts name performedBy s =
     (case s of (r, sv) \<Rightarrow>
      case registry_reset name r of
        (False, r') \<Rightarrow> (Throw (Breaker_Not_Found name), r', sv)
      | (True, r') \<Rightarrow>
          (case service_log sha uuid ts
                  \<lparr>ae_action = ADMIN_ACTION, ae_severity = INFO, ae_actor = performedBy,
                   ae_resource = ''circuit_breaker'', ae_resourceId = name, ae_metadata = [],
                   ae_ipAddress = None, ae_correlationId = None\<rparr> sv of
             (Ok _, sv') \<Rightarrow> (Ok (), r', sv')
           | (Throw err, sv') \<Rightarrow> (Throw (Audit_Failed err), r', sv')))"

definition registry_clear :: "breaker_registry \<Rightarrow> breaker_registry" where
  "registry_clear r = r\<lparr>br_breakers := map_empty, br_configs := map_empty\<rparr>"

subsection \<open>Events and the documented diagram\<close>

datatype breaker_event = EnterEv | LeaveEv bool | StateEv | StatsEv | ResetEv

fun breaker_handle :: "ms \<times> breaker_event \<Rightarrow> circuit_breaker \<Rightarrow> circuit_breaker" where
  "breaker_handle (now, EnterEv) b = snd (execute_enter now b)"
| "breaker_handle (now, LeaveEv ok) b = execute_leave now ok b"
| "breaker_handle (now, StateEv) b = snd (getState now b)"
| "breaker_handle (now, StatsEv) b = snd (getStats now b)"
| "breaker_handle (now, ResetEv) b = breaker_reset b"

definition timeout_elapsed :: "ms \<Rightarrow> circuit_breaker \<Rightarrow> bool" where
  "timeout_elapsed now b \<longleftrightarrow>
     (case cb_lastFailureTime b of None \<Rightarrow> False | Some t \<Rightarrow> t + cb_timeout b \<le> now)"

fun diagram :: "ms \<Rightarrow> breaker_event \<Rightarrow> circuit_breaker \<Rightarrow> circuit_state" where
  "diagram now ev b =
     (if ev = ResetEv then CLOSED
      else case cb_state b of
        CLOSED \<Rightarrow>
          if ev = LeaveEv False \<and> cb_failureThreshold b \<le> cb_failureCount b + 1 then OPEN else CLOSED
      | OPEN \<Rightarrow>
          if ev \<in> {EnterEv, StateEv, StatsEv} \<and> timeout_elapsed now b then HALF_OPEN else OPEN
      | HALF_OPEN \<Rightarrow>
          if ev = LeaveEv False then OPEN
          else if ev = LeaveEv True \<and> cb_successThreshold b \<le> cb_successCount b + 1 then CLOSED
          else HALF_OPEN)"

text \<open>
  C7. The breaker moves exactly along its documented diagram: CLOSED to OPEN
  when a failure brings the count to \<open>failureThreshold\<close>, OPEN to HALF\_OPEN on
  the first use after \<open>timeout\<close> ms without a failure, HALF\_OPEN to CLOSED on
  the success that reaches \<open>successThreshold\<close> and to OPEN on any failure, and to
  CLOSED by \<open>reset\<close>; nothing else changes the state.
\<close>

theorem breaker_follows_diagram: "cb_state (breaker_handle (now, ev) b) = diagram now ev b"
proof -
  have elapsed: "timeout_elapsed now b \<longleftrightarrow>
      (case cb_lastFailureTime b of None \<Rightarrow> False | Some t \<Rightarrow> now - t \<ge> cb_timeout b)"
    by (auto simp: timeout_elapsed_def split: option.splits)
  show ?thesis
    by (cases ev; cases "cb_state b") (auto simp: breaker_defs elapsed)
qed

definition breaker_inv :: "circuit_breaker \<Rightarrow> bool" where
  "breaker_inv b \<longleftrightarrow>
     0 < cb_failureThreshold b \<and> 0 < cb_successThreshold b \<and>
     0 \<le> cb_failureCount b \<and> 0 \<le> cb_successCount b \<and>
     (cb_state b = CLOSED \<longrightarrow> cb_failureCount b < cb_failureThreshold b) \<and>
     (cb_state b = HALF_OPEN \<longrightarrow> cb_successCount b < cb_successThreshold b) \<and>
     (cb_state b \<noteq> HALF_OPEN \<longrightarrow> cb_successCount b = 0 \<and> \<not> cb_probeInFlight b) \<and>
     (cb_state b \<noteq> CLOSED \<longrightarrow> cb_lastFailureTime b \<noteq> None)"

interpretation breaker: handler_system breaker_handle breaker_inv
proof unfold_locales
  fix s and e :: "ms \<times> breaker_event" assume inv: "breaker_inv s"
  obtain now ev where e: "e = (now, ev)" by fastforce
  from inv show "breaker_inv (breaker_handle e s)" unfolding e
    by (cases ev; cases "cb_state s") (auto simp: breaker_defs breaker_inv_def split: option.splits)
qed

text \<open>
  C8. In every state that calls can bring a breaker to, for any interleaving of
  starting and settling calls, status reads and resets, and any clock: a closed
  breaker is below its failure threshold, a half-open one below its success
  threshold, the success count and the probe flag are clear outside HALF\_OPEN,
  and an open breaker always has a failure time, so it cannot stay open for
  good: once \<open>timeout\<close> ms have passed, the next call is let through.
\<close>

theorem breaker_reachable:
  assumes "0 < or_default 5 (bo_failureThreshold opts)" "0 < or_default 1 (bo_successThreshold opts)"
  shows "let b = fold breaker_handle evs (new_breaker opts) in
     (cb_state b = CLOSED \<longrightarrow> cb_failureCount b < cb_failureThreshold b) \<and>
     (cb_state b = HALF_OPEN \<longrightarrow> cb_successCount b < cb_successThreshold b) \<and>
     (cb_state b \<noteq> HALF_OPEN \<longrightarrow> cb_successCount b = 0 \<and> \<not> cb_probeInFlight b) \<and>
     (cb_state b = OPEN \<longrightarrow>
        (\<exists>t. cb_lastFailureTime b = Some t \<and>
             (\<forall>now. fst (execute_enter now b) = Ok () \<longleftrightarrow> t + cb_timeout b \<le> now)))"
proof -
  let ?b = "fold breaker_handle evs (new_breaker opts)"
  have "breaker_inv ?b"
    by (rule breaker.run_inv) (use assms in \<open>simp add: breaker_inv_def new_breaker_def\<close>)
  then show ?thesis
    by (auto simp: Let_def breaker_inv_def execute_enter_def transitionIfNeeded_def toHalfOpen_def)
qed

definition two_failures :: breaker_options where
  "two_failures = \<lparr>bo_name = None, bo_failureThreshold = Some 2, bo_successThreshold = Some 2, bo_timeout = Some 10\<rparr>"

theorem breaker_reachable_witness:
  "let b = fold breaker_handle [(0, EnterEv), (1, LeaveEv False), (2, EnterEv), (3, LeaveEv False)]
             (new_breaker two_failures)
   in cb_state b = OPEN \<and>
      (\<exists>t. cb_lastFailureTime b = Some t \<and>
           (\<forall>now. fst (execute_enter now b) = Ok () \<longleftrightarrow> t + cb_timeout b \<le> now))"
  using breaker_reachable [of two_failures
      "[(0, EnterEv), (1, LeaveEv False), (2, EnterEv), (3, LeaveEv False)]"]
  by (simp add: Let_def two_failures_def new_breaker_def or_default_def breaker_defs)

subsection \<open>Tripping\<close>

lemma execute_failure_closed:
  assumes "cb_state b = CLOSED"
  shows "breaker_execute now later (Inl err) b =
    (Throw (Inr err), (if cb_failureThreshold b \<le> cb_failureCount b + 1 then toOpen else id)
       (b\<lparr>cb_lastFailureTime := Some later, cb_successCount := 0, cb_failureCount := cb_failureCount b + 1,
          cb_probeInFlight := False\<rparr>))"
  using assms by (simp add: breaker_execute_def breaker_defs)

definition fail_at :: "ms \<times> ms \<Rightarrow> circuit_breaker \<Rightarrow> circuit_breaker" where
  "fail_at = (\<lambda>(t, t') b. snd (breaker_execute t t' (Inl () :: unit + unit) b))"

lemma fail_at_closed:
  assumes "cb_state b = CLOSED"
  shows "cb_failureCount (fail_at tt b) = cb_failureCount b + 1"
    "cb_failureThreshold (fail_at tt b) = cb_failureThreshold b"
    "cb_state (fail_at tt b) = (if cb_failureThreshold b \<le> cb_failureCount b + 1 then OPEN else CLOSED)"
  using assms by (auto simp: fail_at_def toOpen_def execute_failure_closed [OF assms] split: prod.split)

lemma fail_at_keeps [simp]:
  "cb_failureThreshold (fail_at tt b) = cb_failureThreshold b" "cb_timeout (fail_at tt b) = cb_timeout b"
  "cb_name (fail_at tt b) = cb_name b"
  by (auto simp: fail_at_def breaker_execute_def breaker_defs split: prod.split)

lemma fail_at_fold_keeps [simp]:
  "cb_failureThreshold (fold fail_at ts b) = cb_failureThreshold b" "cb_timeout (fold fail_at ts b) = cb_timeout b"
  "cb_name (fold fail_at ts b) = cb_name b"
  by (induction ts arbitrary: b) simp_all

lemma fail_at_closed_time:
  "cb_state b = CLOSED \<Longrightarrow> cb_lastFailureTime (fail_at (t, t') b) = Some t'"
  by (simp add: fail_at_def execute_failure_closed toOpen_def)

lemma consecutive_failures:
  assumes "cb_state b = CLOSED" "cb_failureCount b = 0" "0 < cb_failureThreshold b"
    and "int (length ts) \<le> cb_failureThreshold b"
  shows "cb_failureCount (fold fail_at ts b) = int (length ts) \<and>
    cb_state (fold fail_at ts b) = (if int (length ts) = cb_failureThreshold b then OPEN else CLOSED) \<and>
    (ts \<noteq> [] \<longrightarrow> cb_lastFailureTime (fold fail_at ts b) = Some (snd (last ts)))"
  using assms(4)
proof (induction ts rule: rev_induct)
  case Nil
  with assms show ?case by simp
next
  case (snoc t ts)
  then have "cb_state (fold fail_at ts b) = CLOSED" "cb_failureCount (fold fail_at ts b) = int (length ts)"
    by auto
  with snoc.prems show ?case
    by (cases t) (auto simp: fail_at_closed fail_at_closed_time)
qed

lemma open_refuses:
  assumes "cb_state b = OPEN" "cb_lastFailureTime b = Some f" "now < f + cb_timeout b"
  shows "breaker_execute now later outcome b = (Throw (Inl (CircuitOpenError (cb_name b))), b)"
    "execute_enter now b = (Throw (CircuitOpenError (cb_name b)), b)"
  using assms by (simp_all add: breaker_execute_def breaker_defs)

lemma open_admits_probe:
  assumes "cb_state b = OPEN" "cb_lastFailureTime b = Some f" "f + cb_timeout b \<le> now"
  shows "fst (execute_enter now b) = Ok ()"
  using assms by (simp add: breaker_defs)

text \<open>
  C9. The breaker trips on the \<open>failureThreshold\<close>-th consecutive failure, not
  earlier and not later, and is then shut for exactly \<open>timeout\<close> ms: from a closed
  breaker with a clear count, \<open>n\<close> failing calls leave it closed as long as \<open>n\<close> is
  below the threshold and open when \<open>n\<close> reaches it; from then on every call
  before \<open>timeout\<close> ms have passed since the last failure is refused with a
  \<open>CircuitOpenError\<close> without running and leaves the breaker as it is, so the
  next one is refused as well, and the first call at or after that moment is let
  through.
\<close>

theorem breaker_trips_exactly:
  assumes "cb_state b = CLOSED" "cb_failureCount b = 0"
    and "int (length ts) \<le> cb_failureThreshold b" "0 < cb_failureThreshold b"
  shows "cb_failureCount (fold fail_at ts b) = int (length ts) \<and>
    cb_state (fold fail_at ts b) = (if int (length ts) = cb_failureThreshold b then OPEN else CLOSED) \<and>
    (int (length ts) = cb_failureThreshold b \<longrightarrow>
      (\<forall>now later outcome. now < snd (last ts) + cb_timeout b \<longrightarrow>
         breaker_execute now later outcome (fold fail_at ts b) =
           (Throw (Inl (CircuitOpenError (cb_name b))), fold fail_at ts b)) \<and>
      (\<forall>now. fst (execute_enter now (fold fail_at ts b)) = Ok () \<longleftrightarrow> snd (last ts) + cb_timeout b \<le> now))"
proof -
  let ?b = "fold fail_at ts b"
  note trip = consecutive_failures [OF assms(1,2,4,3)]
  have b: "cb_state ?b = OPEN" "cb_lastFailureTime ?b = Some (snd (last ts))"
    if "int (length ts) = cb_failureThreshold b"
    using trip that assms(4) by auto
  have "fst (execute_enter now ?b) = Ok () \<longleftrightarrow> snd (last ts) + cb_timeout b \<le> now"
    if "int (length ts) = cb_failureThreshold b" for now
    using open_refuses(2) [OF b [OF that], of now] open_admits_probe [OF b [OF that], of now]
    by (cases "now < snd (last ts) + cb_timeout b") auto
  with trip show ?thesis
    by (intro conjI impI allI) (simp_all add: open_refuses(1) [OF b])
qed

theorem breaker_trips_exactly_witness:
  "cb_state (fold fail_at [(0, 1), (2, 3)] (new_breaker two_failures)) = OPEN \<and>
   breaker_execute 12 15 (Inr () :: unit + unit) (fold fail_at [(0, 1), (2, 3)] (new_breaker two_failures)) =
     (Throw (Inl (CircuitOpenError ''default'')), fold fail_at [(0, 1), (2, 3)] (new_breaker two_failures)) \<and>
   fst (execute_enter 13 (fold fail_at [(0, 1), (2, 3)] (new_breaker two_failures))) = Ok ()"
proof -
  let ?b = "new_breaker two_failures"
  have b: "cb_state ?b = CLOSED" "cb_failureCount ?b = 0" "cb_failureThreshold ?b = 2" "cb_timeout ?b = 10"
    "cb_name ?b = ''default''"
    by (simp_all add: new_breaker_def two_failures_def or_default_def)
  then show ?thesis
    using breaker_trips_exactly [OF b(1,2), of "[(0, 1), (2, 3)]", where ?'b = unit and ?'a = unit] by simp
qed

subsection \<open>Probes\<close>

text \<open>
  The breaker with its clock and the calls in flight (by start time).  A call
  lasts less than \<open>d\<close> ms: time does not pass beyond the deadline of a call.
\<close>

record breaker_sys =
  sys_now :: ms
  sys_breaker :: circuit_breaker
  sys_calls :: "ms list"

inductive breaker_step :: "ms \<Rightarrow> breaker_sys \<Rightarrow> breaker_sys \<Rightarrow> bool" for d where
  tick: "sys_now s \<le> now \<Longrightarrow> \<forall>t\<in>set (sys_calls s). now < t + d \<Longrightarrow> breaker_step d s (s\<lparr>sys_now := now\<rparr>)"
| enter: "execute_enter (sys_now s) (sys_breaker s) = (Ok (), b) \<Longrightarrow>
    breaker_step d s (s\<lparr>sys_breaker := b, sys_calls := sys_now s # sys_calls s\<rparr>)"
| rejected: "execute_enter (sys_now s) (sys_breaker s) = (Throw err, b) \<Longrightarrow>
    breaker_step d s (s\<lparr>sys_breaker := b\<rparr>)"
| leave: "t \<in> set (sys_calls s) \<Longrightarrow>
    breaker_step d s (s\<lparr>sys_breaker := execute_leave (sys_now s) ok (sys_breaker s),
                        sys_calls := remove1 t (sys_calls s)\<rparr>)"
| observe: "breaker_step d s (s\<lparr>sys_breaker := snd (getStats (sys_now s) (sys_breaker s))\<rparr>)"
| admin_reset: "breaker_step d s (s\<lparr>sys_breaker := breaker_reset (sys_breaker s)\<rparr>)"

inductive_cases breaker_stepE: "breaker_step d s s'"

definition fresh_system :: "ms \<Rightarrow> breaker_sys \<Rightarrow> bool" where
  "fresh_system d s \<longleftrightarrow>
     sys_calls s = [] \<and> d \<le> cb_timeout (sys_breaker s) \<and>
     (\<exists>opts. sys_breaker s = new_breaker opts)"

definition probe_inv :: "ms \<Rightarrow> breaker_sys \<Rightarrow> bool" where
  "probe_inv d s \<longleftrightarrow>
     d \<le> cb_timeout (sys_breaker s) \<and>
     (\<forall>t\<in>set (sys_calls s). t \<le> sys_now s \<and> sys_now s < t + d) \<and>
     (cb_state (sys_breaker s) = OPEN \<longrightarrow>
        (\<exists>f. cb_lastFailureTime (sys_breaker s) = Some f \<and> (\<forall>t\<in>set (sys_calls s). t \<le> f))) \<and>
     (cb_state (sys_breaker s) = HALF_OPEN \<longrightarrow>
        length (sys_calls s) = (if cb_probeInFlight (sys_breaker s) then 1 else 0))"

lemma transition_probe_inv:
  assumes "probe_inv d s"
  shows "probe_inv d (s\<lparr>sys_breaker := transitionIfNeeded (sys_now s) (sys_breaker s)\<rparr>)"
proof (cases "transitionIfNeeded (sys_now s) (sys_breaker s) = sys_breaker s")
  case True
  with assms show ?thesis by simp
next
  case False
  then obtain f where f: "cb_state (sys_breaker s) = OPEN" "cb_lastFailureTime (sys_breaker s) = Some f"
    "sys_now s - f \<ge> cb_timeout (sys_breaker s)"
    by (auto simp: transitionIfNeeded_def split: if_splits option.splits)
  have "sys_calls s = []"
  proof (rule ccontr)
    assume "sys_calls s \<noteq> []"
    then obtain t where "t \<in> set (sys_calls s)" by (cases "sys_calls s") auto
    with assms f have "t \<le> f" "sys_now s < t + d" "d \<le> cb_timeout (sys_breaker s)"
      by (auto simp: probe_inv_def)
    with f(3) show False by linarith
  qed
  with assms f show ?thesis by (simp add: transitionIfNeeded_def toHalfOpen_def probe_inv_def)
qed

lemma enter_probe_inv:
  assumes "probe_inv d s" "0 < d" "execute_enter (sys_now s) (sys_breaker s) = (Ok (), b)"
  shows "probe_inv d (s\<lparr>sys_breaker := b, sys_calls := sys_now s # sys_calls s\<rparr>)"
  using transition_probe_inv [OF assms(1)] assms(2,3)
  by (auto simp: execute_enter_def probe_inv_def Let_def split: if_splits)

lemma leave_probe_inv:
  assumes "probe_inv d s" "t \<in> set (sys_calls s)"
  shows "probe_inv d (s\<lparr>sys_breaker := execute_leave (sys_now s) ok (sys_breaker s),
                        sys_calls := remove1 t (sys_calls s)\<rparr>)"
proof (cases "cb_state (sys_breaker s) = HALF_OPEN")
  case True
  then have "length (sys_calls s) = 1" using assms by (auto simp: probe_inv_def split: if_splits)
  then have "remove1 t (sys_calls s) = []" using assms(2) by (cases "sys_calls s") auto
  with True assms(1) show ?thesis by (auto simp: probe_inv_def breaker_defs)
next
  case False
  then show ?thesis using assms(1)
    by (auto simp: probe_inv_def breaker_defs dest: set_remove1_subset [THEN subsetD])
qed

interpretation probes: invariant_system "fresh_system d" "\<lambda>s s'. 0 < d \<and> breaker_step d s s'" "probe_inv d" for d
proof unfold_locales
  fix s assume "fresh_system d s"
  then show "probe_inv d s" by (auto simp: fresh_system_def probe_inv_def new_breaker_def)
next
  fix s t assume inv: "probe_inv d s" and "0 < d \<and> breaker_step d s t"
  then have "0 < d" and step: "breaker_step d s t" by auto
  from step show "probe_inv d t"
  proof (cases rule: breaker_step.cases)
    case (tick now)
    with inv show ?thesis by (auto simp: probe_inv_def)
  next
    case (rejected err b)
    then have "b = transitionIfNeeded (sys_now s) (sys_breaker s)"
      by (auto simp: execute_enter_def Let_def split: if_splits)
    with rejected inv show ?thesis by (simp add: transition_probe_inv)
  next
    case admin_reset
    with inv show ?thesis by (auto simp: probe_inv_def breaker_reset_def)
  qed (use inv \<open>0 < d\<close> in \<open>auto simp: enter_probe_inv leave_probe_inv transition_probe_inv getStats_def Let_def\<close>)
qed

text \<open>
  C10. One probe at a time: if every guarded call settles within \<open>timeout\<close> ms
  (\<open>d \<le> timeout\<close>), then whatever calls, status reads and resets interleave, a
  half-open breaker never has more than one call in flight.
\<close>

theorem breaker_single_probe:
  assumes "fresh_system d s0" "0 < d" "(breaker_step d)\<^sup>*\<^sup>* s0 s"
    and "cb_state (sys_breaker s) = HALF_OPEN"
  shows "length (sys_calls s) \<le> 1"
proof -
  have "(\<lambda>s s'. 0 < d \<and> breaker_step d s s')\<^sup>*\<^sup>* s0 s" using assms(2,3) by simp
  then have "probe_inv d s" using probes.reachable_inv assms(1) by blast
  with assms(4) show ?thesis by (auto simp: probe_inv_def split: if_splits)
qed

definition start_sys :: breaker_sys where
  "start_sys = \<lparr>sys_now = 0, sys_breaker = new_breaker (two_failures\<lparr>bo_failureThreshold := Some 1\<rparr>), sys_calls = []\<rparr>"

lemma step_enter:
  "fst (execute_enter (sys_now s) (sys_breaker s)) = Ok () \<Longrightarrow>
   breaker_step d s (s\<lparr>sys_breaker := snd (execute_enter (sys_now s) (sys_breaker s)),
                       sys_calls := sys_now s # sys_calls s\<rparr>)"
  by (rule breaker_step.enter) (metis prod.collapse)

definition sys_enter :: "breaker_sys \<Rightarrow> breaker_sys" where
  "sys_enter s = s\<lparr>sys_breaker := snd (execute_enter (sys_now s) (sys_breaker s)),
     sys_calls := sys_now s # sys_calls s\<rparr>"

definition sys_leave :: "ms \<Rightarrow> bool \<Rightarrow> breaker_sys \<Rightarrow> breaker_sys" where
  "sys_leave t ok s = s\<lparr>sys_breaker := execute_leave (sys_now s) ok (sys_breaker s),
     sys_calls := remove1 t (sys_calls s)\<rparr>"

definition sys_tick :: "ms \<Rightarrow> breaker_sys \<Rightarrow> breaker_sys" where
  "sys_tick now s = s\<lparr>sys_now := now\<rparr>"

lemma sys_steps:
  "(breaker_step d)\<^sup>*\<^sup>* s0 s \<Longrightarrow> fst (execute_enter (sys_now s) (sys_breaker s)) = Ok () \<Longrightarrow>
     (breaker_step d)\<^sup>*\<^sup>* s0 (sys_enter s)"
  "(breaker_step d)\<^sup>*\<^sup>* s0 s \<Longrightarrow> t \<in> set (sys_calls s) \<Longrightarrow> (breaker_step d)\<^sup>*\<^sup>* s0 (sys_leave t ok s)"
  "(breaker_step d)\<^sup>*\<^sup>* s0 s \<Longrightarrow> sys_now s \<le> now \<Longrightarrow> \<forall>t\<in>set (sys_calls s). now < t + d \<Longrightarrow>
     (breaker_step d)\<^sup>*\<^sup>* s0 (sys_tick now s)"
  unfolding sys_enter_def sys_leave_def sys_tick_def
  by (blast intro: rtranclp.rtrancl_into_rtrancl step_enter breaker_step.leave breaker_step.tick)+

lemmas sys_defs = sys_enter_def sys_leave_def sys_tick_def start_sys_def two_failures_def
  new_breaker_def or_default_def breaker_defs

theorem breaker_single_probe_witness:
  "let s = sys_enter (sys_tick 11 (sys_leave 0 False (sys_tick 1 (sys_enter start_sys))))
   in cb_state (sys_breaker s) = HALF_OPEN \<and> length (sys_calls s) \<le> 1"
proof -
  let ?s = "sys_enter (sys_tick 11 (sys_leave 0 False (sys_tick 1 (sys_enter start_sys))))"
  have "(breaker_step 10)\<^sup>*\<^sup>* start_sys ?s"
    by (intro sys_steps rtranclp.rtrancl_refl) (simp_all add: sys_defs)
  moreover have "cb_state (sys_breaker ?s) = HALF_OPEN" by (simp add: sys_defs)
  moreover have "cb_timeout (sys_breaker start_sys) = 10" by (simp add: sys_defs)
  then have "fresh_system 10 start_sys" unfolding fresh_system_def by (auto simp: start_sys_def)
  ultimately show ?thesis using breaker_single_probe [of 10 start_sys ?s] by (simp add: Let_def)
qed

text \<open>
  Without the bound on the duration the comment \<open>only one probe at a time\<close> is
  not kept: a call that started before the breaker opened and settles while a
  probe is in flight clears \<open>probeInFlight\<close>, and a second probe is let in.
\<close>

theorem stale_call_admits_second_probe:
  "\<exists>s. (breaker_step 100)\<^sup>*\<^sup>* start_sys s \<and> cb_state (sys_breaker s) = HALF_OPEN \<and>
     sys_calls s = [11, 11]"
proof -
  let ?s = "sys_enter (sys_leave 0 True (sys_enter (sys_tick 11 (sys_leave 0 False (sys_tick 1
      (sys_enter (sys_enter start_sys)))))))"
  have "(breaker_step 100)\<^sup>*\<^sup>* start_sys ?s"
    by (intro sys_steps rtranclp.rtrancl_refl) (simp_all add: sys_defs)
  moreover have "cb_state (sys_breaker ?s) = HALF_OPEN \<and> sys_calls ?s = [11, 11]" by (simp add: sys_defs)
  ultimately show ?thesis by blast
qed

subsection \<open>The registry\<close>

definition config_of :: "circuit_breaker \<Rightarrow> breaker_config" where
  "config_of b = \<lparr>bc_failureThreshold = cb_failureThreshold b, bc_successThreshold = cb_successThreshold b,
     bc_timeout = cb_timeout b\<rparr>"

definition registry_inv :: "breaker_registry \<Rightarrow> bool" where
  "registry_inv r \<longleftrightarrow> map_wf (br_breakers r) \<and>
     (\<forall>n b. map_get (br_breakers r) n = Some b \<longrightarrow> map_get (br_configs r) n = Some (config_of b))"

datatype registry_op = GetOrCreate string breaker_options | GetAll ms | ResetOp string | Clear
  | Use string "ms \<times> breaker_event"

primrec registry_handle :: "registry_op \<Rightarrow> breaker_registry \<Rightarrow> breaker_registry" where
  "registry_handle (GetOrCreate n opts) r = snd (getOrCreate n opts r)"
| "registry_handle (GetAll now) r = snd (getAll now r)"
| "registry_handle (ResetOp n) r = snd (registry_reset n r)"
| "registry_handle Clear r = registry_clear r"
| "registry_handle (Use n ev) r =
     (case map_get (br_breakers r) n of
        None \<Rightarrow> r | Some b \<Rightarrow> r\<lparr>br_breakers := map_set n (breaker_handle ev b) (br_breakers r)\<rparr>)"

lemma config_of_handle [simp]: "config_of (breaker_handle ev b) = config_of b"
proof -
  obtain now e where "ev = (now, e)" by fastforce
  then show ?thesis by (cases e) (auto simp: config_of_def breaker_defs)
qed

lemma config_of_getStats: "config_of (snd (getStats now b)) = config_of b"
  using config_of_handle [of "(now, StatsEv)" b] by simp

lemma config_of_reset: "config_of (breaker_reset b) = config_of b"
  using config_of_handle [of "(now, ResetEv)" b] by simp

lemma registry_inv_set:
  "registry_inv r \<Longrightarrow> map_get (br_breakers r) n = Some b \<Longrightarrow> config_of b' = config_of b \<Longrightarrow>
   registry_inv (r\<lparr>br_breakers := map_set n b' (br_breakers r)\<rparr>)"
  by (auto simp: registry_inv_def)

lemma registry_inv_create: "registry_inv r \<Longrightarrow> registry_inv (snd (getOrCreate n opts r))"
  by (auto simp: registry_inv_def getOrCreate_def Let_def config_of_def new_breaker_def)

definition status_of :: "ms \<Rightarrow> string \<times> circuit_breaker \<Rightarrow> breaker_status" where
  "status_of now = (\<lambda>(n, b). \<lparr>bs_name = n, bs_stats = fst (getStats now b), bs_config = config_of b\<rparr>)"

lemma getAll_loop_ok:
  assumes "registry_inv r" "distinct (map fst es)" "\<forall>(n, b)\<in>set es. map_get (br_breakers r) n = Some b"
  shows "\<exists>r'. getAll_loop now es r = (Ok (map (status_of now) es), r') \<and> registry_inv r'"
  using assms
proof (induction es arbitrary: r)
  case Nil
  then show ?case by simp
next
  case (Cons e es)
  obtain n b where e: "e = (n, b)" by fastforce
  obtain st b' where get: "getStats now b = (st, b')" by fastforce
  let ?r = "r\<lparr>br_breakers := map_set n b' (br_breakers r)\<rparr>"
  have n: "map_get (br_breakers r) n = Some b" using Cons.prems(3) e by auto
  have "registry_inv ?r"
    by (rule registry_inv_set [OF Cons.prems(1) n]) (use config_of_getStats [of now b] get in simp)
  moreover have "\<forall>(n', b'')\<in>set es. map_get (br_breakers ?r) n' = Some b''"
  proof (clarify)
    fix n' b'' assume "(n', b'') \<in> set es"
    then show "map_get (br_breakers ?r) n' = Some b''"
      using Cons.prems(2,3) e by (auto simp: image_iff)
  qed
  ultimately obtain r' where "getAll_loop now es ?r = (Ok (map (status_of now) es), r')" "registry_inv r'"
    using Cons.IH [of ?r] Cons.prems(2) by auto
  then show ?case using e get n Cons.prems(1)
    by (simp add: registry_inv_def status_of_def)
qed

lemma getAll_ok:
  assumes "registry_inv r"
  shows "\<exists>r'. getAll now r = (Ok (map (status_of now) (br_breakers r)), r') \<and> registry_inv r'"
  unfolding getAll_def using assms
  by (intro getAll_loop_ok) (auto simp: registry_inv_def map_wf_def in_set_map_get [unfolded map_wf_def])

interpretation registry: handler_system registry_handle registry_inv
proof unfold_locales
  fix s e assume inv: "registry_inv s"
  show "registry_inv (registry_handle e s)"
  proof (cases e)
    case (GetAll now)
    with getAll_ok [OF inv, of now] show ?thesis by auto
  next
    case Clear
    then show ?thesis by (simp add: registry_inv_def registry_clear_def)
  qed (use inv in \<open>auto simp: registry_inv_create registry_reset_def config_of_reset
        intro: registry_inv_set split: option.split\<close>)
qed

text \<open>
  C11. The registry's status report never fails and is complete: after any
  sequence of creations, uses, resets, reports and clears it lists every
  breaker once, in creation order, with the statistics of that breaker and the
  thresholds that breaker really runs with.
\<close>

theorem registry_status_complete:
  "let r = fold registry_handle ops new_registry
   in fst (getAll now r) =
        Ok (map (\<lambda>(n, b). \<lparr>bs_name = n, bs_stats = fst (getStats now b),
              bs_config = \<lparr>bc_failureThreshold = cb_failureThreshold b,
                bc_successThreshold = cb_successThreshold b, bc_timeout = cb_timeout b\<rparr>\<rparr>)
             (br_breakers r)) \<and>
      distinct (map_keys (br_breakers r))"
proof -
  let ?r = "fold registry_handle ops new_registry"
  have inv: "registry_inv ?r"
    by (rule registry.run_inv) (simp add: registry_inv_def new_registry_def)
  then have "distinct (map_keys (br_breakers ?r))" by (simp add: registry_inv_def jm.wf_distinct)
  with getAll_ok [OF inv, of now] show ?thesis
    by (auto simp: Let_def status_of_def config_of_def)
qed

end
