(* ===== verification/SoftDelete.thy ===== *)
theory SoftDelete
  imports JsMap
begin

text \<open>
  The soft-delete helpers of \<open>src/utils/softDelete.ts\<close> and, as a locale, the
  contract that every store with soft deletion keeps: default reads hide deleted
  records, a deleted record can be restored inside its retention window and only
  there, and a purge removes exactly the expired ones.  The disputes, milestones
  and contracts stores interpret the locale.  Dates are epoch milliseconds; a
  \<open>Date\<close> is always valid here, so the \<open>NaN\<close> guard of \<open>isWithinRetentionWindow\<close>
  has no case.
\<close>

definition DEFAULT_SOFT_DELETE_RETENTION_DAYS :: int where
  "DEFAULT_SOFT_DELETE_RETENTION_DAYS = 30"

definition parseRetentionDays :: "string option \<Rightarrow> int \<Rightarrow> int" where
  "parseRetentionDays envValue defaultDays =
     (case envValue of
        None \<Rightarrow> defaultDays
      | Some s \<Rightarrow>
          if js_trim s = [] then defaultDays
          else (case js_parseInt s of
                  None \<Rightarrow> defaultDays
                | Some parsed \<Rightarrow> if parsed \<le> 0 then defaultDays else parsed))"

definition isSoftDeleted :: "ms option \<Rightarrow> bool" where
  "isSoftDeleted deletedAt \<longleftrightarrow> deletedAt \<noteq> None"

definition isWithinRetentionWindow :: "ms \<Rightarrow> int \<Rightarrow> ms \<Rightarrow> bool" where
  "isWithinRetentionWindow deletedAt retentionDays now =
     (let expiryMs = deletedAt + retentionDays * 24 * 60 * 60 * 1000 in now \<le> expiryMs)"

definition isPastRetentionWindow :: "ms \<Rightarrow> int \<Rightarrow> ms \<Rightarrow> bool" where
  "isPastRetentionWindow deletedAt retentionDays now \<longleftrightarrow>
     \<not> isWithinRetentionWindow deletedAt retentionDays now"

definition filterNotDeleted :: "('r \<Rightarrow> ms option) \<Rightarrow> 'r list \<Rightarrow> 'r list" where
  "filterNotDeleted deletedAt items = filter (\<lambda>i. \<not> isSoftDeleted (deletedAt i)) items"

lemmas retention_defs = isSoftDeleted_def isWithinRetentionWindow_def isPastRetentionWindow_def Let_def

lemma parseRetentionDays_pos: "0 < d \<Longrightarrow> 0 < parseRetentionDays env d"
  by (auto simp: parseRetentionDays_def split: option.splits)

subsection \<open>The contract of a store\<close>

abbreviation day_ms :: int where
  "day_ms \<equiv> 24 * 60 * 60 * 1000"

text \<open>A purge can be blocked as a whole (by a foreign key); it then changes nothing.\<close>

locale soft_delete_store =
  fixes raw :: "'s \<Rightarrow> 'k \<Rightarrow> 'r option"
    and stamp :: "'r \<Rightarrow> ms option"
    and content :: "'r \<Rightarrow> 'c"
    and ok :: "'s \<Rightarrow> bool"
    and fetch :: "'k \<Rightarrow> 's \<Rightarrow> 'r option"
    and remove :: "'k \<Rightarrow> ms \<Rightarrow> 's \<Rightarrow> bool \<times> 's"
    and restore :: "int \<Rightarrow> 'k \<Rightarrow> ms \<Rightarrow> 's \<Rightarrow> bool \<times> 's"
    and purge :: "int \<Rightarrow> ms \<Rightarrow> 's \<Rightarrow> 's"
    and expired :: "int \<Rightarrow> ms \<Rightarrow> ms \<Rightarrow> bool"
    and blocked :: "int \<Rightarrow> ms \<Rightarrow> 's \<Rightarrow> bool"
  assumes fetch_raw: "ok s \<Longrightarrow> fetch k s = (case raw s k of None \<Rightarrow> None
        | Some r \<Rightarrow> if stamp r = None then Some r else None)"
    and remove_ok: "\<lbrakk>ok s; raw s k = Some r; stamp r = None\<rbrakk> \<Longrightarrow>
      \<exists>s' r'. remove k t s = (True, s') \<and> ok s' \<and> raw s' k = Some r' \<and> stamp r' = Some t \<and>
        content r' = content r \<and> (\<forall>k'. k' \<noteq> k \<longrightarrow> raw s' k' = raw s k')"
    and remove_fail: "\<lbrakk>ok s; \<forall>r. raw s k = Some r \<longrightarrow> stamp r \<noteq> None\<rbrakk> \<Longrightarrow> remove k t s = (False, s)"
    and restore_ok: "\<lbrakk>ok s; raw s k = Some r; stamp r = Some d; t \<le> d + n * day_ms\<rbrakk> \<Longrightarrow>
      \<exists>s' r'. restore n k t s = (True, s') \<and> ok s' \<and> raw s' k = Some r' \<and> stamp r' = None \<and>
        content r' = content r \<and> (\<forall>k'. k' \<noteq> k \<longrightarrow> raw s' k' = raw s k')"
    and restore_fail: "\<lbrakk>ok s; \<forall>r d. raw s k = Some r \<and> stamp r = Some d \<longrightarrow> d + n * day_ms < t\<rbrakk> \<Longrightarrow>
      restore n k t s = (False, s)"
    and purge_ok: "ok s \<Longrightarrow> ok (purge n t s)"
    and purge_raw: "\<lbrakk>ok s; \<not> blocked n t s\<rbrakk> \<Longrightarrow> raw (purge n t s) k = (case raw s k of None \<Rightarrow> None
        | Some r \<Rightarrow> (case stamp r of None \<Rightarrow> Some r | Some d \<Rightarrow> if expired n d t then None else Some r))"
    and purge_blocked: "\<lbrakk>ok s; blocked n t s\<rbrakk> \<Longrightarrow> purge n t s = s"
    and expired_late: "expired n d t \<Longrightarrow> d + n * day_ms \<le> t"
    and expired_past: "d + n * day_ms < t \<Longrightarrow> expired n d t"
begin

lemma fetch_removed:
  assumes "ok s" "fetch k s = Some r"
  shows "\<exists>s'. remove k t s = (True, s') \<and> ok s' \<and> fetch k s' = None \<and>
    (\<forall>k'. k' \<noteq> k \<longrightarrow> fetch k' s' = fetch k' s)"
proof -
  have "raw s k = Some r" "stamp r = None"
    using assms by (auto simp: fetch_raw split: option.splits if_splits)
  then obtain s' r' where "remove k t s = (True, s')" "ok s'" "raw s' k = Some r'" "stamp r' = Some t"
    "\<forall>k'. k' \<noteq> k \<longrightarrow> raw s' k' = raw s k'"
    using remove_ok [OF assms(1)] by blast
  then show ?thesis using assms(1) by (simp add: fetch_raw)
qed

text \<open>
  A record that is deleted, survives any number of purges and is restored, all
  within its retention window, comes back with its content.
\<close>

lemma purges_keep:
  assumes "ok s" "raw s k = Some r" "stamp r = Some d" "\<forall>t\<in>set ts. t < d + n * day_ms"
  shows "ok (fold (purge n) ts s) \<and> raw (fold (purge n) ts s) k = Some r"
  using assms
proof (induction ts arbitrary: s)
  case Nil
  then show ?case by simp
next
  case (Cons t ts)
  then have "\<not> expired n d t" using expired_late [of n d t] by auto
  with Cons.prems have "ok (purge n t s)" "raw (purge n t s) k = Some r"
    by (cases "blocked n t s"; simp add: purge_ok purge_raw purge_blocked)+
  with Cons show ?case by simp
qed

lemma delete_restore:
  assumes "ok s" "fetch k s = Some r" "\<forall>t\<in>set ts. t < d + n * day_ms" "t \<le> d + n * day_ms"
    and "s1 = snd (remove k d s)" "s2 = fold (purge n) ts s1"
  shows "\<exists>s3 r'. restore n k t s2 = (True, s3) \<and> fetch k s3 = Some r' \<and> content r' = content r"
proof -
  have "raw s k = Some r" "stamp r = None"
    using assms(1,2) by (auto simp: fetch_raw split: option.splits if_splits)
  then obtain r1 where r1: "ok s1" "raw s1 k = Some r1" "stamp r1 = Some d" "content r1 = content r"
    using remove_ok [OF assms(1), of k r d] assms(5) by auto
  then have "ok s2" "raw s2 k = Some r1" using purges_keep assms(3,6) by blast+
  then obtain s3 r' where "restore n k t s2 = (True, s3)" "ok s3" "raw s3 k = Some r'" "stamp r' = None"
    "content r' = content r1"
    using restore_ok r1(3) assms(4) by blast
  with r1(4) show ?thesis by (auto simp: fetch_raw)
qed

text \<open>Past the window the record is gone after a purge, and cannot be restored before it.\<close>

lemma past_window_lost:
  assumes "ok s" "raw s k = Some r" "stamp r = Some d" "d + n * day_ms < t"
  shows "restore n k t s = (False, s)" "\<not> blocked n t s \<Longrightarrow> raw (purge n t s) k = None"
  using restore_fail [OF assms(1), of k n t] assms expired_past [of d n t] purge_raw [OF assms(1), of n t k]
  by auto

lemma purge_spares_active:
  "ok s \<Longrightarrow> fetch k (purge n t s) = fetch k s"
  by (cases "blocked n t s") (auto simp: fetch_raw purge_raw purge_ok purge_blocked split: option.splits)

end

text \<open>Stores whose purge and restore agree to the millisecond.\<close>

locale exact_soft_delete_store = soft_delete_store +
  assumes expired_exact: "expired n d t \<longleftrightarrow> d + n * day_ms < t"
    and never_blocked: "\<not> blocked n t s"
begin

lemma restorable_iff_kept:
  assumes "ok s" "raw s k = Some r" "stamp r = Some d"
  shows "fst (restore n k t s) \<longleftrightarrow> raw (purge n t s) k \<noteq> None"
proof (cases "d + n * day_ms < t")
  case True
  with past_window_lost [OF assms] never_blocked show ?thesis by simp
next
  case False
  then have "\<exists>s'. restore n k t s = (True, s')" using restore_ok [OF assms, of t n] by auto
  with False assms show ?thesis by (auto simp: purge_raw never_blocked expired_exact)
qed

lemma purges_keep_exact:
  assumes "ok s" "raw s k = Some r" "stamp r = Some d" "\<forall>t\<in>set ts. t \<le> d + n * day_ms"
  shows "ok (fold (purge n) ts s) \<and> raw (fold (purge n) ts s) k = Some r"
  using assms
proof (induction ts arbitrary: s)
  case Nil
  then show ?case by simp
next
  case (Cons t ts)
  then have "ok (purge n t s)" "raw (purge n t s) k = Some r"
    by (simp_all add: purge_ok purge_raw never_blocked expired_exact not_less)
  with Cons show ?case by simp
qed

lemma purges_spare_active:
  "ok s \<Longrightarrow> fetch k (fold (purge n) ts s) = fetch k s"
  by (induction ts arbitrary: s) (simp_all add: purge_spares_active purge_ok)

end

end
