(* ===== verification/EscrowHooks.thy ===== *)
theory EscrowHooks
  imports Prelude
begin

text \<open>
  The notification fan-out of \<open>src/hooks/escrow.hooks.ts\<close>.  The two channel
  promises are awaited together by \<open>Promise.allSettled\<close>; their settled outcomes
  are the arguments of the model.  Log lines are left out.
\<close>

datatype key_escrow_event =
    ESCROW_INITIALIZED | FUNDS_DEPOSITED | MILESTONE_APPROVED | DISPUTE_RAISED | ESCROW_RESOLVED
  | ESCROW_CANCELLED

datatype channel = Email | Web

record channel_result =
  ch_channel :: channel
  ch_success :: bool
  ch_message :: "string option"

record dispatch_result =
  dr_allSucceeded :: bool
  dr_anySucceeded :: bool
  dr_channels :: "channel_result list"

text \<open>A settled promise: rejected with an error message, or fulfilled with \<open>success\<close> and \<open>message\<close>.\<close>

datatype settled = Rejected string | Fulfilled bool "string option"

definition resolveChannelResult :: "channel \<Rightarrow> settled \<Rightarrow> channel_result" where
  "resolveChannelResult channel outcome =
     (case outcome of
        Fulfilled success message \<Rightarrow>
          if success then \<lparr>ch_channel = channel, ch_success = True, ch_message = None\<rparr>
          else \<lparr>ch_channel = channel, ch_success = False, ch_message = message\<rparr>
      | Rejected reason \<Rightarrow> \<lparr>ch_channel = channel, ch_success = False, ch_message = Some reason\<rparr>)"

definition onEscrowEvent :: "settled \<Rightarrow> settled \<Rightarrow> dispatch_result" where
  "onEscrowEvent emailOutcome webOutcome =
     (let channels = [resolveChannelResult Email emailOutcome, resolveChannelResult Web webOutcome]
      in \<lparr>dr_allSucceeded = list_all ch_success channels,
          dr_anySucceeded = list_ex ch_success channels, dr_channels = channels\<rparr>)"

definition transition_event :: "string \<Rightarrow> string \<Rightarrow> key_escrow_event option" where
  "transition_event oldStatus newStatus =
     (if oldStatus = [] \<or> newStatus = [] \<or> oldStatus = newStatus then None
      else if oldStatus = ''draft'' \<and> newStatus = ''active'' then Some FUNDS_DEPOSITED
      else if oldStatus = ''active'' \<and> newStatus = ''completed'' then Some ESCROW_RESOLVED
      else if oldStatus = ''active'' \<and> newStatus = ''disputed'' then Some DISPUTE_RAISED
      else None)"

definition onStateTransition ::
  "(key_escrow_event \<Rightarrow> settled) \<Rightarrow> (key_escrow_event \<Rightarrow> settled) \<Rightarrow> string \<Rightarrow> string \<Rightarrow> dispatch_result option" where
  "onStateTransition email web oldStatus newStatus =
     map_option (\<lambda>event. onEscrowEvent (email event) (web event)) (transition_event oldStatus newStatus)"

text \<open>Each channel is reported on its own: one failing channel does not hide the other.\<close>

lemma onEscrowEvent_channels:
  "map ch_channel (dr_channels (onEscrowEvent e w)) = [Email, Web]"
  "map ch_success (dr_channels (onEscrowEvent e w)) =
     [case e of Fulfilled b _ \<Rightarrow> b | Rejected _ \<Rightarrow> False, case w of Fulfilled b _ \<Rightarrow> b | Rejected _ \<Rightarrow> False]"
  by (auto simp: onEscrowEvent_def resolveChannelResult_def split: settled.splits)

end
