(* ===== verification/Disputes.thy ===== *)
theory Disputes
  imports SoftDelete EscrowHooks
begin

text \<open>
  The disputes service, \<open>src/services/disputes.service.ts\<close>: an in-memory store
  with a status machine, soft deletion and batch updates.  \<open>updateDispute\<close> writes
  the store before its first \<open>await\<close>, so the write is one atomic step; what the
  escrow hook answers afterwards is part of the result and does not touch the
  store.  Identifiers, times and the retention window (\<open>getRetentionDays\<close>, which
  reads the environment through \<open>parseRetentionDays\<close>) are arguments.
\<close>

subsection \<open>Data\<close>

datatype dispute_status = Open | UnderReview | Resolved | Escalated

primrec dispute_status_string :: "dispute_status \<Rightarrow> string" where
  "dispute_status_string Open = ''open''"
| "dispute_status_string UnderReview = ''under_review''"
| "dispute_status_string Resolved = ''resolved''"
| "dispute_status_string Escalated = ''escalated''"

record dispute_record =
  d_id :: string
  d_contractId :: string
  d_status :: dispute_status
  d_resolution :: "string option"
  d_reason :: "string option"
  d_raisedBy :: "string option"
  d_createdAt :: ms
  d_updatedAt :: ms
  d_deletedAt :: "ms option"

type_synonym dispute_store = "(string, dispute_record) jsmap"

primrec VALID_TRANSITIONS :: "dispute_status \<Rightarrow> dispute_status list" where
  "VALID_TRANSITIONS Open = [UnderReview, Resolved, Escalated]"
| "VALID_TRANSITIONS UnderReview = [Resolved, Escalated]"
| "VALID_TRANSITIONS Resolved = []"
| "VALID_TRANSITIONS Escalated = [Resolved]"

datatype dispute_error =
    Dispute_Not_Found string
  | Dispute_Already_Deleted string
  | Dispute_Not_Deleted string
  | Dispute_Retention_Expired string int
  | Invalid_State_Transition dispute_status dispute_status

text \<open>
  The \<open>code\<close> a batch reports: that of a \<open>DisputeError\<close>; any other error is wrapped
  as \<open>internal_error\<close>.
\<close>

primrec dispute_error_code :: "dispute_error \<Rightarrow> string" where
  "dispute_error_code (Dispute_Not_Found i) = ''dispute_not_found''"
| "dispute_error_code (Dispute_Already_Deleted i) = ''dispute_already_deleted''"
| "dispute_error_code (Dispute_Not_Deleted i) = ''dispute_not_deleted''"
| "dispute_error_code (Dispute_Retention_Expired i n) = ''internal_error''"
| "dispute_error_code (Invalid_State_Transition f t) = ''invalid_state_transition''"

primrec dispute_error_message :: "dispute_error \<Rightarrow> string" where
  "dispute_error_message (Dispute_Not_Found i) = ''Dispute '' @ i @ '' not found''"
| "dispute_error_message (Dispute_Already_Deleted i) = ''Dispute '' @ i @ '' is already soft-deleted''"
| "dispute_error_message (Dispute_Not_Deleted i) = ''Dispute '' @ i @ '' is not soft-deleted''"
| "dispute_error_message (Dispute_Retention_Expired i n) =
     ''Dispute '' @ i @ '' retention window of '' @ show_int n @ '' days has expired''"
| "dispute_error_message (Invalid_State_Transition f t) =
     ''Invalid state transition from '' @ dispute_status_string f @ '' to '' @ dispute_status_string t"

record create_dispute_input =
  ci_contractId :: string
  ci_reason :: "string option"
  ci_raisedBy :: "string option"
  ci_status :: "dispute_status option"

record update_dispute_payload =
  up_status :: "dispute_status option"
  up_resolution :: "string option"

record batch_result =
  bt_index :: nat
  bt_success :: bool
  bt_dispute :: "dispute_record option"
  bt_error :: "(string \<times> string) option"

subsection \<open>Operations\<close>

definition getDisputeById :: "string \<Rightarrow> bool \<Rightarrow> dispute_store \<Rightarrow> (dispute_error, dispute_record) result" where
  "getDisputeById i includeDeleted st =
     (case map_get st i of
        None \<Rightarrow> Throw (Dispute_Not_Found i)
      | Some d \<Rightarrow>
          if \<not> includeDeleted \<and> isSoftDeleted (d_deletedAt d) then Throw (Dispute_Not_Found i) else Ok d)"

definition listDisputes :: "bool \<Rightarrow> dispute_store \<Rightarrow> dispute_record list" where
  "listDisputes includeDeleted st =
     (let all = map_values st;
          filtered = (if includeDeleted then all else filterNotDeleted d_deletedAt all)
      in sort_key (\<lambda>d. - d_createdAt d) filtered)"

definition createDispute ::
  "string \<Rightarrow> ms \<Rightarrow> create_dispute_input \<Rightarrow> dispute_store \<Rightarrow> dispute_record \<times> dispute_store" where
  "createDispute uuid now input st =
     (let d = \<lparr>d_id = uuid, d_contractId = ci_contractId input,
               d_status = (case ci_status input of None \<Rightarrow> Open | Some s \<Rightarrow> s),
               d_resolution = None, d_reason = ci_reason input, d_raisedBy = ci_raisedBy input,
               d_createdAt = now, d_updatedAt = now, d_deletedAt = None\<rparr>
      in (d, map_set (d_id d) d st))"

definition softDeleteDispute ::
  "string \<Rightarrow> ms \<Rightarrow> dispute_store \<Rightarrow> (dispute_error, dispute_record) result \<times> dispute_store" where
  "softDeleteDispute i now st =
     (case map_get st i of
        None \<Rightarrow> (Throw (Dispute_Not_Found i), st)
      | Some d \<Rightarrow>
          if isSoftDeleted (d_deletedAt d) then (Throw (Dispute_Already_Deleted i), st)
          else let updated = d\<lparr>d_deletedAt := Some now, d_updatedAt := now\<rparr>
               in (Ok updated, map_set i updated st))"

definition restoreDispute ::
  "int \<Rightarrow> string \<Rightarrow> ms \<Rightarrow> dispute_store \<Rightarrow> (dispute_error, dispute_record) result \<times> dispute_store" where
  "restoreDispute retentionDays i now st =
     (case map_get st i of
        None \<Rightarrow> (Throw (Dispute_Not_Found i), st)
      | Some d \<Rightarrow>
          (case d_deletedAt d of
             None \<Rightarrow> (Throw (Dispute_Not_Deleted i), st)
           | Some deletedAt \<Rightarrow>
               if \<not> isWithinRetentionWindow deletedAt retentionDays now
               then (Throw (Dispute_Retention_Expired i retentionDays), st)
               else let updated = d\<lparr>d_deletedAt := None, d_updatedAt := now\<rparr>
                    in (Ok updated, map_set i updated st)))"

definition purgeExpiredDisputes :: "int \<Rightarrow> ms \<Rightarrow> dispute_store \<Rightarrow> nat \<times> dispute_store" where
  "purgeExpiredDisputes retentionDays now st =
     (let (st', purged) = map_reap (\<lambda>i d. case d_deletedAt d of
            None \<Rightarrow> False | Some deletedAt \<Rightarrow> isPastRetentionWindow deletedAt retentionDays now) st
      in (purged, st'))"

definition validateTransition :: "dispute_status \<Rightarrow> dispute_status \<Rightarrow> (dispute_error, unit) result" where
  "validateTransition fromStatus toStatus =
     (if fromStatus = toStatus then Ok ()
      else if toStatus \<notin> set (VALID_TRANSITIONS fromStatus)
      then Throw (Invalid_State_Transition fromStatus toStatus)
      else Ok ())"

definition updateDispute ::
  "(key_escrow_event \<Rightarrow> settled) \<Rightarrow> (key_escrow_event \<Rightarrow> settled) \<Rightarrow> string \<Rightarrow> update_dispute_payload \<Rightarrow> ms \<Rightarrow> dispute_store
     \<Rightarrow> (dispute_error, dispute_record \<times> dispatch_result option) result \<times> dispute_store" where
  "updateDispute email web i updates now st =
     (case getDisputeById i False st of
        Throw err \<Rightarrow> (Throw err, st)
      | Ok d \<Rightarrow>
          (case (case up_status updates of None \<Rightarrow> Ok () | Some s \<Rightarrow> validateTransition (d_status d) s) of
             Throw err \<Rightarrow> (Throw err, st)
           | Ok _ \<Rightarrow>
               (let newStatus = (case up_status updates of None \<Rightarrow> d_status d | Some s \<Rightarrow> s);
                    updated = d\<lparr>d_status := newStatus,
                      d_resolution := (case up_resolution updates of None \<Rightarrow> d_resolution d | Some r \<Rightarrow> Some r),
                      d_updatedAt := now\<rparr>;
                    dispatch = (if d_status d \<noteq> newStatus
                      then onStateTransition email web (dispute_status_string (d_status d))
                             (dispute_status_string newStatus)
                      else None)
                in (Ok (updated, dispatch), map_set i updated st))))"

text \<open>Each item of a batch carries the time at which its turn comes.\<close>

type_synonym batch_operation = "string \<times> update_dispute_payload \<times> ms"

fun batch_loop ::
  "(key_escrow_event \<Rightarrow> settled) \<Rightarrow> (key_escrow_event \<Rightarrow> settled) \<Rightarrow> nat \<Rightarrow> batch_operation list \<Rightarrow> dispute_store
     \<Rightarrow> batch_result list \<times> dispute_store" where
  "batch_loop email web index [] st = ([], st)"
| "batch_loop email web index ((i, payload, now) # ops) st =
     (case updateDispute email web i payload now st of
        (Ok (d, _), st') \<Rightarrow>
          (let (results, st'') = batch_loop email web (index + 1) ops st'
           in (\<lparr>bt_index = index, bt_success = True, bt_dispute = Some d, bt_error = None\<rparr> # results, st''))
      | (Throw err, st') \<Rightarrow>
          (let (results, st'') = batch_loop email web (index + 1) ops st'
           in (\<lparr>bt_index = index, bt_success = False, bt_dispute = None,
                bt_error = Some (dispute_error_code err, dispute_error_message err)\<rparr> # results, st'')))"

definition processBatch where
  "processBatch email web operations st = batch_loop email web 0 operations st"

definition seedDemoDisputes :: "ms \<Rightarrow> dispute_store \<Rightarrow> dispute_store" where
  "seedDemoDisputes now st =
     map_set ''dispute-002''
       \<lparr>d_id = ''dispute-002'', d_contractId = ''contract-002'', d_status = UnderReview, d_resolution = None,
        d_reason = None, d_raisedBy = None, d_createdAt = now - 172800000, d_updatedAt = now - 3600000,
        d_deletedAt = None\<rparr>
       (map_set ''dispute-001''
         \<lparr>d_id = ''dispute-001'', d_contractId = ''contract-001'', d_status = Open, d_resolution = None,
          d_reason = None, d_raisedBy = None, d_createdAt = now - 86400000, d_updatedAt = now - 86400000,
          d_deletedAt = None\<rparr> st)"

subsection \<open>Soft deletion\<close>

definition dispute_content :: "dispute_record \<Rightarrow> dispute_record" where
  "dispute_content d = d\<lparr>d_deletedAt := None, d_updatedAt := 0\<rparr>"

definition dispute_fetch :: "string \<Rightarrow> dispute_store \<Rightarrow> dispute_record option" where
  "dispute_fetch i st = (case getDisputeById i False st of Throw _ \<Rightarrow> None | Ok d \<Rightarrow> Some d)"

abbreviation succeeds :: "('e, 'a) result \<times> 's \<Rightarrow> bool \<times> 's" where
  "succeeds r \<equiv> (\<not> isl (fst r), snd r)"

lemma purge_disputes_get:
  "map_wf st \<Longrightarrow> map_get (snd (purgeExpiredDisputes n now st)) i =
     (case map_get st i of None \<Rightarrow> None
      | Some d \<Rightarrow> (case d_deletedAt d of None \<Rightarrow> Some d
                  | Some t \<Rightarrow> if isPastRetentionWindow t n now then None else Some d))"
  by (auto simp: purgeExpiredDisputes_def map_get_reap case_prod_unfold Let_def split: option.split)

lemma dispute_fetch_eq:
  "dispute_fetch i st = dispute_fetch i st' \<longleftrightarrow> getDisputeById i False st = getDisputeById i False st'"
  by (auto simp: dispute_fetch_def getDisputeById_def split: option.splits)

lemma purge_disputes_wf: "map_wf st \<Longrightarrow> map_wf (snd (purgeExpiredDisputes n now st))"
  by (auto simp: purgeExpiredDisputes_def case_prod_unfold Let_def)

lemmas dispute_defs = getDisputeById_def softDeleteDispute_def restoreDispute_def retention_defs

interpretation disputes: exact_soft_delete_store
  map_get d_deletedAt dispute_content map_wf dispute_fetch
  "\<lambda>i now st. succeeds (softDeleteDispute i now st)"
  "\<lambda>n i now st. succeeds (restoreDispute n i now st)"
  "\<lambda>n now st. snd (purgeExpiredDisputes n now st)"
  "\<lambda>n d now. isPastRetentionWindow d n now" "\<lambda>_ _ _. False"
proof unfold_locales
  fix k s
  show "dispute_fetch k s = (case map_get s k of None \<Rightarrow> None
      | Some r \<Rightarrow> if d_deletedAt r = None then Some r else None)"
    by (auto simp: dispute_fetch_def dispute_defs split: option.splits)
next
  fix s :: dispute_store and k r t
  assume "map_wf s" "map_get s k = Some r" "d_deletedAt r = None"
  then show "\<exists>s' r'. succeeds (softDeleteDispute k t s) = (True, s') \<and> map_wf s' \<and> map_get s' k = Some r' \<and>
      d_deletedAt r' = Some t \<and> dispute_content r' = dispute_content r \<and>
      (\<forall>k'. k' \<noteq> k \<longrightarrow> map_get s' k' = map_get s k')"
    by (auto simp: dispute_defs dispute_content_def)
next
  fix s :: dispute_store and k t
  assume "\<forall>r. map_get s k = Some r \<longrightarrow> d_deletedAt r \<noteq> None"
  then show "succeeds (softDeleteDispute k t s) = (False, s)"
    by (auto simp: dispute_defs split: option.splits)
next
  fix s :: dispute_store and k r d t n
  assume "map_wf s" "map_get s k = Some r" "d_deletedAt r = Some d" "t \<le> d + n * day_ms"
  then show "\<exists>s' r'. succeeds (restoreDispute n k t s) = (True, s') \<and> map_wf s' \<and> map_get s' k = Some r' \<and>
      d_deletedAt r' = None \<and> dispute_content r' = dispute_content r \<and>
      (\<forall>k'. k' \<noteq> k \<longrightarrow> map_get s' k' = map_get s k')"
    by (auto simp: dispute_defs dispute_content_def)
next
  fix s :: dispute_store and k n t
  assume "\<forall>r d. map_get s k = Some r \<and> d_deletedAt r = Some d \<longrightarrow> d + n * day_ms < t"
  then show "succeeds (restoreDispute n k t s) = (False, s)"
    by (fastforce simp: dispute_defs split: option.splits)
qed (auto simp: purge_disputes_wf purge_disputes_get retention_defs)

text \<open>
  C12. Deleting a dispute is reversible for exactly the retention window.  While
  it lasts, the dispute is hidden from reads, no purge removes it, and a restore
  succeeds: it answers with the dispute as it was but for the update time, which
  is the time of the restore, the record is active again, so that the next read
  finds it, and no other dispute that can be read has changed; once the window is
  over, a restore is refused and the next purge removes the record.
\<close>

theorem dispute_delete_restore:
  assumes "map_wf st" "getDisputeById i False st = Ok d"
    and "\<forall>p\<in>set purges. p \<le> t + days * 86400000"
  shows "let st1 = snd (softDeleteDispute i t st);
             st2 = fold (\<lambda>p s. snd (purgeExpiredDisputes days p s)) purges st1
         in getDisputeById i False st1 = Throw (Dispute_Not_Found i) \<and>
            getDisputeById i False st2 = Throw (Dispute_Not_Found i) \<and>
            (\<forall>now. now \<le> t + days * 86400000 \<longrightarrow>
               (\<exists>st3. restoreDispute days i now st2 = (Ok (d\<lparr>d_updatedAt := now\<rparr>), st3) \<and>
                  map_get st3 i = Some (d\<lparr>d_updatedAt := now\<rparr>) \<and>
                  getDisputeById i False st3 = Ok (d\<lparr>d_updatedAt := now\<rparr>) \<and>
                  (\<forall>j. j \<noteq> i \<longrightarrow> getDisputeById j False st3 = getDisputeById j False st))) \<and>
            (\<forall>now. t + days * 86400000 < now \<longrightarrow>
               restoreDispute days i now st2 = (Throw (Dispute_Retention_Expired i days), st2) \<and>
               map_get (snd (purgeExpiredDisputes days now st2)) i = None)"
proof -
  let ?st1 = "snd (softDeleteDispute i t st)"
  let ?st2 = "fold (\<lambda>p s. snd (purgeExpiredDisputes days p s)) purges ?st1"
  have get: "map_get st i = Some d" "d_deletedAt d = None"
    using assms(2) by (auto simp: dispute_defs split: option.splits if_splits)
  let ?d1 = "d\<lparr>d_deletedAt := Some t, d_updatedAt := t\<rparr>"
  have st1: "map_wf ?st1" "map_get ?st1 i = Some ?d1"
    using get assms(1) by (simp_all add: dispute_defs)
  have "map_wf ?st2 \<and> map_get ?st2 i = Some ?d1"
    using disputes.purges_keep_exact [OF st1, of t purges days] assms(3) by simp
  then have st2: "map_wf ?st2" "map_get ?st2 i = Some ?d1" by auto
  have others: "getDisputeById j False ?st2 = getDisputeById j False st" if "j \<noteq> i" for j
  proof -
    have "dispute_fetch j ?st2 = dispute_fetch j ?st1" by (rule disputes.purges_spare_active [OF st1(1)])
    also have "\<dots> = dispute_fetch j st" using get that by (simp add: dispute_fetch_def dispute_defs)
    finally show ?thesis by (simp add: dispute_fetch_eq)
  qed
  have kept: "d\<lparr>d_deletedAt := None, d_updatedAt := now\<rparr> = d\<lparr>d_updatedAt := now\<rparr>" for now
    using get(2) by simp
  show ?thesis unfolding Let_def
  proof (intro conjI allI impI)
    show "getDisputeById i False ?st1 = Throw (Dispute_Not_Found i)"
      and "getDisputeById i False ?st2 = Throw (Dispute_Not_Found i)"
      using st1 st2 by (simp_all add: dispute_defs)
    fix now
    show "\<exists>st3. restoreDispute days i now ?st2 = (Ok (d\<lparr>d_updatedAt := now\<rparr>), st3) \<and>
        map_get st3 i = Some (d\<lparr>d_updatedAt := now\<rparr>) \<and>
        getDisputeById i False st3 = Ok (d\<lparr>d_updatedAt := now\<rparr>) \<and>
        (\<forall>j. j \<noteq> i \<longrightarrow> getDisputeById j False st3 = getDisputeById j False st)"
      if "now \<le> t + days * 86400000"
    proof (intro exI conjI allI impI)
      let ?st3 = "map_set i (d\<lparr>d_updatedAt := now\<rparr>) ?st2"
      show "restoreDispute days i now ?st2 = (Ok (d\<lparr>d_updatedAt := now\<rparr>), ?st3)"
        using st2 that kept by (simp add: restoreDispute_def retention_defs)
      show "getDisputeById i False ?st3 = Ok (d\<lparr>d_updatedAt := now\<rparr>)"
        using get(2) by (simp add: dispute_defs)
      show "getDisputeById j False ?st3 = getDisputeById j False st" if "j \<noteq> i" for j
        using others [OF that] that by (simp add: getDisputeById_def)
    qed simp
    assume "t + days * 86400000 < now"
    then show "restoreDispute days i now ?st2 = (Throw (Dispute_Retention_Expired i days), ?st2)"
      and "map_get (snd (purgeExpiredDisputes days now ?st2)) i = None"
      using st2 by (simp_all add: dispute_defs purge_disputes_get)
  qed
qed

theorem dispute_delete_restore_witness:
  "\<exists>d. getDisputeById ''dispute-001'' False (seedDemoDisputes 0 map_empty) = Ok d \<and>
   (let st1 = snd (softDeleteDispute ''dispute-001'' 100 (seedDemoDisputes 0 map_empty));
        st2 = fold (\<lambda>p s. snd (purgeExpiredDisputes 1 p s)) [200, 300] st1
    in getDisputeById ''dispute-001'' False st1 = Throw (Dispute_Not_Found ''dispute-001'') \<and>
       (\<exists>st3. restoreDispute 1 ''dispute-001'' 400 st2 = (Ok (d\<lparr>d_updatedAt := 400\<rparr>), st3) \<and>
          getDisputeById ''dispute-001'' False st3 = Ok (d\<lparr>d_updatedAt := 400\<rparr>)) \<and>
       restoreDispute 1 ''dispute-001'' 86400101 st2 =
         (Throw (Dispute_Retention_Expired ''dispute-001'' 1), st2))"
proof -
  obtain d where d: "getDisputeById ''dispute-001'' False (seedDemoDisputes 0 map_empty) = Ok d"
    by (simp add: seedDemoDisputes_def dispute_defs)
  have wf: "map_wf (seedDemoDisputes 0 map_empty)" by (simp add: seedDemoDisputes_def)
  have "\<forall>p\<in>set [200, 300]. p \<le> (100 :: ms) + 1 * 86400000" by simp
  note w = dispute_delete_restore [OF wf d this, unfolded Let_def]
  show ?thesis
    using d w [THEN conjunct1] w [THEN conjunct2, THEN conjunct2, THEN conjunct1, THEN spec, of 400]
      w [THEN conjunct2, THEN conjunct2, THEN conjunct2, THEN spec, of 86400101]
    by (auto simp: Let_def)
qed

subsection \<open>The life of a dispute\<close>

datatype dispute_op =
    CreateOp string ms create_dispute_input
  | UpdateOp string update_dispute_payload ms
  | BatchOp "batch_operation list"
  | SoftDeleteOp string ms
  | RestoreOp int string ms
  | PurgeOp int ms

primrec dispute_handle where
  "dispute_handle email web (CreateOp u now inp) st = snd (createDispute u now inp st)"
| "dispute_handle email web (UpdateOp i p now) st = snd (updateDispute email web i p now st)"
| "dispute_handle email web (BatchOp ops) st = snd (processBatch email web ops st)"
| "dispute_handle email web (SoftDeleteOp i now) st = snd (softDeleteDispute i now st)"
| "dispute_handle email web (RestoreOp n i now) st = snd (restoreDispute n i now st)"
| "dispute_handle email web (PurgeOp n now) st = snd (purgeExpiredDisputes n now st)"

primrec creates :: "dispute_op \<Rightarrow> string \<Rightarrow> bool" where
  "creates (CreateOp u now inp) i \<longleftrightarrow> u = i"
| "creates (UpdateOp _ _ _) i \<longleftrightarrow> False"
| "creates (BatchOp _) i \<longleftrightarrow> False"
| "creates (SoftDeleteOp _ _) i \<longleftrightarrow> False"
| "creates (RestoreOp _ _ _) i \<longleftrightarrow> False"
| "creates (PurgeOp _ _) i \<longleftrightarrow> False"

text \<open>What may happen to a dispute: its identity stays, its status follows the transitions.\<close>

definition dispute_evolves :: "dispute_record \<Rightarrow> dispute_record \<Rightarrow> bool" where
  "dispute_evolves d d' \<longleftrightarrow>
     d_id d' = d_id d \<and> d_contractId d' = d_contractId d \<and> d_reason d' = d_reason d \<and>
     d_raisedBy d' = d_raisedBy d \<and> d_createdAt d' = d_createdAt d \<and>
     (d_status d' = d_status d \<or> d_status d' \<in> set (VALID_TRANSITIONS (d_status d)))"

lemma VALID_TRANSITIONS_trans:
  "b \<in> set (VALID_TRANSITIONS a) \<Longrightarrow> c \<in> set (VALID_TRANSITIONS b) \<Longrightarrow> c \<in> set (VALID_TRANSITIONS a)"
  by (cases a; cases b; cases c) simp_all

lemma dispute_evolves_refl [simp]: "dispute_evolves d d"
  by (simp add: dispute_evolves_def)

lemma dispute_evolves_trans: "dispute_evolves a b \<Longrightarrow> dispute_evolves b c \<Longrightarrow> dispute_evolves a c"
  unfolding dispute_evolves_def using VALID_TRANSITIONS_trans by metis

text \<open>Between two stores no dispute appears and those that remain have evolved.\<close>

definition store_evolves :: "string \<Rightarrow> dispute_store \<Rightarrow> dispute_store \<Rightarrow> bool" where
  "store_evolves i st st' \<longleftrightarrow>
     (\<forall>d'. map_get st' i = Some d' \<longrightarrow> (\<exists>d. map_get st i = Some d \<and> dispute_evolves d d'))"

lemma store_evolves_refl [simp]: "store_evolves i st st"
  by (auto simp: store_evolves_def)

lemma store_evolves_trans: "store_evolves i a b \<Longrightarrow> store_evolves i b c \<Longrightarrow> store_evolves i a c"
  unfolding store_evolves_def using dispute_evolves_trans by metis

text \<open>
  The hook knows the statuses of contracts only, so no status change of a
  dispute ever leads to a notification.
\<close>

lemma dispute_transition_silent:
  "onStateTransition email web (dispute_status_string a) (dispute_status_string b) = None"
  by (cases a; cases b) (simp_all add: onStateTransition_def transition_event_def)

lemma updateDispute_cases:
  obtains (refused) err where "updateDispute email web i p now st = (Throw err, st)"
  | (applied) d d' x where "updateDispute email web i p now st = (Ok (d', x), map_set i d' st)"
      "map_get st i = Some d" "d_deletedAt d = None" "dispute_evolves d d'"
proof (cases "getDisputeById i False st")
  case (Inl err)
  then show ?thesis using refused by (simp add: updateDispute_def)
next
  case (Inr d)
  then have d: "map_get st i = Some d" "d_deletedAt d = None"
    by (auto simp: getDisputeById_def isSoftDeleted_def split: option.splits if_splits)
  let ?s = "case up_status p of None \<Rightarrow> d_status d | Some s \<Rightarrow> s"
  show ?thesis
  proof (cases "?s = d_status d \<or> ?s \<in> set (VALID_TRANSITIONS (d_status d))")
    case True
    with Inr d show ?thesis
      by (intro applied [of "d\<lparr>d_status := ?s, d_resolution := (case up_resolution p of None \<Rightarrow> d_resolution d
            | Some r \<Rightarrow> Some r), d_updatedAt := now\<rparr>" None d])
        (auto simp: updateDispute_def dispute_transition_silent validateTransition_def dispute_evolves_def Let_def split: option.split)
  next
    case False
    with Inr show ?thesis
      by (intro refused [of "Invalid_State_Transition (d_status d) ?s"])
        (auto simp: updateDispute_def validateTransition_def split: option.splits)
  qed
qed

lemma updateDispute_evolves:
  "map_wf st \<Longrightarrow> map_wf (snd (updateDispute email web i p now st)) \<and>
   store_evolves k st (snd (updateDispute email web i p now st))"
  by (cases rule: updateDispute_cases [of email web i p now st]) (auto simp: store_evolves_def)

lemma batch_loop_store:
  "snd (batch_loop email web n ops st) = fold (\<lambda>(i, p, now) s. snd (updateDispute email web i p now s)) ops st"
  by (induction email web n ops st rule: batch_loop.induct)
    (auto simp: Let_def split: prod.split sum.split)

lemma batch_evolves:
  "map_wf st \<Longrightarrow> map_wf (snd (processBatch email web ops st)) \<and>
   store_evolves k st (snd (processBatch email web ops st))"
  unfolding processBatch_def batch_loop_store
proof (induction ops arbitrary: st)
  case Nil
  then show ?case by simp
next
  case (Cons x ops)
  obtain i p now where x: "x = (i, p, now)" using prod_cases3 by blast
  let ?s = "snd (updateDispute email web i p now st)"
  have "map_wf ?s \<and> store_evolves k st ?s" by (rule updateDispute_evolves [OF Cons.prems])
  with Cons.IH [of ?s] show ?case by (auto simp: x intro: store_evolves_trans)
qed

lemma dispute_handle_evolves:
  assumes "map_wf st" "\<not> creates op k"
  shows "store_evolves k st (dispute_handle email web op st)"
proof (cases op)
  case (PurgeOp n now)
  with assms(1) show ?thesis by (auto simp: store_evolves_def purge_disputes_get split: option.splits if_splits)
next
  case (CreateOp u now inp)
  with assms(2) show ?thesis by (simp add: createDispute_def Let_def store_evolves_def)
next
  case (SoftDeleteOp i now)
  then show ?thesis
    by (auto simp: softDeleteDispute_def Let_def store_evolves_def dispute_evolves_def split: option.split)
next
  case (RestoreOp n i now)
  then show ?thesis
    by (auto simp: restoreDispute_def Let_def store_evolves_def dispute_evolves_def split: option.split)
qed (use assms in \<open>auto simp: batch_evolves updateDispute_evolves\<close>)

lemma dispute_handle_wf: "map_wf st \<Longrightarrow> map_wf (dispute_handle email web op st)"
  by (cases op) (auto simp: batch_evolves updateDispute_evolves createDispute_def softDeleteDispute_def
      restoreDispute_def purge_disputes_wf Let_def split: option.split)

interpretation dispute_sys: handler_system "dispute_handle email web" map_wf for email web
  by unfold_locales (rule dispute_handle_wf)

lemma dispute_history_evolves:
  assumes "map_wf st" "\<forall>op\<in>set ops. \<not> creates op k"
  shows "store_evolves k st (fold (dispute_handle email web) ops st)"
  using assms
proof (induction ops arbitrary: st)
  case Nil
  then show ?case by simp
next
  case (Cons op ops)
  have "store_evolves k st (dispute_handle email web op st)" using Cons.prems by (simp add: dispute_handle_evolves)
  moreover have "store_evolves k (dispute_handle email web op st) (fold (dispute_handle email web) ops (dispute_handle email web op st))"
    using Cons.prems by (intro Cons.IH) (auto simp: dispute_handle_wf)
  ultimately show ?case by (auto intro: store_evolves_trans)
qed

text \<open>
  C13. A dispute keeps its history: whatever sequence of single updates,
  batches, deletions, restores and purges runs (with fresh ids for new
  disputes), a dispute that is in the store afterwards was there before, with
  the same identity, contract, reason, author and creation time, and its status
  is unchanged or one that \<open>VALID_TRANSITIONS\<close> allows from the earlier one; in
  particular a resolved dispute stays resolved.
\<close>

theorem dispute_lifecycle:
  assumes "map_wf st" "\<forall>op\<in>set ops. \<not> creates op i"
    and "map_get (fold (dispute_handle email web) ops st) i = Some d'"
  shows "\<exists>d. map_get st i = Some d \<and> dispute_evolves d d' \<and>
    (d_status d = Resolved \<longrightarrow> d_status d' = Resolved)"
proof -
  obtain d where "map_get st i = Some d" "dispute_evolves d d'"
    using dispute_history_evolves [OF assms(1,2)] assms(3) unfolding store_evolves_def by blast
  moreover have "d_status d = Resolved \<longrightarrow> d_status d' = Resolved"
    using \<open>dispute_evolves d d'\<close> by (auto simp: dispute_evolves_def)
  ultimately show ?thesis by blast
qed

definition to_status :: "dispute_status \<Rightarrow> update_dispute_payload" where
  "to_status s = \<lparr>up_status = Some s, up_resolution = None\<rparr>"

theorem dispute_lifecycle_witness:
  "\<exists>d d'. map_get (seedDemoDisputes 0 map_empty) ''dispute-001'' = Some d \<and>
     map_get (fold (dispute_handle (\<lambda>_. Fulfilled True None) (\<lambda>_. Rejected ''down''))
       [UpdateOp ''dispute-001'' (to_status Escalated) 5, BatchOp [(''dispute-001'', to_status Open, 6)],
        SoftDeleteOp ''dispute-001'' 7] (seedDemoDisputes 0 map_empty)) ''dispute-001'' = Some d' \<and>
     d_status d' = Escalated \<and> dispute_evolves d d'"
proof -
  let ?ops = "[UpdateOp ''dispute-001'' (to_status Escalated) 5, BatchOp [(''dispute-001'', to_status Open, 6)],
        SoftDeleteOp ''dispute-001'' 7]"
  let ?st = "fold (dispute_handle (\<lambda>_. Fulfilled True None) (\<lambda>_. Rejected ''down'')) ?ops
      (seedDemoDisputes 0 map_empty)"
  have "\<exists>d'. map_get ?st ''dispute-001'' = Some d' \<and> d_status d' = Escalated"
    by (simp add: seedDemoDisputes_def updateDispute_def processBatch_def dispute_defs to_status_def
        validateTransition_def)
  then obtain d' where d': "map_get ?st ''dispute-001'' = Some d'" "d_status d' = Escalated" by blast
  have "map_wf (seedDemoDisputes 0 map_empty)" by (simp add: seedDemoDisputes_def)
  then show ?thesis using dispute_lifecycle [OF _ _ d'(1)] d' by fastforce
qed

subsection \<open>Batches\<close>

definition batch_state where
  "batch_state email web ops st k =
     fold (\<lambda>(i, p, now) s. snd (updateDispute email web i p now s)) (take k ops) st"

lemma batch_loop_nth:
  assumes "k < length ops" "ops ! k = (i, p, now)"
  shows "length (fst (batch_loop email web n ops st)) = length ops \<and>
    fst (batch_loop email web n ops st) ! k =
      (case fst (updateDispute email web i p now (batch_state email web ops st k)) of
         Ok (d, _) \<Rightarrow> \<lparr>bt_index = n + k, bt_success = True, bt_dispute = Some d, bt_error = None\<rparr>
       | Throw err \<Rightarrow> \<lparr>bt_index = n + k, bt_success = False, bt_dispute = None,
            bt_error = Some (dispute_error_code err, dispute_error_message err)\<rparr>)"
  using assms
proof (induction ops arbitrary: k n st)
  case Nil
  then show ?case by simp
next
  case (Cons x ops)
  obtain j q t where x: "x = (j, q, t)" using prod_cases3 by blast
  obtain r s where u: "updateDispute email web j q t st = (r, s)" by fastforce
  have len: "length (fst (batch_loop email web m os s0)) = length os" for m os s0
    by (induction email web m os s0 rule: batch_loop.induct) (auto simp: Let_def split: prod.split sum.split)
  show ?case
  proof (cases k)
    case 0
    with Cons.prems x u show ?thesis
      by (auto simp: batch_state_def len Let_def split: prod.split sum.split dest: arg_cong [where f = "\<lambda>x. length (fst x)"])
  next
    case (Suc k')
    with Cons.IH [of k' "n + 1" s] Cons.prems x u show ?thesis
      by (auto simp: batch_state_def Let_def split: prod.splits sum.splits)
  qed
qed

text \<open>
  C14. Items of a batch are isolated.  There is one result per item, in order;
  result \<open>k\<close> is that of a lone \<open>updateDispute\<close> on the store the earlier items
  left; an item that fails leaves the store exactly as it found it, so it
  neither rolls back nor disturbs the others; the store at the end is the one
  after the last item, and disputes that no item names are untouched.
\<close>

theorem batch_isolated:
  assumes "k < length ops" "ops ! k = (i, p, now)"
  shows "let before = batch_state email web ops st k; after = batch_state email web ops st (Suc k);
             (results, final) = processBatch email web ops st
         in length results = length ops \<and> bt_index (results ! k) = k \<and>
            final = batch_state email web ops st (length ops) \<and>
            (case updateDispute email web i p now before of
               (Ok (d, _), st') \<Rightarrow> bt_dispute (results ! k) = Some d \<and> bt_success (results ! k) \<and> after = st'
             | (Throw err, _) \<Rightarrow> bt_error (results ! k) = Some (dispute_error_code err, dispute_error_message err) \<and>
                 \<not> bt_success (results ! k) \<and> after = before) \<and>
            (\<forall>j. j \<notin> fst ` set ops \<longrightarrow> map_get final j = map_get st j)"
proof -
  have after: "batch_state email web ops st (Suc k) = snd (updateDispute email web i p now (batch_state email web ops st k))"
    using assms by (simp add: batch_state_def take_Suc_conv_app_nth)
  have untouched: "j \<notin> fst ` set os \<Longrightarrow>
      map_get (fold (\<lambda>(i, p, now) s. snd (updateDispute email web i p now s)) os s) j = map_get s j" for j os s
  proof (induction os arbitrary: s)
    case (Cons x os)
    obtain i p now where x: "x = (i, p, now)" using prod_cases3 by blast
    have "map_get (snd (updateDispute email web i p now s)) j = map_get s j"
      using Cons.prems x by (cases rule: updateDispute_cases [of email web i p now s]) auto
    with Cons x show ?case by simp
  qed simp
  have final: "snd (processBatch email web ops st) = batch_state email web ops st (length ops)"
    by (simp add: processBatch_def batch_loop_store batch_state_def)
  show ?thesis
    using batch_loop_nth [OF assms, of email web 0 st] final untouched [of _ ops st] after
    by (cases rule: updateDispute_cases [of email web i p now "batch_state email web ops st k"])
      (auto simp: Let_def processBatch_def batch_state_def split: prod.split)
qed

theorem batch_isolated_witness:
  "let ops = [(''dispute-001'', to_status Resolved, 5), (''dispute-001'', to_status Open, 6), (''dispute-002'', to_status Resolved, 7)];
       st = seedDemoDisputes 0 map_empty;
       email = (\<lambda>_. Fulfilled True None);
       (results, final) = processBatch email email ops st
   in length results = 3 \<and> bt_index (results ! 1) = 1 \<and> \<not> bt_success (results ! 1)"
  using batch_isolated [of 1 "[(''dispute-001'', to_status Resolved, 5), (''dispute-001'', to_status Open, 6), (''dispute-002'', to_status Resolved, 7)]"
      "''dispute-001''" "to_status Open" 6 "\<lambda>_. Fulfilled True None" "\<lambda>_. Fulfilled True None" "seedDemoDisputes 0 map_empty"]
  by (simp add: Let_def batch_state_def seedDemoDisputes_def updateDispute_def dispute_defs to_status_def
      validateTransition_def case_prod_unfold)

end
