(* ===== verification/ContractBounds.thy ===== *)
theory ContractBounds
  imports Prelude
begin

text \<open>
  The policy limits of \<open>src/contracts/bounds.ts\<close>.  The function takes arbitrary
  JavaScript values, so its arguments are modelled with the shapes it tells
  apart: a number that is finite or not, a milestone list that is an array or
  not, an entry that is an object or not.  Finite amounts are whole stroops.
\<close>

definition MAX_MILESTONES_PER_CONTRACT :: nat where
  "MAX_MILESTONES_PER_CONTRACT = 20"

definition MAX_CONTRACT_AMOUNT_STROOPS :: int where
  "MAX_CONTRACT_AMOUNT_STROOPS = 100000000000000"

datatype js_number = Finite int | Not_Finite

datatype milestone_entry = Not_Object | Milestone_Amount js_number

datatype milestones_arg = Not_Array | Milestone_List "milestone_entry list"

datatype bounds_error =
    Budget_Not_Finite
  | Budget_Exceeds_Maximum
  | Milestones_Not_Array
  | Milestone_Count_Exceeds nat
  | Milestone_Malformed
  | Total_Exceeds_Maximum
  | Total_Exceeds_Budget int int

fun milestone_total_loop :: "milestone_entry list \<Rightarrow> int \<Rightarrow> bounds_error option" where
  "milestone_total_loop [] running = None"
| "milestone_total_loop (m # rest) running =
     (case m of
        Not_Object \<Rightarrow> Some Milestone_Malformed
      | Milestone_Amount Not_Finite \<Rightarrow> Some Milestone_Malformed
      | Milestone_Amount (Finite amount) \<Rightarrow>
          if running + amount > MAX_CONTRACT_AMOUNT_STROOPS then Some Total_Exceeds_Maximum
          else milestone_total_loop rest (running + amount))"

definition validateContractBounds :: "js_number \<Rightarrow> milestones_arg option \<Rightarrow> bounds_error option" where
  "validateContractBounds budget milestones =
     (case budget of
        Not_Finite \<Rightarrow> Some Budget_Not_Finite
      | Finite b \<Rightarrow>
          if b > MAX_CONTRACT_AMOUNT_STROOPS then Some Budget_Exceeds_Maximum
          else (case milestones of
                  None \<Rightarrow> None
                | Some Not_Array \<Rightarrow> Some Milestones_Not_Array
                | Some (Milestone_List ms) \<Rightarrow>
                    if length ms > MAX_MILESTONES_PER_CONTRACT
                    then Some (Milestone_Count_Exceeds (length ms))
                    else milestone_total_loop ms 0))"

subsection \<open>What is accepted\<close>

fun entry_amount :: "milestone_entry \<Rightarrow> int" where
  "entry_amount (Milestone_Amount (Finite a)) = a"
| "entry_amount _ = 0"

fun entry_ok :: "milestone_entry \<Rightarrow> bool" where
  "entry_ok (Milestone_Amount (Finite a)) = True"
| "entry_ok _ = False"

lemma milestone_total_loop_None:
  "milestone_total_loop ms running = None \<longleftrightarrow>
     list_all entry_ok ms \<and>
     (\<forall>k\<le>length ms. k > 0 \<longrightarrow> running + sum_list (map entry_amount (take k ms)) \<le> MAX_CONTRACT_AMOUNT_STROOPS)"
proof (induction ms arbitrary: running)
  case Nil
  then show ?case by simp
next
  case (Cons m ms)
  show ?case
  proof (cases "entry_ok m")
    case False
    then show ?thesis by (cases m rule: entry_ok.cases) auto
  next
    case True
    then obtain a where m: "m = Milestone_Amount (Finite a)" by (cases m rule: entry_ok.cases) auto
    have "(\<forall>k\<le>length (m # ms). k > 0 \<longrightarrow> P k) \<longleftrightarrow> P 1 \<and> (\<forall>k\<le>length ms. k > 0 \<longrightarrow> P (Suc k))" for P
    proof -
      have "(\<forall>k\<le>length (m # ms). k > 0 \<longrightarrow> P k) \<longleftrightarrow> (\<forall>k\<le>length ms. P (Suc k))"
        by (auto simp: gr0_conv_Suc)
      also have "\<dots> \<longleftrightarrow> P 1 \<and> (\<forall>k\<le>length ms. k > 0 \<longrightarrow> P (Suc k))"
        by (metis One_nat_def gr0I le0)
      finally show ?thesis .
    qed
    then show ?thesis using m Cons.IH [of "running + a"] by (auto simp: add.assoc)
  qed
qed

lemma sum_prefix_le:
  assumes "\<forall>x\<in>set xs. 0 \<le> (x :: int)"
  shows "sum_list (take k xs) \<le> sum_list xs"
proof -
  have "0 \<le> sum_list (drop k xs)" using assms by (intro sum_list_nonneg) (auto dest: in_set_dropD)
  then show ?thesis by (metis append_take_drop_id le_add_same_cancel1 sum_list_append)
qed

lemma accepted_total:
  assumes "\<forall>m\<in>set ms. 0 \<le> entry_amount m"
  shows "milestone_total_loop ms 0 = None \<longleftrightarrow>
    list_all entry_ok ms \<and> sum_list (map entry_amount ms) \<le> MAX_CONTRACT_AMOUNT_STROOPS"
proof -
  have prefix: "sum_list (map entry_amount (take k ms)) \<le> sum_list (map entry_amount ms)" for k
    using sum_prefix_le [of "map entry_amount ms" k] assms by (simp add: take_map)
  have "(\<forall>k\<le>length ms. k > 0 \<longrightarrow> sum_list (map entry_amount (take k ms)) \<le> MAX_CONTRACT_AMOUNT_STROOPS)
      \<longleftrightarrow> ms = [] \<or> sum_list (map entry_amount ms) \<le> MAX_CONTRACT_AMOUNT_STROOPS"
  proof (intro iffI)
    assume "\<forall>k\<le>length ms. k > 0 \<longrightarrow> sum_list (map entry_amount (take k ms)) \<le> MAX_CONTRACT_AMOUNT_STROOPS"
    then show "ms = [] \<or> sum_list (map entry_amount ms) \<le> MAX_CONTRACT_AMOUNT_STROOPS"
      by (cases "ms = []") (auto dest: spec [of _ "length ms"])
  next
    assume "ms = [] \<or> sum_list (map entry_amount ms) \<le> MAX_CONTRACT_AMOUNT_STROOPS"
    then show "\<forall>k\<le>length ms. k > 0 \<longrightarrow> sum_list (map entry_amount (take k ms)) \<le> MAX_CONTRACT_AMOUNT_STROOPS"
      using prefix by (auto intro: order_trans)
  qed
  moreover have "0 \<le> MAX_CONTRACT_AMOUNT_STROOPS" by (simp add: MAX_CONTRACT_AMOUNT_STROOPS_def)
  ultimately show ?thesis unfolding milestone_total_loop_None by auto
qed

text \<open>
  C15. The bounds check accepts exactly the contracts within policy: the budget
  is a finite number up to the maximum and the milestones, if given, are an
  array of at most twenty entries with finite amounts whose total is within the
  maximum (amounts not negative, as the request schema demands).
\<close>

theorem contract_bounds_exact:
  assumes "\<forall>ms. milestones = Some (Milestone_List ms) \<longrightarrow> (\<forall>m\<in>set ms. 0 \<le> entry_amount m)"
  shows "validateContractBounds budget milestones = None \<longleftrightarrow>
    (\<exists>b. budget = Finite b \<and> b \<le> MAX_CONTRACT_AMOUNT_STROOPS) \<and>
    (milestones = None \<or>
     (\<exists>ms. milestones = Some (Milestone_List ms) \<and> length ms \<le> 20 \<and> list_all entry_ok ms \<and>
           sum_list (map entry_amount ms) \<le> MAX_CONTRACT_AMOUNT_STROOPS))"
  using assms accepted_total
  by (auto simp: validateContractBounds_def MAX_MILESTONES_PER_CONTRACT_def
      split: js_number.splits option.splits milestones_arg.splits)

theorem contract_bounds_exact_witness:
  "validateContractBounds (Finite 500) (Some (Milestone_List [Milestone_Amount (Finite 200), Milestone_Amount (Finite 300)])) = None"
  using contract_bounds_exact [of "Some (Milestone_List [Milestone_Amount (Finite 200), Milestone_Amount (Finite 300)])" "Finite 500"]
  by (simp add: MAX_CONTRACT_AMOUNT_STROOPS_def)

end
