(* ===== verification/Milestones.thy ===== *)
theory Milestones
  imports SoftDelete ContractBounds
begin

text \<open>
  The milestones service, \<open>src/services/milestones.service.ts\<close>: budget checks and
  an in-memory store with soft deletion.  The webhook that a milestone created
  as completed fires is not awaited and its failure is swallowed; the model
  returns the payload handed to the webhook service.
\<close>

record milestone_record =
  m_id :: string
  m_contractId :: string
  m_title :: string
  m_description :: string
  m_amount :: int
  m_deadline :: "string option"
  m_completed :: bool
  m_createdAt :: ms
  m_updatedAt :: ms
  m_deletedAt :: "ms option"

record create_milestone_input =
  mi_title :: string
  mi_description :: "string option"
  mi_amount :: int
  mi_deadline :: "string option"
  mi_completed :: "bool option"

record milestone_released =
  mr_milestoneId :: string
  mr_contractId :: string
  mr_title :: string
  mr_amount :: int
  mr_completedAt :: ms

datatype milestone_error =
    Milestone_Not_Found string string
  | Milestone_Already_Deleted string
  | Milestone_Not_Deleted string
  | Milestone_Retention_Expired string int

type_synonym milestone_store = "(string, milestone_record) jsmap"

subsection \<open>Budget checks\<close>

definition validateBounds :: "js_number \<Rightarrow> milestones_arg option \<Rightarrow> (bounds_error, unit) result" where
  "validateBounds budget milestones =
     (case validateContractBounds budget milestones of Some err \<Rightarrow> Throw err | None \<Rightarrow> Ok ())"

definition validateMilestonesAgainstBudget :: "int \<Rightarrow> int list option \<Rightarrow> (bounds_error, unit) result" where
  "validateMilestonesAgainstBudget budget milestones =
     (case validateBounds (Finite budget)
             (map_option (\<lambda>ms. Milestone_List (map (\<lambda>a. Milestone_Amount (Finite a)) ms)) milestones) of
        Throw err \<Rightarrow> Throw err
      | Ok _ \<Rightarrow>
          (case milestones of
             None \<Rightarrow> Ok ()
           | Some ms \<Rightarrow>
               if length ms > 0 \<and> foldl (\<lambda>sum amount. sum + amount) 0 ms > budget
               then Throw (Total_Exceeds_Budget (foldl (\<lambda>sum amount. sum + amount) 0 ms) budget)
               else Ok ()))"

subsection \<open>The store\<close>

definition create_milestone ::
  "bool \<Rightarrow> string \<Rightarrow> ms \<Rightarrow> string \<Rightarrow> create_milestone_input \<Rightarrow> milestone_store
     \<Rightarrow> milestone_record \<times> milestone_released list \<times> milestone_store" where
  "create_milestone hasWebhook uuid now contractId input st =
     (let r = \<lparr>m_id = uuid, m_contractId = contractId, m_title = mi_title input,
               m_description = (case mi_description input of None \<Rightarrow> [] | Some d \<Rightarrow> d),
               m_amount = mi_amount input, m_deadline = mi_deadline input,
               m_completed = (case mi_completed input of None \<Rightarrow> False | Some c \<Rightarrow> c),
               m_createdAt = now, m_updatedAt = now, m_deletedAt = None\<rparr>;
          fired = (if hasWebhook \<and> m_completed r
            then [\<lparr>mr_milestoneId = m_id r, mr_contractId = m_contractId r, mr_title = m_title r,
                   mr_amount = m_amount r, mr_completedAt = m_updatedAt r\<rparr>]
            else [])
      in (r, fired, map_set (m_id r) r st))"

definition listByContract :: "string \<Rightarrow> bool \<Rightarrow> milestone_store \<Rightarrow> milestone_record list" where
  "listByContract contractId includeDeleted st =
     (let all = filter (\<lambda>m. m_contractId m = contractId) (map_values st);
          filtered = (if includeDeleted then all else filterNotDeleted m_deletedAt all)
      in sort_key m_createdAt filtered)"

definition milestone_lookup :: "milestone_store \<Rightarrow> string \<times> string \<Rightarrow> milestone_record option" where
  "milestone_lookup st key =
     (case map_get st (snd key) of
        None \<Rightarrow> None
      | Some r \<Rightarrow> if m_contractId r \<noteq> fst key then None else Some r)"

definition milestone_getById ::
  "string \<Rightarrow> string \<Rightarrow> bool \<Rightarrow> milestone_store \<Rightarrow> (milestone_error, milestone_record) result" where
  "milestone_getById contractId milestoneId includeDeleted st =
     (case milestone_lookup st (contractId, milestoneId) of
        None \<Rightarrow> Throw (Milestone_Not_Found milestoneId contractId)
      | Some r \<Rightarrow>
          if \<not> includeDeleted \<and> isSoftDeleted (m_deletedAt r)
          then Throw (Milestone_Not_Found milestoneId contractId) else Ok r)"

definition milestone_softDelete ::
  "string \<Rightarrow> string \<Rightarrow> ms \<Rightarrow> milestone_store \<Rightarrow> (milestone_error, milestone_record) result \<times> milestone_store" where
  "milestone_softDelete contractId milestoneId now st =
     (case milestone_lookup st (contractId, milestoneId) of
        None \<Rightarrow> (Throw (Milestone_Not_Found milestoneId contractId), st)
      | Some r \<Rightarrow>
          if isSoftDeleted (m_deletedAt r) then (Throw (Milestone_Already_Deleted milestoneId), st)
          else let updated = r\<lparr>m_deletedAt := Some now, m_updatedAt := now\<rparr>
               in (Ok updated, map_set milestoneId updated st))"

definition milestone_restore ::
  "int \<Rightarrow> string \<Rightarrow> string \<Rightarrow> ms \<Rightarrow> milestone_store \<Rightarrow> (milestone_error, milestone_record) result \<times> milestone_store" where
  "milestone_restore retentionDays contractId milestoneId now st =
     (case milestone_lookup st (contractId, milestoneId) of
        None \<Rightarrow> (Throw (Milestone_Not_Found milestoneId contractId), st)
      | Some r \<Rightarrow>
          (case m_deletedAt r of
             None \<Rightarrow> (Throw (Milestone_Not_Deleted milestoneId), st)
           | Some deletedAt \<Rightarrow>
               if \<not> isWithinRetentionWindow deletedAt retentionDays now
               then (Throw (Milestone_Retention_Expired milestoneId retentionDays), st)
               else let updated = r\<lparr>m_deletedAt := None, m_updatedAt := now\<rparr>
                    in (Ok updated, map_set milestoneId updated st)))"

definition milestone_purgeExpired :: "int \<Rightarrow> ms \<Rightarrow> milestone_store \<Rightarrow> nat \<times> milestone_store" where
  "milestone_purgeExpired retentionDays now st =
     (let (st', purged) = map_reap (\<lambda>i r. case m_deletedAt r of
            None \<Rightarrow> False | Some deletedAt \<Rightarrow> isPastRetentionWindow deletedAt retentionDays now) st
      in (purged, st'))"

subsection \<open>Properties\<close>

lemma foldl_plus: "foldl (\<lambda>sum amount. sum + amount) (0::int) xs = sum_list xs"
  using foldl_add_start [of "\<lambda>x. x" 0 xs] by simp

lemma entry_amount_map [simp]: "map (entry_amount \<circ> (\<lambda>a. Milestone_Amount (Finite a))) ms = ms"
  by (induction ms) auto

text \<open>
  C16. A milestone plan is accepted exactly when payouts can never overrun the
  contract: the budget is within the policy maximum, there are at most twenty
  milestones, and their amounts (not negative) add up to at most the budget.
\<close>

theorem milestones_within_budget:
  assumes "\<forall>a\<in>set ms. 0 \<le> a" "0 \<le> budget"
  shows "validateMilestonesAgainstBudget budget (Some ms) = Ok () \<longleftrightarrow>
    budget \<le> MAX_CONTRACT_AMOUNT_STROOPS \<and> length ms \<le> 20 \<and> sum_list ms \<le> budget"
proof -
  have "milestone_total_loop (map (\<lambda>a. Milestone_Amount (Finite a)) ms) 0 = None \<longleftrightarrow>
      sum_list ms \<le> MAX_CONTRACT_AMOUNT_STROOPS"
    using accepted_total [of "map (\<lambda>a. Milestone_Amount (Finite a)) ms"] assms(1)
    by (auto simp: list_all_iff)
  then show ?thesis using assms(2)
    by (cases "ms = []") (auto simp: validateMilestonesAgainstBudget_def validateBounds_def validateContractBounds_def
        foldl_plus MAX_MILESTONES_PER_CONTRACT_def split: option.splits)
qed

theorem milestones_within_budget_witness:
  "validateMilestonesAgainstBudget 500 (Some [200, 300]) = Ok ()"
  using milestones_within_budget [of "[200, 300]" 500] by (simp add: MAX_CONTRACT_AMOUNT_STROOPS_def)

definition milestone_content :: "milestone_record \<Rightarrow> milestone_record" where
  "milestone_content r = r\<lparr>m_deletedAt := None, m_updatedAt := 0\<rparr>"

definition milestone_fetch :: "string \<times> string \<Rightarrow> milestone_store \<Rightarrow> milestone_record option" where
  "milestone_fetch key st =
     (case milestone_getById (fst key) (snd key) False st of Throw _ \<Rightarrow> None | Ok r \<Rightarrow> Some r)"

lemma milestone_purge_wf: "map_wf st \<Longrightarrow> map_wf (snd (milestone_purgeExpired n now st))"
  by (auto simp: milestone_purgeExpired_def case_prod_unfold Let_def)

lemma milestone_purge_lookup:
  "map_wf st \<Longrightarrow> milestone_lookup (snd (milestone_purgeExpired n now st)) key =
     (case milestone_lookup st key of None \<Rightarrow> None
      | Some r \<Rightarrow> (case m_deletedAt r of None \<Rightarrow> Some r
                  | Some t \<Rightarrow> if isPastRetentionWindow t n now then None else Some r))"
  by (auto simp: milestone_purgeExpired_def milestone_lookup_def map_get_reap case_prod_unfold Let_def
      split: option.split)

lemmas milestone_defs = milestone_getById_def milestone_softDelete_def milestone_restore_def retention_defs

lemma milestone_lookup_set:
  "milestone_lookup st (c, i) = Some r \<Longrightarrow> m_contractId r' = m_contractId r \<Longrightarrow>
   milestone_lookup (map_set i r' st) key = (if key = (c, i) then Some r' else milestone_lookup st key)"
  by (cases key) (auto simp: milestone_lookup_def split: option.splits if_splits)

interpretation milestones: exact_soft_delete_store
  milestone_lookup m_deletedAt milestone_content map_wf milestone_fetch
  "\<lambda>key now st. (\<not> isl (fst (milestone_softDelete (fst key) (snd key) now st)),
                 snd (milestone_softDelete (fst key) (snd key) now st))"
  "\<lambda>n key now st. (\<not> isl (fst (milestone_restore n (fst key) (snd key) now st)),
                   snd (milestone_restore n (fst key) (snd key) now st))"
  "\<lambda>n now st. snd (milestone_purgeExpired n now st)"
  "\<lambda>n d now. isPastRetentionWindow d n now" "\<lambda>_ _ _. False"
proof unfold_locales
  fix k s
  show "milestone_fetch k s = (case milestone_lookup s k of None \<Rightarrow> None
      | Some r \<Rightarrow> if m_deletedAt r = None then Some r else None)"
    by (auto simp: milestone_fetch_def milestone_defs split: option.splits)
next
  fix s :: milestone_store and k r t
  assume "map_wf s" "milestone_lookup s k = Some r" "m_deletedAt r = None"
  then show "\<exists>s' r'. (\<not> isl (fst (milestone_softDelete (fst k) (snd k) t s)),
        snd (milestone_softDelete (fst k) (snd k) t s)) = (True, s') \<and> map_wf s' \<and>
      milestone_lookup s' k = Some r' \<and> m_deletedAt r' = Some t \<and> milestone_content r' = milestone_content r \<and>
      (\<forall>k'. k' \<noteq> k \<longrightarrow> milestone_lookup s' k' = milestone_lookup s k')"
    by (cases k) (auto simp: milestone_defs milestone_content_def milestone_lookup_set)
next
  fix s :: milestone_store and k r d t n
  assume "map_wf s" "milestone_lookup s k = Some r" "m_deletedAt r = Some d" "t \<le> d + n * day_ms"
  then show "\<exists>s' r'. (\<not> isl (fst (milestone_restore n (fst k) (snd k) t s)),
        snd (milestone_restore n (fst k) (snd k) t s)) = (True, s') \<and> map_wf s' \<and>
      milestone_lookup s' k = Some r' \<and> m_deletedAt r' = None \<and> milestone_content r' = milestone_content r \<and>
      (\<forall>k'. k' \<noteq> k \<longrightarrow> milestone_lookup s' k' = milestone_lookup s k')"
    by (cases k) (auto simp: milestone_defs milestone_content_def milestone_lookup_set)
next
  fix s :: milestone_store and k t
  assume "\<forall>r. milestone_lookup s k = Some r \<longrightarrow> m_deletedAt r \<noteq> None"
  then show "(\<not> isl (fst (milestone_softDelete (fst k) (snd k) t s)),
      snd (milestone_softDelete (fst k) (snd k) t s)) = (False, s)"
    by (auto simp: milestone_defs split: option.splits)
next
  fix s :: milestone_store and k n t
  assume "\<forall>r d. milestone_lookup s k = Some r \<and> m_deletedAt r = Some d \<longrightarrow> d + n * day_ms < t"
  then show "(\<not> isl (fst (milestone_restore n (fst k) (snd k) t s)),
      snd (milestone_restore n (fst k) (snd k) t s)) = (False, s)"
    by (fastforce simp: milestone_defs split: option.splits)
qed (auto simp: milestone_purge_wf milestone_purge_lookup retention_defs)

text \<open>
  C17. Restore and purge agree on the end of the retention window to the
  millisecond: at any time a soft-deleted milestone can be restored exactly when
  a purge run at that time would keep it; restoring brings it back with its
  content, and a purge never touches what default reads show.
\<close>

theorem milestone_restore_purge_agree:
  assumes "map_wf st" "milestone_getById contractId milestoneId True st = Ok r" "m_deletedAt r = Some d"
  shows "((\<exists>r'. fst (milestone_restore days contractId milestoneId now st) = Ok r' \<and>
              milestone_content r' = milestone_content r) \<longleftrightarrow>
          milestone_getById contractId milestoneId True (snd (milestone_purgeExpired days now st)) = Ok r) \<and>
    (\<forall>c i. milestone_getById c i False (snd (milestone_purgeExpired days now st)) = milestone_getById c i False st)"
proof -
  have r: "milestone_lookup st (contractId, milestoneId) = Some r"
    using assms(2) by (auto simp: milestone_getById_def split: option.splits)
  note agree = milestones.restorable_iff_kept [OF assms(1) r assms(3), of days now]
  have "(\<exists>r'. fst (milestone_restore days contractId milestoneId now st) = Ok r' \<and>
      milestone_content r' = milestone_content r) \<longleftrightarrow>
      \<not> isl (fst (milestone_restore days contractId milestoneId now st))"
    using r assms(3) by (simp add: milestone_defs milestone_content_def)
  moreover have "milestone_getById contractId milestoneId True (snd (milestone_purgeExpired days now st)) = Ok r \<longleftrightarrow>
      milestone_lookup (snd (milestone_purgeExpired days now st)) (contractId, milestoneId) \<noteq> None"
    using r by (auto simp: milestone_getById_def milestone_purge_lookup [OF assms(1)] split: option.split)
  moreover have "milestone_getById c i False (snd (milestone_purgeExpired days now st)) = milestone_getById c i False st" for c i
    using milestones.purge_spares_active [OF assms(1), of "(c, i)" days now]
    by (auto simp: milestone_fetch_def milestone_getById_def split: option.splits if_splits)
  ultimately show ?thesis using agree by simp
qed

definition one_milestone :: milestone_store where
  "one_milestone = snd (milestone_softDelete ''c-1'' ''m-1'' 1000
     (snd (snd (create_milestone False ''m-1'' 0 ''c-1''
        \<lparr>mi_title = ''Design'', mi_description = None, mi_amount = 100, mi_deadline = None, mi_completed = None\<rparr>
        map_empty))))"

theorem milestone_restore_purge_agree_witness:
  "\<exists>r. milestone_getById ''c-1'' ''m-1'' True one_milestone = Ok r \<and> m_deletedAt r = Some 1000 \<and>
     ((\<exists>r'. fst (milestone_restore 1 ''c-1'' ''m-1'' 86401000 one_milestone) = Ok r' \<and>
            milestone_content r' = milestone_content r) \<longleftrightarrow>
      milestone_getById ''c-1'' ''m-1'' True (snd (milestone_purgeExpired 1 86401000 one_milestone)) = Ok r)"
proof -
  obtain r where r: "milestone_getById ''c-1'' ''m-1'' True one_milestone = Ok r" "m_deletedAt r = Some 1000"
    by (simp add: one_milestone_def create_milestone_def milestone_defs milestone_lookup_def)
  have "map_wf one_milestone"
    by (simp add: one_milestone_def create_milestone_def milestone_defs milestone_lookup_def)
  from milestone_restore_purge_agree [OF this r, of 1 86401000] r show ?thesis by blast
qed

end
