(* ===== verification/ContractRepository.thy ===== *)
theory ContractRepository
  imports SoftDelete "HOL-Library.Char_ord" "HOL-Library.List_Lexorder" "HOL-Library.Product_Lexorder"
begin

text \<open>
  The two contract repositories of \<open>src/repositories/contractRepository.ts\<close>.
  The SQLite repository is a table of rows and its statements are the list
  operations they denote.  The in-memory repository hands out references to its
  records and mutates them in place, so it is modelled with a heap.  ISO-8601
  timestamps of one format compare as the times they denote and are modelled by
  epoch milliseconds; a page cursor by the position it encodes.
  \<open>updateWithVersion\<close> awaits a read before it writes: its two halves are separate
  steps.
\<close>

subsection \<open>Data\<close>

record contract =
  c_id :: string
  c_title :: string
  c_clientId :: string
  c_freelancerId :: string
  c_amount :: int
  c_status :: string
  c_version :: int
  c_createdAt :: ms
  c_deletedAt :: "ms option"

record create_contract_input =
  cc_title :: string
  cc_clientId :: string
  cc_freelancerId :: "string option"
  cc_amount :: int
  cc_status :: "string option"

record contract_fields =
  uf_title :: "string option"
  uf_status :: "string option"
  uf_amount :: "int option"
  uf_freelancerId :: "string option"

datatype page_cursor = Bad_Cursor | Position ms string

record contract_page =
  pg_data :: "contract list"
  pg_nextCursor :: "(ms \<times> string) option"
  pg_hasNextPage :: bool
  pg_limit :: nat

datatype repo_error =
    Contract_Not_Found string
  | Version_Conflict
  | Contract_Not_Deleted string
  | Contract_Retention_Expired string int
  | Invalid_Contract_Status string
  | Unique_Violation string
  | Check_Violation
  | Foreign_Key_Violation
  | Invalid_Limit
  | Invalid_Cursor

definition VALID_CONTRACT_STATUSES :: "string list" where
  "VALID_CONTRACT_STATUSES = [''draft'', ''active'', ''completed'', ''disputed'', ''cancelled'']"

definition parseLimit :: "int option \<Rightarrow> (repo_error, nat) result" where
  "parseLimit raw =
     (case raw of
        None \<Rightarrow> Ok 20
      | Some n \<Rightarrow> if n < 1 then Throw Invalid_Limit else if n > 100 then Throw Invalid_Limit else Ok (nat n))"

definition new_contract :: "string \<Rightarrow> ms \<Rightarrow> create_contract_input \<Rightarrow> (repo_error, contract) result" where
  "new_contract uuid now data =
     (let status = (case cc_status data of None \<Rightarrow> ''draft'' | Some s \<Rightarrow> s)
      in if status \<notin> set VALID_CONTRACT_STATUSES then Throw (Invalid_Contract_Status status)
         else Ok \<lparr>c_id = uuid, c_title = cc_title data, c_clientId = cc_clientId data,
                  c_freelancerId = (case cc_freelancerId data of None \<Rightarrow> [] | Some f \<Rightarrow> f),
                  c_amount = cc_amount data, c_status = status, c_version = 0, c_createdAt = now,
                  c_deletedAt = None\<rparr>)"

subsection \<open>The SQLite repository\<close>

text \<open>
  The other tables a statement depends on are arguments: \<open>users\<close> lists the ids of
  the users table, which \<open>client_id\<close> and \<open>freelancer_id\<close> reference, and \<open>rated\<close> the
  contracts that \<open>reputation_entries.context_id\<close> references.  Foreign keys are
  enforced (\<open>PRAGMA foreign_keys = ON\<close>); a statement that violates a constraint
  throws and changes nothing.  SQLite tests the \<open>CHECK\<close> constraints of a row
  before the primary key, and foreign keys at the end of the statement.
\<close>

type_synonym contract_table = "contract list"

definition contract_checks :: "contract \<Rightarrow> bool" where
  "contract_checks c \<longleftrightarrow>
     0 \<le> c_amount c \<and> c_status c \<in> set VALID_CONTRACT_STATUSES \<and> 0 \<le> c_version c"

definition sql_findById :: "string \<Rightarrow> bool \<Rightarrow> contract_table \<Rightarrow> contract option" where
  "sql_findById i includeDeleted t = find (\<lambda>c. c_id c = i \<and> (includeDeleted \<or> c_deletedAt c = None)) t"

definition sql_findAll :: "bool \<Rightarrow> contract_table \<Rightarrow> contract list" where
  "sql_findAll includeDeleted t =
     sort_key (\<lambda>c. - c_createdAt c) (filter (\<lambda>c. includeDeleted \<or> c_deletedAt c = None) t)"

definition sql_findByClientId :: "string \<Rightarrow> bool \<Rightarrow> contract_table \<Rightarrow> contract list" where
  "sql_findByClientId clientId includeDeleted t =
     sort_key (\<lambda>c. - c_createdAt c)
       (filter (\<lambda>c. c_clientId c = clientId \<and> (includeDeleted \<or> c_deletedAt c = None)) t)"

definition sql_create ::
  "string list \<Rightarrow> string \<Rightarrow> ms \<Rightarrow> create_contract_input \<Rightarrow> contract_table
     \<Rightarrow> (repo_error, contract) result \<times> contract_table" where
  "sql_create users uuid now data t =
     (case new_contract uuid now data of
        Throw err \<Rightarrow> (Throw err, t)
      | Ok c \<Rightarrow>
          if \<not> contract_checks c then (Throw Check_Violation, t)
          else if uuid \<in> set (map c_id t) then (Throw (Unique_Violation uuid), t)
          else if c_clientId c \<notin> set users \<or> c_freelancerId c \<notin> set users
          then (Throw Foreign_Key_Violation, t)
          else (Ok c, t @ [c]))"

definition coalesce :: "'a option \<Rightarrow> 'a \<Rightarrow> 'a" where
  "coalesce x y = (case x of None \<Rightarrow> y | Some v \<Rightarrow> v)"

definition sql_set_fields :: "contract_fields \<Rightarrow> contract \<Rightarrow> contract" where
  "sql_set_fields f c =
     c\<lparr>c_title := coalesce (uf_title f) (c_title c), c_status := coalesce (uf_status f) (c_status c),
       c_amount := coalesce (uf_amount f) (c_amount c),
       c_freelancerId := coalesce (uf_freelancerId f) (c_freelancerId c), c_version := c_version c + 1\<rparr>"

text \<open>\<open>UPDATE ... SET ... WHERE\<close>: the new table and the number of changed rows.\<close>

definition sql_update :: "(contract \<Rightarrow> bool) \<Rightarrow> (contract \<Rightarrow> contract) \<Rightarrow> contract_table \<Rightarrow> nat \<times> contract_table" where
  "sql_update P f t = (length (filter P t), map (\<lambda>c. if P c then f c else c) t)"

text \<open>An \<open>UPDATE\<close> of the columns that carry constraints tests the changed rows.\<close>

definition sql_update_checked ::
  "string list \<Rightarrow> (contract \<Rightarrow> bool) \<Rightarrow> (contract \<Rightarrow> contract) \<Rightarrow> contract_table
     \<Rightarrow> (repo_error, nat) result \<times> contract_table" where
  "sql_update_checked users P f t =
     (let rows = map f (filter P t)
      in if list_ex (\<lambda>c. \<not> contract_checks c) rows then (Throw Check_Violation, t)
         else if list_ex (\<lambda>c. c_freelancerId c \<notin> set users) rows then (Throw Foreign_Key_Violation, t)
         else (Ok (fst (sql_update P f t)), snd (sql_update P f t)))"

definition sql_update_finish ::
  "string list \<Rightarrow> string \<Rightarrow> contract_fields \<Rightarrow> int \<Rightarrow> contract_table
     \<Rightarrow> (repo_error, contract) result \<times> contract_table" where
  "sql_update_finish users i flds expectedVersion t =
     (case sql_update_checked users
             (\<lambda>c. c_id c = i \<and> c_version c = expectedVersion \<and> c_deletedAt c = None) (sql_set_fields flds) t of
        (Throw err, t') \<Rightarrow> (Throw err, t')
      | (Ok changes, t') \<Rightarrow>
          if changes = 0 then (Throw Version_Conflict, t')
          else case sql_findById i False t' of
                 None \<Rightarrow> (Throw (Contract_Not_Found i), t')
               | Some c \<Rightarrow> (Ok c, t'))"

definition sql_updateWithVersion ::
  "string list \<Rightarrow> string \<Rightarrow> contract_fields \<Rightarrow> int \<Rightarrow> contract_table
     \<Rightarrow> (repo_error, contract) result \<times> contract_table" where
  "sql_updateWithVersion users i flds expectedVersion t =
     (case sql_findById i False t of
        None \<Rightarrow> (Throw (Contract_Not_Found i), t)
      | Some existing \<Rightarrow> sql_update_finish users i flds expectedVersion t)"

definition sql_delete :: "string \<Rightarrow> ms \<Rightarrow> contract_table \<Rightarrow> bool \<times> contract_table" where
  "sql_delete i now t =
     (let (changes, t') = sql_update (\<lambda>c. c_id c = i \<and> c_deletedAt c = None) (\<lambda>c. c\<lparr>c_deletedAt := Some now\<rparr>) t
      in (changes > 0, t'))"

definition sql_restore ::
  "int \<Rightarrow> string \<Rightarrow> ms \<Rightarrow> contract_table \<Rightarrow> (repo_error, contract) result \<times> contract_table" where
  "sql_restore retentionDays i now t =
     (case sql_findById i True t of
        None \<Rightarrow> (Throw (Contract_Not_Found i), t)
      | Some existing \<Rightarrow>
          (case c_deletedAt existing of
             None \<Rightarrow> (Throw (Contract_Not_Deleted i), t)
           | Some deletedAt \<Rightarrow>
               if isPastRetentionWindow deletedAt retentionDays now
               then (Throw (Contract_Retention_Expired i retentionDays), t)
               else let (changes, t') = sql_update (\<lambda>c. c_id c = i) (\<lambda>c. c\<lparr>c_deletedAt := None\<rparr>) t
                    in case sql_findById i True t' of
                         None \<Rightarrow> (Throw (Contract_Not_Found i), t')
                       | Some c \<Rightarrow> (Ok c, t')))"

definition sql_expired :: "int \<Rightarrow> ms \<Rightarrow> ms \<Rightarrow> bool" where
  "sql_expired retentionDays deletedAt now \<longleftrightarrow> deletedAt \<le> now - retentionDays * 24 * 60 * 60 * 1000"

definition purge_row :: "int \<Rightarrow> ms \<Rightarrow> contract \<Rightarrow> bool" where
  "purge_row retentionDays now c =
     (case c_deletedAt c of None \<Rightarrow> False | Some d \<Rightarrow> sql_expired retentionDays d now)"

definition sql_purgeExpired ::
  "string list \<Rightarrow> int \<Rightarrow> ms \<Rightarrow> contract_table \<Rightarrow> (repo_error, nat) result \<times> contract_table" where
  "sql_purgeExpired rated retentionDays now t =
     (let gone = purge_row retentionDays now
      in if list_ex (\<lambda>c. gone c \<and> c_id c \<in> set rated) t then (Throw Foreign_Key_Violation, t)
         else (Ok (length (filter gone t)), filter (\<lambda>c. \<not> gone c) t))"

definition page_key :: "contract \<Rightarrow> ms \<times> string" where
  "page_key c = (c_createdAt c, c_id c)"

text \<open>\<open>ORDER BY created_at DESC, id DESC\<close>.\<close>

definition page_order :: "contract_table \<Rightarrow> contract list" where
  "page_order t = rev (sort_key page_key t)"

definition below_cursor :: "page_cursor option \<Rightarrow> contract \<Rightarrow> bool" where
  "below_cursor cursor c \<longleftrightarrow>
     (case cursor of
        None \<Rightarrow> True
      | Some Bad_Cursor \<Rightarrow> False
      | Some (Position at i) \<Rightarrow> c_createdAt c < at \<or> (c_createdAt c = at \<and> c_id c < i))"

definition sql_findPage ::
  "int option \<Rightarrow> page_cursor option \<Rightarrow> bool \<Rightarrow> contract_table \<Rightarrow> (repo_error, contract_page) result" where
  "sql_findPage rawLimit cursor includeDeleted t =
     (case parseLimit rawLimit of
        Throw err \<Rightarrow> Throw err
      | Ok limit \<Rightarrow>
          if cursor = Some Bad_Cursor then Throw Invalid_Cursor
          else let rows = take (limit + 1)
                     (page_order (filter (\<lambda>c. below_cursor cursor c \<and> (includeDeleted \<or> c_deletedAt c = None)) t));
                   hasNextPage = length rows > limit;
                   pageRows = (if hasNextPage then take limit rows else rows);
                   nextCursor = (if hasNextPage \<and> pageRows \<noteq> []
                     then Some (page_key (pageRows ! (length pageRows - 1))) else None)
               in Ok \<lparr>pg_data = pageRows, pg_nextCursor = nextCursor, pg_hasNextPage = hasNextPage,
                      pg_limit = limit\<rparr>)"

subsection \<open>Tables with a primary key\<close>

definition table_ok :: "contract_table \<Rightarrow> bool" where
  "table_ok t \<longleftrightarrow> distinct (map c_id t)"

definition table_row :: "contract_table \<Rightarrow> string \<Rightarrow> contract option" where
  "table_row t i = find (\<lambda>c. c_id c = i) t"

lemma table_ok_Cons: "table_ok (x # t) \<longleftrightarrow> table_ok t \<and> (\<forall>c\<in>set t. c_id c \<noteq> c_id x)"
  unfolding table_ok_def by (auto simp: image_iff)

lemma table_ok_unique: "table_ok t \<Longrightarrow> x \<in> set t \<Longrightarrow> y \<in> set t \<Longrightarrow> c_id x = c_id y \<Longrightarrow> x = y"
  unfolding table_ok_def distinct_map by (auto dest: inj_onD)

lemma table_row_Some: "table_ok t \<Longrightarrow> table_row t i = Some c \<longleftrightarrow> c \<in> set t \<and> c_id c = i"
proof (induction t)
  case (Cons x t)
  then have "\<forall>c\<in>set t. c_id c \<noteq> c_id x" by (simp add: table_ok_Cons)
  with Cons show ?case by (auto simp: table_row_def table_ok_Cons)
qed (simp add: table_row_def)

lemma table_row_None: "table_row t i = None \<longleftrightarrow> (\<forall>c\<in>set t. c_id c \<noteq> i)"
  by (auto simp: table_row_def find_None_iff)

lemma find_table_row:
  assumes "table_ok t"
  shows "find (\<lambda>c. c_id c = i \<and> P c) t = (case table_row t i of None \<Rightarrow> None | Some c \<Rightarrow> if P c then Some c else None)"
  using assms
proof (induction t)
  case (Cons x t)
  show ?case
  proof (cases "c_id x = i")
    case True
    with Cons.prems have "\<forall>c\<in>set t. c_id c \<noteq> i" by (simp add: table_ok_Cons)
    then have "find (\<lambda>c. c_id c = i \<and> P c) t = None" by (auto simp: find_None_iff)
    with True show ?thesis by (simp add: table_row_def)
  next
    case False
    with Cons show ?thesis by (simp add: table_row_def table_ok_def)
  qed
qed (simp add: table_row_def)

lemma sql_findById_row:
  "table_ok t \<Longrightarrow> sql_findById i inc t =
     (case table_row t i of None \<Rightarrow> None | Some c \<Rightarrow> if inc \<or> c_deletedAt c = None then Some c else None)"
  unfolding sql_findById_def by (rule find_table_row)

lemma sql_update_ok: "table_ok t \<Longrightarrow> (\<And>c. c_id (f c) = c_id c) \<Longrightarrow> table_ok (snd (sql_update P f t))"
  by (simp add: table_ok_def sql_update_def comp_def if_distrib cong: if_cong)

lemma sql_update_row:
  assumes "table_ok t" "\<And>c. c_id (f c) = c_id c"
  shows "table_row (snd (sql_update P f t)) i = map_option (\<lambda>c. if P c then f c else c) (table_row t i)"
  using assms by (induction t) (auto simp: table_row_def table_ok_def sql_update_def)

lemma table_row_id: "table_row t i = Some c \<Longrightarrow> c_id c = i"
  by (auto simp: table_row_def find_Some_iff)

lemma sql_update_key_row:
  assumes "table_ok t" "\<And>c. c_id (f c) = c_id c"
  shows "table_row (snd (sql_update (\<lambda>c. c_id c = i \<and> P c) f t)) j =
    (if j = i then map_option (\<lambda>c. if P c then f c else c) (table_row t i) else table_row t j)"
  using sql_update_row [OF assms, of "\<lambda>c. c_id c = i \<and> P c" j] table_row_id [of t j]
  by (cases "table_row t j") auto

lemma table_filter_key:
  assumes "table_ok t"
  shows "filter (\<lambda>c. c_id c = i \<and> P c) t = (case table_row t i of None \<Rightarrow> [] | Some c \<Rightarrow> if P c then [c] else [])"
  using assms
proof (induction t)
  case (Cons x t)
  show ?case
  proof (cases "c_id x = i")
    case True
    with Cons.prems have "\<forall>c\<in>set t. c_id c \<noteq> i" by (simp add: table_ok_Cons)
    then have "filter (\<lambda>c. c_id c = i \<and> P c) t = []" by (auto simp: filter_empty_conv)
    with True show ?thesis by (simp add: table_row_def)
  next
    case False
    with Cons show ?thesis by (simp add: table_row_def table_ok_def)
  qed
qed (simp add: table_row_def)

lemma sql_update_changes:
  "table_ok t \<Longrightarrow> fst (sql_update (\<lambda>c. c_id c = i \<and> P c) f t) =
    (case table_row t i of None \<Rightarrow> 0 | Some c \<Rightarrow> if P c then 1 else 0)"
  by (simp add: sql_update_def table_filter_key split: option.split)

lemma sql_update_none:
  "table_ok t \<Longrightarrow> (case table_row t i of None \<Rightarrow> True | Some c \<Rightarrow> \<not> P c) \<Longrightarrow>
   snd (sql_update (\<lambda>c. c_id c = i \<and> P c) f t) = t"
  unfolding sql_update_def snd_conv
  by (rule map_idI)
    (auto simp: table_row_Some split: option.splits dest!: table_row_None [THEN iffD1] dest: table_ok_unique)

lemma table_row_filter:
  "table_ok t \<Longrightarrow> table_row (filter P t) i = (case table_row t i of None \<Rightarrow> None | Some c \<Rightarrow> if P c then Some c else None)"
proof (induction t)
  case (Cons x t)
  show ?case
  proof (cases "c_id x = i")
    case True
    with Cons.prems have "\<forall>c\<in>set t. c_id c \<noteq> i" by (simp add: table_ok_Cons)
    then have "table_row t i = None" "table_row (filter P t) i = None" by (auto simp: table_row_None)
    with True show ?thesis by (simp add: table_row_def)
  next
    case False
    with Cons show ?thesis by (simp add: table_row_def table_ok_def)
  qed
qed (simp add: table_row_def)

lemma table_ok_filter: "table_ok t \<Longrightarrow> table_ok (filter P t)"
  by (simp add: table_ok_def distinct_map_filter)

subsection \<open>Soft deletion in SQL\<close>

definition contract_content :: "contract \<Rightarrow> contract" where
  "contract_content c = c\<lparr>c_deletedAt := None\<rparr>"

lemma sql_restore_row:
  assumes "table_ok t" "table_row t i = Some c" "c_deletedAt c = Some d" "now \<le> d + n * day_ms"
  shows "\<exists>t'. sql_restore n i now t = (Ok (c\<lparr>c_deletedAt := None\<rparr>), t') \<and> table_ok t' \<and>
    (\<forall>j. table_row t' j = (if j = i then Some (c\<lparr>c_deletedAt := None\<rparr>) else table_row t j))"
proof -
  let ?u = "sql_update (\<lambda>c. c_id c = i) (\<lambda>c. c\<lparr>c_deletedAt := None\<rparr>) t"
  have ok: "table_ok (snd ?u)" using sql_update_ok [OF assms(1)] by simp
  have row: "table_row (snd ?u) j = (if j = i then Some (c\<lparr>c_deletedAt := None\<rparr>) else table_row t j)" for j
    using sql_update_key_row [OF assms(1), of "\<lambda>c. c\<lparr>c_deletedAt := None\<rparr>" i "\<lambda>_. True" j] assms(2)
    by simp
  have "sql_restore n i now t = (Ok (c\<lparr>c_deletedAt := None\<rparr>), snd ?u)"
    using assms ok row by (simp add: sql_restore_def sql_findById_row retention_defs case_prod_unfold)
  with ok row show ?thesis by blast
qed

lemma sql_delete_row:
  assumes "table_ok t" "table_row t i = Some c" "c_deletedAt c = None"
  shows "\<exists>t'. sql_delete i now t = (True, t') \<and> table_ok t' \<and>
    (\<forall>j. table_row t' j = (if j = i then Some (c\<lparr>c_deletedAt := Some now\<rparr>) else table_row t j))"
proof -
  let ?u = "sql_update (\<lambda>c. c_id c = i \<and> c_deletedAt c = None) (\<lambda>c. c\<lparr>c_deletedAt := Some now\<rparr>) t"
  have "table_ok (snd ?u)" using sql_update_ok [OF assms(1)] by simp
  moreover have "table_row (snd ?u) j = (if j = i then Some (c\<lparr>c_deletedAt := Some now\<rparr>) else table_row t j)" for j
    using sql_update_key_row [OF assms(1), of "\<lambda>c. c\<lparr>c_deletedAt := Some now\<rparr>" i "\<lambda>c. c_deletedAt c = None" j] assms
    by simp
  moreover have "sql_delete i now t = (True, snd ?u)"
    using sql_update_changes [OF assms(1), of i "\<lambda>c. c_deletedAt c = None"] assms
    by (simp add: sql_delete_def case_prod_unfold)
  ultimately show ?thesis by blast
qed

lemma sql_delete_none:
  assumes "table_ok t" "\<forall>c. table_row t i = Some c \<longrightarrow> c_deletedAt c \<noteq> None"
  shows "sql_delete i now t = (False, t)"
  using sql_update_changes [OF assms(1), of i "\<lambda>c. c_deletedAt c = None"]
    sql_update_none [OF assms(1), where P = "\<lambda>c. c_deletedAt c = None" and i = i] assms(2)
  by (auto simp: sql_delete_def case_prod_unfold split: option.splits)

lemma sql_purge_blocked:
  "list_ex (\<lambda>c. purge_row n now c \<and> c_id c \<in> set rated) t \<Longrightarrow>
   sql_purgeExpired rated n now t = (Throw Foreign_Key_Violation, t)"
  by (simp add: sql_purgeExpired_def)

interpretation sql_contracts: soft_delete_store
  table_row c_deletedAt contract_content table_ok "\<lambda>i t. sql_findById i False t" sql_delete
  "\<lambda>n i now t. (\<not> isl (fst (sql_restore n i now t)), snd (sql_restore n i now t))"
  "\<lambda>n now t. snd (sql_purgeExpired rated n now t)" sql_expired
  "\<lambda>n now t. list_ex (\<lambda>c. purge_row n now c \<and> c_id c \<in> set rated) t" for rated
proof unfold_locales
  fix s :: contract_table and k
  assume "table_ok s"
  then show "sql_findById k False s = (case table_row s k of None \<Rightarrow> None
      | Some r \<Rightarrow> if c_deletedAt r = None then Some r else None)"
    by (simp add: sql_findById_row split: option.split)
next
  fix s :: contract_table and k r t
  assume "table_ok s" "table_row s k = Some r" "c_deletedAt r = None"
  then show "\<exists>s' r'. sql_delete k t s = (True, s') \<and> table_ok s' \<and> table_row s' k = Some r' \<and>
      c_deletedAt r' = Some t \<and> contract_content r' = contract_content r \<and>
      (\<forall>k'. k' \<noteq> k \<longrightarrow> table_row s' k' = table_row s k')"
    using sql_delete_row [of s k r t] by (fastforce simp: contract_content_def)
next
  fix s :: contract_table and k t
  assume "table_ok s" "\<forall>r. table_row s k = Some r \<longrightarrow> c_deletedAt r \<noteq> None"
  then show "sql_delete k t s = (False, s)" by (rule sql_delete_none)
next
  fix s :: contract_table and k r d t n
  assume "table_ok s" "table_row s k = Some r" "c_deletedAt r = Some d" "t \<le> d + n * day_ms"
  then show "\<exists>s' r'. (\<not> isl (fst (sql_restore n k t s)), snd (sql_restore n k t s)) = (True, s') \<and>
      table_ok s' \<and> table_row s' k = Some r' \<and> c_deletedAt r' = None \<and>
      contract_content r' = contract_content r \<and> (\<forall>k'. k' \<noteq> k \<longrightarrow> table_row s' k' = table_row s k')"
    using sql_restore_row [of s k r d t n] by (fastforce simp: contract_content_def)
next
  fix s :: contract_table and k n t
  assume "table_ok s" "\<forall>r d. table_row s k = Some r \<and> c_deletedAt r = Some d \<longrightarrow> d + n * day_ms < t"
  then show "(\<not> isl (fst (sql_restore n k t s)), snd (sql_restore n k t s)) = (False, s)"
    by (fastforce simp: sql_restore_def sql_findById_row retention_defs split: option.splits)
qed (auto simp: sql_purgeExpired_def purge_row_def sql_expired_def table_ok_filter table_row_filter Let_def
    split: option.splits)


definition draft_contract :: contract where
  "draft_contract = \<lparr>c_id = ''c-1'', c_title = ''Site'', c_clientId = ''u-1'', c_freelancerId = ''u-2'', c_amount = 100,
     c_status = ''draft'', c_version = 0, c_createdAt = 0, c_deletedAt = None\<rparr>"


text \<open>
  One rated contract past its window blocks the purge of every other one: the
  \<open>DELETE\<close> fails as a whole.
\<close>

theorem rated_contract_blocks_purge:
  "let t = [draft_contract\<lparr>c_deletedAt := Some 0\<rparr>, draft_contract\<lparr>c_id := ''c-2'', c_deletedAt := Some 0\<rparr>]
   in sql_purgeExpired [''c-2''] 30 (31 * 86400000) t = (Throw Foreign_Key_Violation, t) \<and>
      sql_purgeExpired [] 30 (31 * 86400000) t = (Ok 2, [])"
  by (simp add: sql_purgeExpired_def purge_row_def sql_expired_def draft_contract_def)

text \<open>
  At the last instant of the window the two agree no longer: a restore is still
  accepted while a purge at the same instant already removes the row (the other
  stores keep it).
\<close>

theorem sql_purge_boundary:
  "let t = [draft_contract\<lparr>c_deletedAt := Some 0\<rparr>]; now = 30 * 86400000
   in isWithinRetentionWindow 0 30 now \<and> (\<exists>c t'. sql_restore 30 ''c-1'' now t = (Ok c, t')) \<and>
      snd (sql_purgeExpired [] 30 now t) = []"
  by (simp add: sql_restore_def sql_findById_def sql_update_def sql_purgeExpired_def purge_row_def sql_expired_def
      retention_defs draft_contract_def)

subsection \<open>Optimistic concurrency control\<close>

fun run_commits ::
  "('k \<Rightarrow> 'f \<Rightarrow> int \<Rightarrow> 's \<Rightarrow> ('e, 'r) result \<times> 's) \<Rightarrow> 'k \<Rightarrow> ('k \<times> 'f \<times> int) list \<Rightarrow> 's \<Rightarrow> int list \<times> 's" where
  "run_commits commit k [] s = ([], s)"
| "run_commits commit k ((j, f, v) # cs) s =
     (let (r, s') = commit j f v s; (vs, s'') = run_commits commit k cs s'
      in (if j = k \<and> \<not> isl r then v # vs else vs, s''))"

locale versioned_store =
  fixes get :: "'s \<Rightarrow> 'k \<Rightarrow> 'r option"
    and ver :: "'r \<Rightarrow> int"
    and ok :: "'s \<Rightarrow> bool"
    and commit :: "'k \<Rightarrow> 'f \<Rightarrow> int \<Rightarrow> 's \<Rightarrow> ('e, 'r) result \<times> 's"
    and allowed :: "'f \<Rightarrow> 'r \<Rightarrow> bool"
  assumes commit_current: "\<lbrakk>ok s; get s k = Some r; ver r = v; allowed f r\<rbrakk> \<Longrightarrow>
      \<exists>s' r'. commit k f v s = (Ok r', s') \<and> ok s' \<and> get s' k = Some r' \<and> ver r' = v + 1 \<and>
        (\<forall>k'. k' \<noteq> k \<longrightarrow> get s' k' = get s k')"
    and commit_refused: "\<lbrakk>ok s; \<forall>r. get s k = Some r \<longrightarrow> ver r \<noteq> v \<or> \<not> allowed f r\<rbrakk> \<Longrightarrow>
      \<exists>e. commit k f v s = (Throw e, s)"
begin

text \<open>The versions at which updates of one record are accepted are consecutive.\<close>

lemma commits_serial:
  assumes "ok s" "get s k = Some r" "run_commits commit k cs s = (vs, s')"
  shows "vs = map (\<lambda>n. ver r + int n) [0..<length vs] \<and> ok s' \<and>
    (\<exists>r'. get s' k = Some r' \<and> ver r' = ver r + int (length vs))"
  using assms
proof (induction cs arbitrary: s r vs)
  case Nil
  then show ?case by auto
next
  case (Cons c cs)
  obtain j f v where c: "c = (j, f, v)" using prod_cases3 by blast
  obtain x s1 where com: "commit j f v s = (x, s1)" by fastforce
  obtain ws where ws: "run_commits commit k cs s1 = (ws, s')"
    "vs = (if j = k \<and> \<not> isl x then v # ws else ws)"
    using Cons.prems(3) by (auto simp: c com Let_def split: prod.splits)
  show ?case
  proof (cases "\<exists>q. get s j = Some q \<and> ver q = v \<and> allowed f q")
    case False
    then have "s1 = s" "isl x" using commit_refused [OF Cons.prems(1), of j v f] com by auto
    with Cons.IH [OF Cons.prems(1,2)] ws show ?thesis by simp
  next
    case True
    then obtain q s2 q' where q: "get s j = Some q" "ver q = v" "commit j f v s = (Ok q', s2)" "ok s2"
      "get s2 j = Some q'" "ver q' = v + 1" "\<forall>k'. k' \<noteq> j \<longrightarrow> get s2 k' = get s k'"
      using commit_current [OF Cons.prems(1), of j _ v f] by blast
    then have x: "x = Ok q'" "s1 = s2" using com by auto
    show ?thesis
    proof (cases "j = k")
      case True
      then have "vs = v # ws" "v = ver r" using ws x q Cons.prems(2) by auto
      moreover have "ws = map (\<lambda>n. (v + 1) + int n) [0..<length ws]" "ok s'"
        "\<exists>r'. get s' k = Some r' \<and> ver r' = (v + 1) + int (length ws)"
        using Cons.IH [of s2 q' ws] q True ws x by auto
      moreover have "map (\<lambda>n. v + int n) [0..<Suc m] = v # map (\<lambda>n. (v + 1) + int n) [0..<m]" for m
        by (induction m) auto
      ultimately show ?thesis by auto
    next
      case False
      then have "get s2 k = Some r" using q Cons.prems(2) by simp
      with Cons.IH [of s2 r ws] q ws x False show ?thesis by simp
    qed
  qed
qed

end

text \<open>What the constraints of the table say of an updated row.\<close>

definition update_allowed :: "string list \<Rightarrow> contract_fields \<Rightarrow> contract \<Rightarrow> bool" where
  "update_allowed users f c \<longleftrightarrow>
     contract_checks (sql_set_fields f c) \<and> c_freelancerId (sql_set_fields f c) \<in> set users"

lemma sql_update_checked_row:
  assumes "table_ok t"
  shows "sql_update_checked users (\<lambda>c. c_id c = i \<and> P c) f t =
    (case table_row t i of
       None \<Rightarrow> (Ok 0, t)
     | Some c \<Rightarrow>
         if \<not> P c then (Ok 0, t)
         else if \<not> contract_checks (f c) then (Throw Check_Violation, t)
         else if c_freelancerId (f c) \<notin> set users then (Throw Foreign_Key_Violation, t)
         else (Ok 1, snd (sql_update (\<lambda>c. c_id c = i \<and> P c) f t)))"
proof -
  have "snd (sql_update (\<lambda>c. c_id c = i \<and> P c) f t) = t"
    if "case table_row t i of None \<Rightarrow> True | Some c \<Rightarrow> \<not> P c"
    using sql_update_none [OF assms that] by simp
  then show ?thesis
    by (auto simp: sql_update_checked_def table_filter_key [OF assms] sql_update_changes [OF assms]
        Let_def split: option.splits)
qed

lemma sql_update_finish_row:
  assumes "table_ok t"
  shows "sql_update_finish users i f v t =
    (case sql_findById i False t of
       None \<Rightarrow> (Throw Version_Conflict, t)
     | Some c \<Rightarrow>
         if c_version c \<noteq> v then (Throw Version_Conflict, t)
         else if \<not> contract_checks (sql_set_fields f c) then (Throw Check_Violation, t)
         else if c_freelancerId (sql_set_fields f c) \<notin> set users then (Throw Foreign_Key_Violation, t)
         else (Ok (sql_set_fields f c), snd (sql_update
           (\<lambda>c. c_id c = i \<and> c_version c = v \<and> c_deletedAt c = None) (sql_set_fields f) t)))"
proof -
  let ?P = "\<lambda>c. c_version c = v \<and> c_deletedAt c = None"
  have ids: "c_id (sql_set_fields f c) = c_id c" "c_deletedAt (sql_set_fields f c) = c_deletedAt c" for c
    by (simp_all add: sql_set_fields_def)
  have "table_ok (snd (sql_update (\<lambda>c. c_id c = i \<and> ?P c) (sql_set_fields f) t))"
    by (rule sql_update_ok [OF assms ids(1)])
  moreover note sql_update_key_row [OF assms ids(1), of i ?P i]
  ultimately show ?thesis
    by (auto simp: sql_update_finish_def sql_update_checked_row [OF assms] sql_findById_row [OF assms]
        sql_findById_row ids split: option.splits)
qed

lemma sql_update_finish_current:
  assumes "table_ok t" "sql_findById i False t = Some c" "c_version c = v" "update_allowed users f c"
  shows "\<exists>t'. sql_update_finish users i f v t = (Ok (sql_set_fields f c), t') \<and> table_ok t' \<and>
    (\<forall>j. table_row t' j = (if j = i then Some (sql_set_fields f c) else table_row t j))"
proof -
  let ?P = "\<lambda>c. c_version c = v \<and> c_deletedAt c = None"
  have ids: "c_id (sql_set_fields f c) = c_id c" for c by (simp add: sql_set_fields_def)
  have row: "table_row t i = Some c" "c_deletedAt c = None"
    using assms(1,2) by (auto simp: sql_findById_row split: option.splits if_splits)
  show ?thesis
    using sql_update_finish_row [OF assms(1), of users i f v] assms(2-4) row
      sql_update_ok [OF assms(1) ids] sql_update_key_row [OF assms(1) ids, of i ?P]
    by (simp add: update_allowed_def)
qed

lemma sql_update_finish_refused:
  assumes "table_ok t" "\<forall>c. sql_findById i False t = Some c \<longrightarrow> c_version c \<noteq> v \<or> \<not> update_allowed users f c"
  shows "\<exists>err. sql_update_finish users i f v t = (Throw err, t)"
  using assms(2) by (auto simp: sql_update_finish_row [OF assms(1)] update_allowed_def split: option.splits)

interpretation sql_occ: versioned_store "\<lambda>t i. sql_findById i False t" c_version table_ok
  "sql_update_finish users" "update_allowed users" for users
proof unfold_locales
  fix s :: contract_table and k r v f
  assume s: "table_ok s" "sql_findById k False s = Some r" "c_version r = v" "update_allowed users f r"
  then have r: "c_deletedAt r = None"
    by (auto simp: sql_findById_row split: option.splits if_splits)
  obtain t' where t': "sql_update_finish users k f v s = (Ok (sql_set_fields f r), t')" "table_ok t'"
    "\<forall>j. table_row t' j = (if j = k then Some (sql_set_fields f r) else table_row s j)"
    using sql_update_finish_current [OF s] by blast
  with r s show "\<exists>s' r'. sql_update_finish users k f v s = (Ok r', s') \<and> table_ok s' \<and>
      sql_findById k False s' = Some r' \<and> c_version r' = v + 1 \<and>
      (\<forall>k'. k' \<noteq> k \<longrightarrow> sql_findById k' False s' = sql_findById k' False s)"
    by (auto simp: sql_findById_row sql_set_fields_def)
qed (rule sql_update_finish_refused)


definition rename_to :: "string \<Rightarrow> contract_fields" where
  "rename_to n = \<lparr>uf_title = Some n, uf_status = None, uf_amount = None, uf_freelancerId = None\<rparr>"

definition three_writers :: "(string \<times> contract_fields \<times> int) list" where
  "three_writers = [(''c-1'', rename_to ''A'', 0), (''c-1'', rename_to ''B'', 0), (''c-1'', rename_to ''C'', 1)]"


subsection \<open>The in-memory repository\<close>

record mem_repo =
  mr_contracts :: "(string, nat) jsmap"
  mr_heap :: "contract list"
  mr_insertionSeq :: int
  mr_insertionOrder :: "(string, int) jsmap"

definition new_mem_repo :: mem_repo where
  "new_mem_repo = \<lparr>mr_contracts = map_empty, mr_heap = [], mr_insertionSeq = 0, mr_insertionOrder = map_empty\<rparr>"

definition mem_create ::
  "string \<Rightarrow> ms \<Rightarrow> create_contract_input \<Rightarrow> mem_repo \<Rightarrow> (repo_error, contract) result \<times> mem_repo" where
  "mem_create uuid now data m =
     (case new_contract uuid now data of
        Throw err \<Rightarrow> (Throw err, m)
      | Ok c \<Rightarrow> (Ok c, m\<lparr>mr_contracts := map_set uuid (length (mr_heap m)) (mr_contracts m),
                        mr_heap := mr_heap m @ [c],
                        mr_insertionOrder := map_set uuid (mr_insertionSeq m) (mr_insertionOrder m),
                        mr_insertionSeq := mr_insertionSeq m + 1\<rparr>))"

text \<open>The reference \<open>findById\<close> returns; \<open>undefined\<close> is \<^const>\<open>None\<close>.\<close>

definition mem_findById :: "string \<Rightarrow> bool \<Rightarrow> mem_repo \<Rightarrow> nat option" where
  "mem_findById i includeDeleted m =
     (case map_get (mr_contracts m) i of
        None \<Rightarrow> None
      | Some a \<Rightarrow> if \<not> includeDeleted \<and> isSoftDeleted (c_deletedAt (mr_heap m ! a)) then None else Some a)"

definition mem_findAll :: "bool \<Rightarrow> mem_repo \<Rightarrow> contract list" where
  "mem_findAll includeDeleted m =
     (let order = (\<lambda>c. case map_get (mr_insertionOrder m) (c_id c) of None \<Rightarrow> 0 | Some n \<Rightarrow> n);
          all = sort_key (\<lambda>c. (- c_createdAt c, - order c)) (map (\<lambda>a. mr_heap m ! a) (map_values (mr_contracts m)))
      in if includeDeleted then all else filterNotDeleted c_deletedAt all)"

definition mem_findByClientId :: "string \<Rightarrow> bool \<Rightarrow> mem_repo \<Rightarrow> contract list" where
  "mem_findByClientId clientId includeDeleted m =
     (let all = filter (\<lambda>c. c_clientId c = clientId) (map (\<lambda>a. mr_heap m ! a) (map_values (mr_contracts m)))
      in if includeDeleted then all else filterNotDeleted c_deletedAt all)"

definition mem_findPage ::
  "int option \<Rightarrow> page_cursor option \<Rightarrow> bool \<Rightarrow> mem_repo \<Rightarrow> (repo_error, contract_page) result" where
  "mem_findPage rawLimit cursor includeDeleted m =
     (case parseLimit rawLimit of
        Throw err \<Rightarrow> Throw err
      | Ok limit \<Rightarrow>
          if cursor = Some Bad_Cursor then Throw Invalid_Cursor
          else let sorted = filter (below_cursor cursor) (mem_findAll includeDeleted m);
                   data = take limit sorted;
                   hasNextPage = length sorted > limit;
                   nextCursor = (if hasNextPage \<and> data \<noteq> [] then Some (page_key (data ! (length data - 1))) else None)
               in Ok \<lparr>pg_data = data, pg_nextCursor = nextCursor, pg_hasNextPage = hasNextPage, pg_limit = limit\<rparr>)"

definition spread_fields :: "contract_fields \<Rightarrow> contract \<Rightarrow> contract" where
  "spread_fields f c =
     c\<lparr>c_title := (case uf_title f of None \<Rightarrow> c_title c | Some x \<Rightarrow> x),
       c_status := (case uf_status f of None \<Rightarrow> c_status c | Some x \<Rightarrow> x),
       c_amount := (case uf_amount f of None \<Rightarrow> c_amount c | Some x \<Rightarrow> x),
       c_freelancerId := (case uf_freelancerId f of None \<Rightarrow> c_freelancerId c | Some x \<Rightarrow> x)\<rparr>"

text \<open>The second half of \<open>updateWithVersion\<close>, with the reference \<open>a\<close> that the first half fetched.\<close>

definition mem_update_finish ::
  "nat \<Rightarrow> string \<Rightarrow> contract_fields \<Rightarrow> int \<Rightarrow> mem_repo \<Rightarrow> (repo_error, contract) result \<times> mem_repo" where
  "mem_update_finish a i flds expectedVersion m =
     (let existing = mr_heap m ! a
      in if c_version existing \<noteq> expectedVersion then (Throw Version_Conflict, m)
         else let updated = (spread_fields flds existing)\<lparr>c_version := c_version existing + 1\<rparr>
              in (Ok updated, m\<lparr>mr_contracts := map_set i (length (mr_heap m)) (mr_contracts m),
                                mr_heap := mr_heap m @ [updated]\<rparr>))"

definition mem_updateWithVersion ::
  "string \<Rightarrow> contract_fields \<Rightarrow> int \<Rightarrow> mem_repo \<Rightarrow> (repo_error, contract) result \<times> mem_repo" where
  "mem_updateWithVersion i flds expectedVersion m =
     (case mem_findById i False m of
        None \<Rightarrow> (Throw (Contract_Not_Found i), m)
      | Some a \<Rightarrow> mem_update_finish a i flds expectedVersion m)"

definition mem_delete :: "string \<Rightarrow> ms \<Rightarrow> mem_repo \<Rightarrow> bool \<times> mem_repo" where
  "mem_delete i now m =
     (case map_get (mr_contracts m) i of
        None \<Rightarrow> (False, m)
      | Some a \<Rightarrow>
          if isSoftDeleted (c_deletedAt (mr_heap m ! a)) then (False, m)
          else (True, m\<lparr>mr_heap := (mr_heap m)[a := (mr_heap m ! a)\<lparr>c_deletedAt := Some now\<rparr>]\<rparr>))"

definition mem_restore :: "int \<Rightarrow> string \<Rightarrow> ms \<Rightarrow> mem_repo \<Rightarrow> (repo_error, contract) result \<times> mem_repo" where
  "mem_restore retentionDays i now m =
     (case map_get (mr_contracts m) i of
        None \<Rightarrow> (Throw (Contract_Not_Found i), m)
      | Some a \<Rightarrow>
          (case c_deletedAt (mr_heap m ! a) of
             None \<Rightarrow> (Throw (Contract_Not_Deleted i), m)
           | Some deletedAt \<Rightarrow>
               if isPastRetentionWindow deletedAt retentionDays now
               then (Throw (Contract_Retention_Expired i retentionDays), m)
               else let c = (mr_heap m ! a)\<lparr>c_deletedAt := None\<rparr>
                    in (Ok c, m\<lparr>mr_heap := (mr_heap m)[a := c]\<rparr>)))"

definition mem_purgeExpired :: "int \<Rightarrow> ms \<Rightarrow> mem_repo \<Rightarrow> nat \<times> mem_repo" where
  "mem_purgeExpired retentionDays now m =
     (let gone = (\<lambda>i a. case c_deletedAt (mr_heap m ! a) of
                    None \<Rightarrow> False | Some deletedAt \<Rightarrow> isPastRetentionWindow deletedAt retentionDays now);
          (contracts, purged) = map_reap gone (mr_contracts m);
          ids = map fst (filter (\<lambda>(i, a). gone i a) (mr_contracts m))
      in (purged, m\<lparr>mr_contracts := contracts, mr_insertionOrder := fold map_delete ids (mr_insertionOrder m)\<rparr>))"

definition mem_clear :: "mem_repo \<Rightarrow> mem_repo" where
  "mem_clear m = m\<lparr>mr_contracts := map_empty, mr_insertionOrder := map_empty, mr_insertionSeq := 0\<rparr>"

definition mem_row :: "mem_repo \<Rightarrow> string \<Rightarrow> contract option" where
  "mem_row m i = map_option (\<lambda>a. mr_heap m ! a) (map_get (mr_contracts m) i)"

definition mem_ok :: "mem_repo \<Rightarrow> bool" where
  "mem_ok m \<longleftrightarrow> map_wf (mr_contracts m) \<and>
     (\<forall>i a. map_get (mr_contracts m) i = Some a \<longrightarrow> a < length (mr_heap m)) \<and>
     (\<forall>i j a. map_get (mr_contracts m) i = Some a \<and> map_get (mr_contracts m) j = Some a \<longrightarrow> i = j)"

lemma mem_write_row:
  assumes "mem_ok m" "map_get (mr_contracts m) i = Some a"
  shows "mem_ok (m\<lparr>mr_heap := (mr_heap m)[a := c]\<rparr>)"
    and "mem_row (m\<lparr>mr_heap := (mr_heap m)[a := c]\<rparr>) j = (if j = i then Some c else mem_row m j)"
proof -
  show "mem_ok (m\<lparr>mr_heap := (mr_heap m)[a := c]\<rparr>)"
    using assms(1) unfolding mem_ok_def by simp
  have "a < length (mr_heap m)" using assms by (auto simp: mem_ok_def)
  moreover have "map_get (mr_contracts m) j \<noteq> Some a" if "j \<noteq> i"
    using assms that by (auto simp: mem_ok_def)
  ultimately show "mem_row (m\<lparr>mr_heap := (mr_heap m)[a := c]\<rparr>) j = (if j = i then Some c else mem_row m j)"
    using assms(2) by (cases "map_get (mr_contracts m) j") (auto simp: mem_row_def)
qed

lemma mem_alloc_row:
  assumes "mem_ok m"
    and "m' = m\<lparr>mr_contracts := map_set i (length (mr_heap m)) (mr_contracts m), mr_heap := mr_heap m @ [c]\<rparr>"
  shows "mem_ok m'" "mem_row m' j = (if j = i then Some c else mem_row m j)"
proof -
  have lt: "map_get (mr_contracts m) j = Some a \<Longrightarrow> a < length (mr_heap m)" for j a
    using assms(1) by (auto simp: mem_ok_def)
  show "mem_ok m'" unfolding mem_ok_def assms(2)
    using assms(1) lt by (auto simp: mem_ok_def less_Suc_eq split: if_splits)
  show "mem_row m' j = (if j = i then Some c else mem_row m j)"
    using lt [of j] by (cases "map_get (mr_contracts m) j") (auto simp: mem_row_def assms(2) nth_append)
qed

definition mem_fetch :: "string \<Rightarrow> mem_repo \<Rightarrow> contract option" where
  "mem_fetch i m = map_option (\<lambda>a. mr_heap m ! a) (mem_findById i False m)"

lemma mem_fetch_row:
  "mem_fetch i m = (case mem_row m i of None \<Rightarrow> None | Some c \<Rightarrow> if c_deletedAt c = None then Some c else None)"
  by (auto simp: mem_fetch_def mem_findById_def mem_row_def isSoftDeleted_def split: option.split)

lemma mem_purge:
  assumes "mem_ok m"
  shows "mem_ok (snd (mem_purgeExpired n now m))"
    and "mem_row (snd (mem_purgeExpired n now m)) i = (case mem_row m i of None \<Rightarrow> None
      | Some c \<Rightarrow> (case c_deletedAt c of None \<Rightarrow> Some c | Some d \<Rightarrow> if isPastRetentionWindow d n now then None else Some c))"
proof -
  have wf: "map_wf (mr_contracts m)" using assms by (simp add: mem_ok_def)
  show "mem_row (snd (mem_purgeExpired n now m)) i = (case mem_row m i of None \<Rightarrow> None
      | Some c \<Rightarrow> (case c_deletedAt c of None \<Rightarrow> Some c | Some d \<Rightarrow> if isPastRetentionWindow d n now then None else Some c))"
    by (auto simp: mem_purgeExpired_def mem_row_def map_get_reap [OF wf] Let_def case_prod_unfold split: option.split)
  show "mem_ok (snd (mem_purgeExpired n now m))"
    using assms by (auto simp: mem_purgeExpired_def mem_ok_def map_get_reap [OF wf] Let_def case_prod_unfold
        split: option.splits if_splits)
qed

interpretation mem_contracts: exact_soft_delete_store
  mem_row c_deletedAt contract_content mem_ok mem_fetch mem_delete
  "\<lambda>n i now m. (\<not> isl (fst (mem_restore n i now m)), snd (mem_restore n i now m))"
  "\<lambda>n now m. snd (mem_purgeExpired n now m)" "\<lambda>n d now. isPastRetentionWindow d n now" "\<lambda>_ _ _. False"
proof unfold_locales
  fix s :: mem_repo and k r t
  assume s: "mem_ok s" "mem_row s k = Some r" "c_deletedAt r = None"
  then obtain a where a: "map_get (mr_contracts s) k = Some a" "mr_heap s ! a = r" by (auto simp: mem_row_def)
  with s mem_write_row [OF s(1) a(1), of "r\<lparr>c_deletedAt := Some t\<rparr>"]
  show "\<exists>s' r'. mem_delete k t s = (True, s') \<and> mem_ok s' \<and> mem_row s' k = Some r' \<and>
      c_deletedAt r' = Some t \<and> contract_content r' = contract_content r \<and>
      (\<forall>k'. k' \<noteq> k \<longrightarrow> mem_row s' k' = mem_row s k')"
    by (auto simp: mem_delete_def isSoftDeleted_def contract_content_def)
next
  fix s :: mem_repo and k t
  assume "\<forall>r. mem_row s k = Some r \<longrightarrow> c_deletedAt r \<noteq> None"
  then show "mem_delete k t s = (False, s)"
    by (auto simp: mem_delete_def mem_row_def isSoftDeleted_def split: option.split)
next
  fix s :: mem_repo and k r d t n
  assume s: "mem_ok s" "mem_row s k = Some r" "c_deletedAt r = Some d" "t \<le> d + n * day_ms"
  then obtain a where a: "map_get (mr_contracts s) k = Some a" "mr_heap s ! a = r" by (auto simp: mem_row_def)
  with s mem_write_row [OF s(1) a(1), of "r\<lparr>c_deletedAt := None\<rparr>"]
  show "\<exists>s' r'. (\<not> isl (fst (mem_restore n k t s)), snd (mem_restore n k t s)) = (True, s') \<and>
      mem_ok s' \<and> mem_row s' k = Some r' \<and> c_deletedAt r' = None \<and>
      contract_content r' = contract_content r \<and> (\<forall>k'. k' \<noteq> k \<longrightarrow> mem_row s' k' = mem_row s k')"
    by (auto simp: mem_restore_def retention_defs contract_content_def)
next
  fix s :: mem_repo and k n t
  assume "\<forall>r d. mem_row s k = Some r \<and> c_deletedAt r = Some d \<longrightarrow> d + n * day_ms < t"
  then show "(\<not> isl (fst (mem_restore n k t s)), snd (mem_restore n k t s)) = (False, s)"
    by (auto simp: mem_restore_def mem_row_def retention_defs split: option.split)
qed (auto simp: mem_purge retention_defs mem_fetch_row)

text \<open>Run without interleaving, the in-memory update keeps the same contract as the database's.\<close>

interpretation mem_occ: versioned_store "\<lambda>m i. mem_fetch i m" c_version mem_ok mem_updateWithVersion
  "\<lambda>_ _. True"
proof unfold_locales
  fix s :: mem_repo and k r v f
  assume s: "mem_ok s" "mem_fetch k s = Some r" "c_version r = v"
  then obtain a where a: "mem_findById k False s = Some a" "mr_heap s ! a = r" "c_deletedAt r = None"
    by (auto simp: mem_fetch_def mem_findById_def isSoftDeleted_def split: option.splits if_splits)
  let ?u = "(spread_fields f r)\<lparr>c_version := c_version r + 1\<rparr>"
  have "c_deletedAt ?u = None" using a(3) by (simp add: spread_fields_def)
  with s a mem_alloc_row [OF s(1) refl, where i = k and c = ?u]
  show "\<exists>s' r'. mem_updateWithVersion k f v s = (Ok r', s') \<and> mem_ok s' \<and> mem_fetch k s' = Some r' \<and>
      c_version r' = v + 1 \<and> (\<forall>k'. k' \<noteq> k \<longrightarrow> mem_fetch k' s' = mem_fetch k' s)"
    by (auto simp: mem_updateWithVersion_def mem_update_finish_def mem_fetch_row Let_def)
next
  fix s :: mem_repo and k v f
  assume "\<forall>r. mem_fetch k s = Some r \<longrightarrow> c_version r \<noteq> v \<or> \<not> True"
  then show "\<exists>e. mem_updateWithVersion k f v s = (Throw e, s)"
    by (auto simp: mem_updateWithVersion_def mem_update_finish_def mem_fetch_def split: option.split)
qed

text \<open>
  Interleaved, it does not: the reference fetched before the \<open>await\<close> still shows
  the old version, so two writers that saw version 0 are both accepted and the
  first one's change is lost.
\<close>

theorem mem_lost_update:
  "\<exists>m a c1 m1 c2 m2.
     mem_findById ''c-1'' False m = Some a \<and>
     mem_update_finish a ''c-1'' (rename_to ''A'') 0 m = (Ok c1, m1) \<and>
     mem_update_finish a ''c-1'' (rename_to ''B'') 0 m1 = (Ok c2, m2) \<and>
     c_version c1 = 1 \<and> c_version c2 = 1 \<and>
     mem_fetch ''c-1'' m2 = Some c2 \<and> c_title c2 = ''B''"
proof -
  let ?m = "new_mem_repo\<lparr>mr_contracts := [(''c-1'', 0)], mr_heap := [draft_contract]\<rparr>"
  show ?thesis
    by (rule exI [of _ ?m], rule exI [of _ 0])
      (simp add: mem_findById_def mem_update_finish_def mem_fetch_def map_get_def spread_fields_def
        rename_to_def draft_contract_def isSoftDeleted_def new_mem_repo_def Let_def)
qed

subsection \<open>Pages\<close>

fun contract_walk ::
  "(page_cursor option \<Rightarrow> (repo_error, contract_page) result) \<Rightarrow> nat \<Rightarrow> page_cursor option \<Rightarrow> contract list option" where
  "contract_walk page 0 cursor = None"
| "contract_walk page (Suc n) cursor =
     (case page cursor of
        Throw err \<Rightarrow> None
      | Ok p \<Rightarrow>
          (case pg_nextCursor p of
             None \<Rightarrow> Some (pg_data p)
           | Some (at, i) \<Rightarrow> map_option ((@) (pg_data p)) (contract_walk page n (Some (Position at i)))))"

lemma below_cursor_key: "below_cursor (Some (Position at i)) c \<longleftrightarrow> page_key c < (at, i)"
  by (auto simp: below_cursor_def page_key_def)

lemma page_order_filter: "page_order (filter P t) = filter P (page_order t)"
  by (simp add: page_order_def filter_sort [symmetric] rev_filter)

lemma page_order_desc:
  assumes "table_ok t"
  shows "sorted_wrt (\<lambda>a b. page_key b < page_key a) (page_order t)"
proof -
  have "inj_on page_key (set t)"
    using assms unfolding inj_on_def page_key_def by (auto dest: table_ok_unique)
  then have "distinct (map page_key t)"
    using assms by (simp add: distinct_map table_ok_def)
  then have "distinct (map page_key (sort_key page_key t))"
    by (metis distinct_map distinct_sort set_sort)
  then have "sorted_wrt (<) (map page_key (sort_key page_key t))"
    by (simp add: strict_sorted_iff)
  then show ?thesis by (simp add: page_order_def sorted_wrt_rev sorted_wrt_map)
qed

text \<open>In a strictly descending list the elements below the \<open>n\<close>-th are those after it.\<close>

lemma filter_below_drop:
  assumes "sorted_wrt (\<lambda>a b. key b < (key a :: 'k :: linorder)) xs" "n < length xs"
  shows "filter (\<lambda>x. key x < key (xs ! n)) xs = drop (Suc n) xs"
  using assms
proof (induction xs arbitrary: n)
  case (Cons x xs)
  show ?case
  proof (cases n)
    case 0
    with Cons.prems show ?thesis by (auto intro!: filter_True)
  next
    case (Suc m)
    then have "xs ! m \<in> set xs" using Cons.prems by simp
    then have "\<not> key x < key (xs ! m)" using Cons.prems by (meson less_asym sorted_wrt.simps(2))
    with Suc Cons show ?thesis by simp
  qed
qed simp

lemma contract_walk_from:
  assumes sorted: "sorted_wrt (\<lambda>a b. page_key b < page_key a) rows"
    and page: "\<And>cursor. cursor \<noteq> Some Bad_Cursor \<Longrightarrow> page cursor =
      (let xs = filter (below_cursor cursor) rows in
       Ok \<lparr>pg_data = take l xs,
           pg_nextCursor = (if length xs > l then Some (page_key (xs ! (l - 1))) else None),
           pg_hasNextPage = length xs > l, pg_limit = l\<rparr>)"
    and l: "0 < l" and cursor: "cursor \<noteq> Some Bad_Cursor"
    and "filter (below_cursor cursor) rows = drop k rows" "length rows - k < n"
  shows "contract_walk page n cursor = Some (drop k rows)"
  using assms(4-6)
proof (induction n arbitrary: cursor k)
  case (Suc n)
  show ?case
  proof (cases "length rows - k > l")
    case False
    with Suc.prems page show ?thesis by (simp add: Let_def)
  next
    case True
    obtain at i where key: "page_key (rows ! (k + l - 1)) = (at, i)" by fastforce
    have "filter (below_cursor (Some (Position at i))) rows = filter (\<lambda>x. page_key x < page_key (rows ! (k + l - 1))) rows"
      by (rule filter_cong [OF refl]) (simp only: below_cursor_key key)
    also have "\<dots> = drop (k + l) rows"
      using filter_below_drop [OF sorted, of "k + l - 1"] True l by simp
    finally have "contract_walk page n (Some (Position at i)) = Some (drop (k + l) rows)"
      using Suc.prems True l by (intro Suc.IH) auto
    moreover have "take l (drop k rows) @ drop (k + l) rows = drop k rows"
      by (metis add.commute append_take_drop_id drop_drop)
    ultimately show ?thesis using Suc.prems page True l key by (simp add: Let_def)
  qed
qed simp


definition twin_contracts :: contract_table where
  "twin_contracts = [draft_contract\<lparr>c_id := ''b''\<rparr>, draft_contract\<lparr>c_id := ''a''\<rparr>]"


text \<open>
  The in-memory repository sorts contracts of one creation time by insertion
  but cuts pages by id: the second of two such contracts is never shown.
\<close>

definition twin_repo :: mem_repo where
  "twin_repo = new_mem_repo\<lparr>mr_contracts := [(''b'', 0), (''a'', 1)], mr_heap := twin_contracts,
     mr_insertionOrder := [(''b'', 0), (''a'', 1)], mr_insertionSeq := 2\<rparr>"

theorem mem_pages_skip:
  "map_option (map c_id) (contract_walk (\<lambda>cursor. mem_findPage (Some 1) cursor False twin_repo) 5 None) = Some [''a''] \<and>
   map c_id (mem_findAll False twin_repo) = [''a'', ''b'']"
proof -
  have all: "mem_findAll False twin_repo = [draft_contract\<lparr>c_id := ''a''\<rparr>, draft_contract\<lparr>c_id := ''b''\<rparr>]"
    by (simp add: twin_repo_def mem_findAll_def map_values_def map_get_def twin_contracts_def draft_contract_def
        filterNotDeleted_def isSoftDeleted_def new_mem_repo_def Let_def)
  have p1: "mem_findPage (Some 1) None False twin_repo = Ok \<lparr>pg_data = [draft_contract\<lparr>c_id := ''a''\<rparr>],
      pg_nextCursor = Some (0, ''a''), pg_hasNextPage = True, pg_limit = 1\<rparr>"
    by (simp add: mem_findPage_def parseLimit_def all below_cursor_def page_key_def draft_contract_def)
  have p2: "mem_findPage (Some 1) (Some (Position 0 ''a'')) False twin_repo = Ok \<lparr>pg_data = [],
      pg_nextCursor = None, pg_hasNextPage = False, pg_limit = 1\<rparr>"
    by (simp add: mem_findPage_def parseLimit_def all below_cursor_def draft_contract_def)
  show ?thesis by (simp add: all p1 p2 eval_nat_numeral)
qed

end
