(* ===== verification/ContractsService.thy ===== *)
theory ContractsService
  imports ContractRepository ContractBounds
begin

text \<open>
  The contracts service, \<open>src/services/contracts.service.ts\<close>, on the SQLite
  repository.  Its \<open>cache\<close> field is never assigned, so the cache branches do not
  run and are left out; \<open>prepareEscrow\<close> is called for its effect outside and its
  failure is swallowed.  Budgets and milestone amounts are whole stroops.  The
  ids of the users table and of the rated contracts, which the foreign keys of
  the database involve, are arguments, as in the repository.
\<close>

record create_contract_dto =
  dc_title :: string
  dc_clientId :: string
  dc_freelancerId :: "string option"
  dc_budget :: int
  dc_status :: "string option"
  dc_milestones :: "int list option"

text \<open>Of a nullable optional field, \<open>None\<close> is absent and \<open>Some None\<close> is \<open>null\<close>.\<close>

record update_contract_dto =
  du_version :: "int option"
  du_title :: "string option"
  du_description :: "string option"
  du_freelancerId :: "string option option"
  du_clientId :: "string option"
  du_budget :: "int option"
  du_deadline :: "string option option"
  du_status :: "string option"
  du_terms :: "string option option"
  du_milestones :: "int list option"

datatype contracts_error =
    Bounds_Error bounds_error
  | Missing_Version
  | Invalid_Version
  | Empty_Update
  | Repo_Error repo_error

definition milestones_arg :: "int list option \<Rightarrow> milestones_arg option" where
  "milestones_arg = map_option (\<lambda>ms. Milestone_List (map (\<lambda>a. Milestone_Amount (Finite a)) ms))"

definition createContract ::
  "bool \<Rightarrow> string list \<Rightarrow> string \<Rightarrow> ms \<Rightarrow> create_contract_dto \<Rightarrow> contract_table
     \<Rightarrow> (contracts_error, contract) result \<times> contract_table" where
  "createContract milestonesEnabled users uuid now data t =
     (let effectiveData = (if milestonesEnabled then data else data\<lparr>dc_milestones := None\<rparr>)
      in case validateContractBounds (Finite (dc_budget effectiveData)) (milestones_arg (dc_milestones effectiveData)) of
           Some err \<Rightarrow> (Throw (Bounds_Error err), t)
         | None \<Rightarrow>
             (let ms = (case dc_milestones effectiveData of None \<Rightarrow> [] | Some ms \<Rightarrow> ms);
                  totalMilestoneAmount = foldl (\<lambda>sum amount. sum + amount) 0 ms
              in if length ms > 0 \<and> totalMilestoneAmount > dc_budget effectiveData
                 then (Throw (Bounds_Error (Total_Exceeds_Budget totalMilestoneAmount (dc_budget effectiveData))), t)
                 else case sql_create users uuid now
                         \<lparr>cc_title = dc_title effectiveData, cc_clientId = dc_clientId effectiveData,
                          cc_freelancerId = Some (case dc_freelancerId effectiveData of None \<Rightarrow> [] | Some f \<Rightarrow> f),
                          cc_amount = dc_budget effectiveData,
                          cc_status = Some (case dc_status effectiveData of
                             None \<Rightarrow> ''draft'' | Some s \<Rightarrow> if s = [] then ''draft'' else s)\<rparr> t of
                        (Throw err, t') \<Rightarrow> (Throw (Repo_Error err), t')
                      | (Ok c, t') \<Rightarrow> (Ok c, t')))"

definition has_fields :: "update_contract_dto \<Rightarrow> bool" where
  "has_fields f \<longleftrightarrow>
     du_title f \<noteq> None \<or> du_description f \<noteq> None \<or> du_freelancerId f \<noteq> None \<or> du_clientId f \<noteq> None \<or>
     du_budget f \<noteq> None \<or> du_deadline f \<noteq> None \<or> du_status f \<noteq> None \<or> du_terms f \<noteq> None \<or>
     du_milestones f \<noteq> None"

definition update_fields :: "update_contract_dto \<Rightarrow> contract_fields" where
  "update_fields f =
     \<lparr>uf_title = du_title f, uf_status = du_status f, uf_amount = du_budget f,
      uf_freelancerId = map_option (\<lambda>x. case x of None \<Rightarrow> [] | Some s \<Rightarrow> s) (du_freelancerId f)\<rparr>"

definition updateContract ::
  "bool \<Rightarrow> string list \<Rightarrow> string \<Rightarrow> update_contract_dto \<Rightarrow> contract_table
     \<Rightarrow> (contracts_error, contract) result \<times> contract_table" where
  "updateContract milestonesEnabled users i dto t =
     (case du_version dto of
        None \<Rightarrow> (Throw Missing_Version, t)
      | Some version \<Rightarrow>
          if version < 0 then (Throw Invalid_Version, t)
          else
            (let effectiveFields = (if milestonesEnabled then dto else dto\<lparr>du_milestones := None\<rparr>)
             in if \<not> has_fields effectiveFields then (Throw Empty_Update, t)
                else
                  (let budget = du_budget effectiveFields; milestones = du_milestones effectiveFields;
                       boundsCheck = (if budget \<noteq> None \<or> milestones \<noteq> None
                         then validateContractBounds (Finite (case budget of None \<Rightarrow> 0 | Some b \<Rightarrow> b)) (milestones_arg milestones)
                         else None)
                   in case boundsCheck of
                        Some err \<Rightarrow> (Throw (Bounds_Error err), t)
                      | None \<Rightarrow>
                          (case sql_updateWithVersion users i (update_fields effectiveFields) version t of
                             (Throw err, t') \<Rightarrow> (Throw (Repo_Error err), t')
                           | (Ok c, t') \<Rightarrow> (Ok c, t')))))"

definition deleteContract :: "string \<Rightarrow> ms \<Rightarrow> contract_table \<Rightarrow> (contracts_error, unit) result \<times> contract_table" where
  "deleteContract i now t =
     (case sql_delete i now t of
        (False, t') \<Rightarrow> (Throw (Repo_Error (Contract_Not_Found i)), t')
      | (True, t') \<Rightarrow> (Ok (), t'))"

definition restoreContract :: "int \<Rightarrow> string \<Rightarrow> ms \<Rightarrow> contract_table \<Rightarrow> (contracts_error, contract) result \<times> contract_table" where
  "restoreContract retentionDays i now t =
     (case sql_restore retentionDays i now t of
        (Throw err, t') \<Rightarrow> (Throw (Repo_Error err), t')
      | (Ok c, t') \<Rightarrow> (Ok c, t'))"

definition purgeExpiredContracts ::
  "string list \<Rightarrow> int \<Rightarrow> ms \<Rightarrow> contract_table \<Rightarrow> (contracts_error, nat) result \<times> contract_table" where
  "purgeExpiredContracts rated retentionDays now t =
     (case sql_purgeExpired rated retentionDays now t of
        (Throw err, t') \<Rightarrow> (Throw (Repo_Error err), t')
      | (Ok n, t') \<Rightarrow> (Ok n, t'))"

record contract_stats =
  st_total :: nat
  st_totalBudget :: int
  st_byStatus :: "(string, nat) jsmap"

definition getContractStats :: "contract_table \<Rightarrow> contract_stats" where
  "getContractStats t =
     (let all = sql_findAll False t
      in \<lparr>st_total = length all,
          st_totalBudget = foldl (\<lambda>sum c. sum + c_amount c) 0 all,
          st_byStatus = foldl (\<lambda>acc c. map_set (c_status c)
             ((case map_get acc (c_status c) of None \<Rightarrow> 0 | Some n \<Rightarrow> n) + 1) acc) map_empty all\<rparr>)"

subsection \<open>Creating\<close>

lemma milestones_ok:
  assumes "\<forall>ms. m = Some ms \<longrightarrow> (\<forall>a\<in>set ms. 0 \<le> a)"
  shows "validateContractBounds (Finite b) (milestones_arg m) = None \<longleftrightarrow>
    b \<le> MAX_CONTRACT_AMOUNT_STROOPS \<and>
    (case m of None \<Rightarrow> True | Some ms \<Rightarrow> length ms \<le> 20 \<and> sum_list ms \<le> MAX_CONTRACT_AMOUNT_STROOPS)"
proof (cases m)
  case None
  then show ?thesis by (auto simp: validateContractBounds_def milestones_arg_def)
next
  case (Some ms)
  have "map (entry_amount \<circ> (\<lambda>a. Milestone_Amount (Finite a))) ms = ms" by (induction ms) auto
  then show ?thesis
    using Some assms accepted_total [of "map (\<lambda>a. Milestone_Amount (Finite a)) ms"]
    by (auto simp: validateContractBounds_def milestones_arg_def MAX_MILESTONES_PER_CONTRACT_def list_all_iff)
qed

lemma foldl_sum: "foldl (\<lambda>sum amount. sum + amount) (0::int) xs = sum_list xs"
  using foldl_add_start [of "\<lambda>x. x" 0 xs] by simp

definition effective_milestones :: "bool \<Rightarrow> int list option \<Rightarrow> int list" where
  "effective_milestones enabled m = (if enabled then (case m of None \<Rightarrow> [] | Some ms \<Rightarrow> ms) else [])"

text \<open>
  C21. A contract is created exactly when it is within policy and the database
  accepts it: the budget is not negative and at most the maximum, there are at
  most twenty milestones and they add up to at most the budget (milestones are
  ignored when the feature is off), the status, \<open>draft\<close> when none is given, is one
  of the five, the id is new, and client and freelancer are known users; a
  request without a freelancer stands for the user with the empty id.  A created
  contract has the given title, client, freelancer, budget and status, is at
  version 0 and not deleted, and is the only change to the table; a refused
  request leaves the table as it was.  Milestone amounts are not negative, as the
  request schema demands.
\<close>

theorem createContract_exact:
  assumes "\<forall>ms. dc_milestones data = Some ms \<longrightarrow> (\<forall>a\<in>set ms. 0 \<le> a)"
  shows "let ms = effective_milestones enabled (dc_milestones data);
      status = (case dc_status data of None \<Rightarrow> ''draft'' | Some s \<Rightarrow> if s = [] then ''draft'' else s);
      freelancer = (case dc_freelancerId data of None \<Rightarrow> [] | Some f \<Rightarrow> f);
      c = \<lparr>c_id = uuid, c_title = dc_title data, c_clientId = dc_clientId data, c_freelancerId = freelancer,
           c_amount = dc_budget data, c_status = status, c_version = 0, c_createdAt = now, c_deletedAt = None\<rparr>
    in if 0 \<le> dc_budget data \<and> dc_budget data \<le> MAX_CONTRACT_AMOUNT_STROOPS \<and>
          length ms \<le> 20 \<and> sum_list ms \<le> dc_budget data \<and>
          status \<in> set VALID_CONTRACT_STATUSES \<and> uuid \<notin> set (map c_id t) \<and>
          dc_clientId data \<in> set users \<and> freelancer \<in> set users
       then createContract enabled users uuid now data t = (Ok c, t @ [c])
       else \<exists>err. createContract enabled users uuid now data t = (Throw err, t)"
proof -
  define d where "d = (if enabled then data else data\<lparr>dc_milestones := None\<rparr>)"
  define ms where "ms = (case dc_milestones d of None \<Rightarrow> [] | Some ms \<Rightarrow> ms)"
  have d: "dc_budget d = dc_budget data" "dc_status d = dc_status data" "dc_title d = dc_title data"
    "dc_clientId d = dc_clientId data" "dc_freelancerId d = dc_freelancerId data"
    by (simp_all add: d_def)
  have bounds: "validateContractBounds (Finite (dc_budget data)) (milestones_arg (dc_milestones d)) = None \<longleftrightarrow>
      dc_budget data \<le> MAX_CONTRACT_AMOUNT_STROOPS \<and> length ms \<le> 20 \<and> sum_list ms \<le> MAX_CONTRACT_AMOUNT_STROOPS"
    using milestones_ok [of "dc_milestones d" "dc_budget data"] assms
    by (auto simp: d_def ms_def MAX_CONTRACT_AMOUNT_STROOPS_def split: option.splits)
  have ms': "effective_milestones enabled (dc_milestones data) = ms"
    by (simp add: ms_def d_def effective_milestones_def)
  show ?thesis
    unfolding createContract_def d_def [symmetric] ms' Let_def
    using bounds
    by (cases "validateContractBounds (Finite (dc_budget data)) (milestones_arg (dc_milestones d))")
      (auto simp: d ms_def [symmetric] foldl_sum sql_create_def new_contract_def contract_checks_def Let_def)
qed

definition sample_dto :: create_contract_dto where
  "sample_dto = \<lparr>dc_title = ''Site'', dc_clientId = ''u-1'', dc_freelancerId = Some ''u-2'', dc_budget = 500,
     dc_status = None, dc_milestones = Some [200, 300]\<rparr>"

theorem createContract_exact_witness:
  "\<exists>c t'. createContract True [''u-1'', ''u-2''] ''c-2'' 0 sample_dto [draft_contract] = (Ok c, t') \<and>
     t' = [draft_contract, c] \<and> c_amount c = 500 \<and> c_status c = ''draft'' \<and> c_freelancerId c = ''u-2''"
  using createContract_exact [of sample_dto True "''c-2''" 0 "[draft_contract]" "[''u-1'', ''u-2'']"]
  by (simp add: sample_dto_def draft_contract_def MAX_CONTRACT_AMOUNT_STROOPS_def VALID_CONTRACT_STATUSES_def
      effective_milestones_def Let_def)

text \<open>
  The service stores a missing freelancer as the empty string, which the foreign
  key of the table takes for a user id: a contract without a freelancer is
  refused unless there is a user with the empty id.
\<close>

theorem no_freelancer_refused:
  "createContract True [''u-1'', ''u-2''] ''c-2'' 0 (sample_dto\<lparr>dc_freelancerId := None\<rparr>) [] =
     (Throw (Repo_Error Foreign_Key_Violation), [])"
  by (simp add: createContract_def sample_dto_def validateContractBounds_def milestones_arg_def
      MAX_CONTRACT_AMOUNT_STROOPS_def MAX_MILESTONES_PER_CONTRACT_def sql_create_def new_contract_def
      contract_checks_def VALID_CONTRACT_STATUSES_def)

subsection \<open>Updating\<close>

lemma sql_updateWithVersion_exact:
  assumes "table_ok t"
  shows "if \<exists>c. sql_findById i False t = Some c \<and> c_version c = v \<and> update_allowed users f c
    then \<exists>c t'. sql_findById i False t = Some c \<and> sql_updateWithVersion users i f v t = (Ok (sql_set_fields f c), t') \<and>
      (\<forall>j. table_row t' j = (if j = i then Some (sql_set_fields f c) else table_row t j))
    else \<exists>err. sql_updateWithVersion users i f v t = (Throw err, t)"
proof (cases "\<exists>c. sql_findById i False t = Some c \<and> c_version c = v \<and> update_allowed users f c")
  case True
  then obtain c where c: "sql_findById i False t = Some c" "c_version c = v" "update_allowed users f c" by blast
  with sql_update_finish_current [OF assms c] show ?thesis by (auto simp: sql_updateWithVersion_def)
next
  case False
  then have "\<exists>err. sql_update_finish users i f v t = (Throw err, t)"
    by (intro sql_update_finish_refused [OF assms]) blast
  with False show ?thesis by (auto simp: sql_updateWithVersion_def split: option.split)
qed

definition update_check :: "update_contract_dto \<Rightarrow> bounds_error option" where
  "update_check f =
     (if du_budget f \<noteq> None \<or> du_milestones f \<noteq> None
      then validateContractBounds (Finite (case du_budget f of None \<Rightarrow> 0 | Some b \<Rightarrow> b)) (milestones_arg (du_milestones f))
      else None)"

lemma updateContract_eq:
  "updateContract enabled users i dto t =
     (let f = (if enabled then dto else dto\<lparr>du_milestones := None\<rparr>)
      in case du_version dto of
           None \<Rightarrow> (Throw Missing_Version, t)
         | Some v \<Rightarrow>
             if v < 0 then (Throw Invalid_Version, t)
             else if \<not> has_fields f then (Throw Empty_Update, t)
             else case update_check f of
                    Some err \<Rightarrow> (Throw (Bounds_Error err), t)
                  | None \<Rightarrow>
                      (case sql_updateWithVersion users i (update_fields f) v t of
                         (Throw err, t') \<Rightarrow> (Throw (Repo_Error err), t') | (Ok c, t') \<Rightarrow> (Ok c, t')))"
  unfolding updateContract_def update_check_def Let_def by (rule refl)

lemma update_check_None:
  assumes "\<forall>ms. du_milestones f = Some ms \<longrightarrow> (\<forall>a\<in>set ms. 0 \<le> a)"
  shows "update_check f = None \<longleftrightarrow>
    (\<forall>b. du_budget f = Some b \<longrightarrow> b \<le> MAX_CONTRACT_AMOUNT_STROOPS) \<and>
    length (effective_milestones True (du_milestones f)) \<le> 20 \<and>
    sum_list (effective_milestones True (du_milestones f)) \<le> MAX_CONTRACT_AMOUNT_STROOPS"
  using milestones_ok [OF assms]
  by (auto simp: update_check_def effective_milestones_def MAX_CONTRACT_AMOUNT_STROOPS_def split: option.splits)


definition budget_update :: update_contract_dto where
  "budget_update = \<lparr>du_version = Some 0, du_title = None, du_description = None, du_freelancerId = None,
     du_clientId = None, du_budget = Some 250, du_deadline = None, du_status = None, du_terms = None,
     du_milestones = Some [100, 150]\<rparr>"

lemmas update_eval = updateContract_def has_fields_def update_fields_def sql_updateWithVersion_def
  sql_update_finish_def sql_update_checked_def sql_update_def sql_findById_def sql_set_fields_def coalesce_def
  contract_checks_def VALID_CONTRACT_STATUSES_def
  validateContractBounds_def milestones_arg_def MAX_CONTRACT_AMOUNT_STROOPS_def MAX_MILESTONES_PER_CONTRACT_def Let_def


text \<open>
  Fields without a column are accepted and dropped: a patch that carries only a
  description succeeds, raises the version and changes nothing else.
\<close>

theorem description_update_ignored:
  "updateContract True [''u-1'', ''u-2''] ''c-1''
       (budget_update\<lparr>du_budget := None, du_milestones := None, du_description := Some ''new text''\<rparr>) [draft_contract] =
     (Ok (draft_contract\<lparr>c_version := 1\<rparr>), [draft_contract\<lparr>c_version := 1\<rparr>])"
  by (simp add: budget_update_def draft_contract_def update_eval)

end
