(* ===== verification/AccountLockout.thy ===== *)
theory AccountLockout
  imports AuditService Complex_Main
begin

text \<open>
  The progressive account lockout of \<open>src/auth/accountLockout.ts\<close>, with
  \<open>normalizeEmail\<close> of \<open>src/repositories/userRepository.ts\<close>.  Every method runs to
  completion, so each is one function on the state: configuration, records by
  hashed identity and the audit service it writes to.  SHA-256 (\<open>sha\<close>), the
  printing of dates (\<open>showDate\<close>), the clock and fresh ids are arguments.  A failing
  audit write is swallowed.  The sweep timer is the step \<open>sweep\<close> at any time.
\<close>

subsection \<open>Configuration\<close>

record lockout_config =
  lc_enabled :: bool
  lc_maxFailures :: int
  lc_decayWindowMs :: ms
  lc_lockoutDurationMs :: ms
  lc_baseDelayMs :: ms
  lc_delayMultiplier :: int
  lc_maxDelayMs :: ms

definition DEFAULT_ACCOUNT_LOCKOUT_CONFIG :: lockout_config where
  "DEFAULT_ACCOUNT_LOCKOUT_CONFIG =
     \<lparr>lc_enabled = True, lc_maxFailures = 5, lc_decayWindowMs = 15 * 60 * 1000,
      lc_lockoutDurationMs = 15 * 60 * 1000, lc_baseDelayMs = 250, lc_delayMultiplier = 2,
      lc_maxDelayMs = 5000\<rparr>"

text \<open>An environment value after \<open>Number(value)\<close>: unset, not finite, or a number.\<close>

datatype env_number = Unset | Not_A_Number | Number rat

definition toBool :: "string option \<Rightarrow> bool \<Rightarrow> bool" where
  "toBool v fallback =
     (case v of
        None \<Rightarrow> fallback
      | Some s \<Rightarrow>
          (let lower = js_toLowerCase s
           in if lower = ''true'' \<or> lower = ''1'' \<or> lower = ''yes'' then True
              else if lower = ''false'' \<or> lower = ''0'' \<or> lower = ''no'' then False
              else fallback))"

definition toCount :: "env_number \<Rightarrow> int \<Rightarrow> int" where
  "toCount v fallback =
     (case v of
        Unset \<Rightarrow> fallback
      | Not_A_Number \<Rightarrow> fallback
      | Number x \<Rightarrow> if \<lfloor>x\<rfloor> < 0 then fallback else \<lfloor>x\<rfloor>)"

definition toMs :: "env_number \<Rightarrow> ms \<Rightarrow> ms" where
  "toMs v fallback =
     (case v of
        Unset \<Rightarrow> fallback
      | Not_A_Number \<Rightarrow> fallback
      | Number x \<Rightarrow> if \<lfloor>x\<rfloor> < 0 then fallback else \<lfloor>x\<rfloor>)"

record lockout_env =
  le_enabled :: "string option"
  le_maxFailures :: env_number
  le_decayWindowMs :: env_number
  le_lockoutDurationMs :: env_number
  le_baseDelayMs :: env_number
  le_delayMultiplier :: env_number
  le_maxDelayMs :: env_number

definition loadAccountLockoutConfig :: "lockout_env \<Rightarrow> lockout_config" where
  "loadAccountLockoutConfig env =
     (let maxFailures = max 1 (toCount (le_maxFailures env) (lc_maxFailures DEFAULT_ACCOUNT_LOCKOUT_CONFIG));
          delayMultiplier = toCount (le_delayMultiplier env) (lc_delayMultiplier DEFAULT_ACCOUNT_LOCKOUT_CONFIG);
          safeMultiplier = (if delayMultiplier \<ge> 1 \<and> delayMultiplier \<le> 16 then delayMultiplier
                            else lc_delayMultiplier DEFAULT_ACCOUNT_LOCKOUT_CONFIG)
      in \<lparr>lc_enabled = toBool (le_enabled env) True, lc_maxFailures = maxFailures,
          lc_decayWindowMs = toMs (le_decayWindowMs env) (lc_decayWindowMs DEFAULT_ACCOUNT_LOCKOUT_CONFIG),
          lc_lockoutDurationMs = toMs (le_lockoutDurationMs env) (lc_lockoutDurationMs DEFAULT_ACCOUNT_LOCKOUT_CONFIG),
          lc_baseDelayMs = toMs (le_baseDelayMs env) (lc_baseDelayMs DEFAULT_ACCOUNT_LOCKOUT_CONFIG),
          lc_delayMultiplier = safeMultiplier,
          lc_maxDelayMs = toMs (le_maxDelayMs env) (lc_maxDelayMs DEFAULT_ACCOUNT_LOCKOUT_CONFIG)\<rparr>)"

subsection \<open>The tracker\<close>

record failure_record =
  fr_failed :: int
  fr_firstFailureAt :: ms
  fr_lastFailureAt :: ms
  fr_lockedUntil :: ms

text \<open>A delay is a number of milliseconds, or \<open>NaN\<close> when a product overflows.\<close>

datatype js_delay = Delay ms | Delay_NaN

record account_assessment =
  aa_isLocked :: bool
  aa_failures :: int
  aa_remainingLockoutMs :: ms
  aa_preDelayMs :: js_delay

record failure_result =
  rf_isNowLocked :: bool
  rf_failures :: int
  rf_waitMs :: js_delay
  rf_triggeredLockout :: bool

record success_result =
  rs_releasedLockout :: bool
  rs_previousFailures :: int

record lockout_tracker =
  lt_config :: lockout_config
  lt_records :: "(string, failure_record) jsmap"
  lt_audit :: audit_service

definition emptyRecord :: failure_record where
  "emptyRecord = \<lparr>fr_failed = 0, fr_firstFailureAt = 0, fr_lastFailureAt = 0, fr_lockedUntil = 0\<rparr>"

definition zeroAssessment :: account_assessment where
  "zeroAssessment = \<lparr>aa_isLocked = False, aa_failures = 0, aa_remainingLockoutMs = 0, aa_preDelayMs = Delay 0\<rparr>"

definition normalizeEmail :: "string \<Rightarrow> string" where
  "normalizeEmail email = js_toLowerCase (js_trim email)"

definition keyFor :: "(string \<Rightarrow> string) \<Rightarrow> string \<Rightarrow> string option" where
  "keyFor sha raw = (let norm = normalizeEmail raw in if length norm = 0 then None else Some (sha norm))"

text \<open>
  \<open>Math.pow\<close> gives \<open>Infinity\<close> from the point where a double overflows: times zero
  that is \<open>NaN\<close>, which \<open>Math.min\<close> keeps, and times a positive base the cap remains.
  Below that point the product is taken exactly, as it is for caps up to \<open>2^53\<close>.
\<close>

definition double_overflow :: "int \<Rightarrow> bool" where
  "double_overflow x \<longleftrightarrow> 2 ^ 1024 - 2 ^ 970 \<le> x"

definition computeDelay :: "lockout_config \<Rightarrow> int \<Rightarrow> js_delay" where
  "computeDelay cfg failures =
     (if failures \<le> 0 then Delay 0
      else let pow = lc_delayMultiplier cfg ^ nat (failures - 1)
           in if double_overflow pow
              then (if lc_baseDelayMs cfg = 0 then Delay_NaN else Delay (lc_maxDelayMs cfg))
              else Delay (min (lc_baseDelayMs cfg * pow) (lc_maxDelayMs cfg)))"

definition locked_at :: "failure_record \<Rightarrow> ms \<Rightarrow> bool" where
  "locked_at r now \<longleftrightarrow> fr_lockedUntil r > 0 \<and> now < fr_lockedUntil r"

definition assess :: "(string \<Rightarrow> string) \<Rightarrow> string \<Rightarrow> ms \<Rightarrow> lockout_tracker \<Rightarrow> account_assessment" where
  "assess sha rawEmail now t =
     (let cfg = lt_config t
      in if \<not> lc_enabled cfg then zeroAssessment
         else case keyFor sha rawEmail of
                None \<Rightarrow> zeroAssessment
              | Some key \<Rightarrow>
                  (case map_get (lt_records t) key of
                     None \<Rightarrow> zeroAssessment
                   | Some record \<Rightarrow>
                       (let isLocked = locked_at record now;
                            liveFailures =
                              (if fr_lockedUntil record > 0 \<and> now \<ge> fr_lockedUntil record then 0
                               else if fr_failed record > 0 \<and> fr_lastFailureAt record > 0 \<and>
                                       now - fr_lastFailureAt record > lc_decayWindowMs cfg then 0
                               else fr_failed record)
                        in \<lparr>aa_isLocked = isLocked, aa_failures = liveFailures,
                            aa_remainingLockoutMs = (if isLocked then fr_lockedUntil record - now else 0),
                            aa_preDelayMs = (if isLocked then Delay (lc_maxDelayMs cfg) else computeDelay cfg liveFailures)\<rparr>)))"

definition refreshInPlace :: "lockout_config \<Rightarrow> ms \<Rightarrow> failure_record \<Rightarrow> failure_record" where
  "refreshInPlace cfg now record =
     (if fr_lockedUntil record > 0 \<and> now \<ge> fr_lockedUntil record then emptyRecord
      else if fr_failed record > 0 \<and> fr_lastFailureAt record > 0 \<and>
              now - fr_lastFailureAt record > lc_decayWindowMs cfg then emptyRecord
      else record)"

text \<open>\<open>audit.log\<close> inside \<open>try/catch\<close>: an error leaves the service as the failed call left it.\<close>

definition audit_swallowed ::
  "(string \<Rightarrow> string) \<Rightarrow> string \<Rightarrow> string \<Rightarrow> audit_input \<Rightarrow> lockout_tracker \<Rightarrow> lockout_tracker" where
  "audit_swallowed sha uuid ts input t = t\<lparr>lt_audit := snd (service_log sha uuid ts input (lt_audit t))\<rparr>"

definition audit_actor :: "string \<Rightarrow> string" where
  "audit_actor rawEmail =
     (let normalized = normalizeEmail rawEmail in if length normalized > 0 then normalized else ''unknown'')"

definition emitTriggerAudit where
  "emitTriggerAudit sha showDate uuid ts rawEmail record ctx t =
     audit_swallowed sha uuid ts
       \<lparr>ae_action = AUTH_LOCKOUT_TRIGGERED, ae_severity = WARNING, ae_actor = audit_actor rawEmail,
        ae_resource = ''auth'', ae_resourceId = audit_actor rawEmail,
        ae_metadata =
          [(''failures'', JNum (fr_failed record)),
           (''decayWindowMs'', JNum (lc_decayWindowMs (lt_config t))),
           (''lockoutDurationMs'', JNum (lc_lockoutDurationMs (lt_config t))),
           (''lockedUntilIso'', JStr (showDate (fr_lockedUntil record))),
           (''reason'', JStr ''consecutive_failures'')],
        ae_ipAddress = fst ctx, ae_correlationId = snd ctx\<rparr> t"

definition emitReleaseAudit where
  "emitReleaseAudit sha uuid ts rawEmail previousFailures ctx t =
     audit_swallowed sha uuid ts
       \<lparr>ae_action = AUTH_LOCKOUT_RELEASED, ae_severity = INFO, ae_actor = audit_actor rawEmail,
        ae_resource = ''auth'', ae_resourceId = audit_actor rawEmail,
        ae_metadata =
          [(''previousFailures'', JNum previousFailures),
           (''lockoutDurationMs'', JNum (lc_lockoutDurationMs (lt_config t))),
           (''reason'', JStr ''successful_login'')],
        ae_ipAddress = fst ctx, ae_correlationId = snd ctx\<rparr> t"

definition no_failure :: failure_result where
  "no_failure = \<lparr>rf_isNowLocked = False, rf_failures = 0, rf_waitMs = Delay 0, rf_triggeredLockout = False\<rparr>"

definition recordFailure ::
  "(string \<Rightarrow> string) \<Rightarrow> (ms \<Rightarrow> string) \<Rightarrow> string \<Rightarrow> string \<Rightarrow> string \<Rightarrow> event_context \<Rightarrow> ms \<Rightarrow> lockout_tracker
     \<Rightarrow> failure_result \<times> lockout_tracker" where
  "recordFailure sha showDate uuid ts rawEmail ctx now t =
     (let cfg = lt_config t
      in if \<not> lc_enabled cfg then (no_failure, t)
         else case keyFor sha rawEmail of
                None \<Rightarrow> (no_failure, t)
              | Some key \<Rightarrow>
                  (let r0 = (case map_get (lt_records t) key of None \<Rightarrow> emptyRecord | Some r \<Rightarrow> r);
                       r1 = refreshInPlace cfg now r0;
                       t1 = t\<lparr>lt_records := map_set key r1 (lt_records t)\<rparr>
                   in if locked_at r1 now
                      then (\<lparr>rf_isNowLocked = True, rf_failures = fr_failed r1, rf_waitMs = Delay (lc_maxDelayMs cfg),
                             rf_triggeredLockout = False\<rparr>, t1)
                      else
                        (let r2 = r1\<lparr>fr_failed := fr_failed r1 + 1, fr_lastFailureAt := now,
                                    fr_firstFailureAt := (if fr_firstFailureAt r1 = 0 then now else fr_firstFailureAt r1)\<rparr>;
                             triggeredLockout = (fr_failed r2 = lc_maxFailures cfg);
                             r3 = (if triggeredLockout then r2\<lparr>fr_lockedUntil := now + lc_lockoutDurationMs cfg\<rparr> else r2);
                             t2 = t1\<lparr>lt_records := map_set key r3 (lt_records t1)\<rparr>;
                             t3 = (if triggeredLockout then emitTriggerAudit sha showDate uuid ts rawEmail r3 ctx t2 else t2)
                         in (\<lparr>rf_isNowLocked = locked_at r3 now, rf_failures = fr_failed r3,
                              rf_waitMs = (if triggeredLockout then Delay (lc_maxDelayMs cfg) else computeDelay cfg (fr_failed r3)),
                              rf_triggeredLockout = triggeredLockout\<rparr>, t3))))"

definition recordSuccess ::
  "(string \<Rightarrow> string) \<Rightarrow> string \<Rightarrow> string \<Rightarrow> string \<Rightarrow> event_context \<Rightarrow> lockout_tracker \<Rightarrow> success_result \<times> lockout_tracker" where
  "recordSuccess sha uuid ts rawEmail ctx t =
     (if \<not> lc_enabled (lt_config t) then (\<lparr>rs_releasedLockout = False, rs_previousFailures = 0\<rparr>, t)
      else case keyFor sha rawEmail of
             None \<Rightarrow> (\<lparr>rs_releasedLockout = False, rs_previousFailures = 0\<rparr>, t)
           | Some key \<Rightarrow>
               (case map_get (lt_records t) key of
                  None \<Rightarrow> (\<lparr>rs_releasedLockout = False, rs_previousFailures = 0\<rparr>, t)
                | Some record \<Rightarrow>
                    (let wasLocked = fr_lockedUntil record > 0;
                         previousFailures = fr_failed record;
                         t1 = t\<lparr>lt_records := map_delete key (lt_records t)\<rparr>;
                         t2 = (if wasLocked then emitReleaseAudit sha uuid ts rawEmail previousFailures ctx t1 else t1)
                     in (\<lparr>rs_releasedLockout = wasLocked, rs_previousFailures = previousFailures\<rparr>, t2))))"

definition lockout_sweep :: "ms \<Rightarrow> lockout_tracker \<Rightarrow> nat \<times> lockout_tracker" where
  "lockout_sweep now t =
     (let decayCutoff = now - lc_decayWindowMs (lt_config t);
          (records, removed) = map_reap (\<lambda>key record.
             (fr_lockedUntil record > 0 \<and> now \<ge> fr_lockedUntil record) \<or>
             (fr_failed record > 0 \<and> fr_lastFailureAt record < decayCutoff)) (lt_records t)
      in (removed, t\<lparr>lt_records := records\<rparr>))"

definition lockout_reset :: "lockout_tracker \<Rightarrow> lockout_tracker" where
  "lockout_reset t = t\<lparr>lt_records := map_empty\<rparr>"

subsection \<open>Delays\<close>

lemma loaded_config:
  "0 \<le> lc_baseDelayMs (loadAccountLockoutConfig env)"
  "1 \<le> lc_delayMultiplier (loadAccountLockoutConfig env)" "lc_delayMultiplier (loadAccountLockoutConfig env) \<le> 16"
  "0 \<le> lc_maxDelayMs (loadAccountLockoutConfig env)"
proof -
  have toMs: "0 \<le> d \<Longrightarrow> 0 \<le> toMs v d" for v d by (auto simp: toMs_def split: env_number.split)
  then show "0 \<le> lc_baseDelayMs (loadAccountLockoutConfig env)"
    "1 \<le> lc_delayMultiplier (loadAccountLockoutConfig env)" "lc_delayMultiplier (loadAccountLockoutConfig env) \<le> 16"
    "0 \<le> lc_maxDelayMs (loadAccountLockoutConfig env)"
    by (auto simp: loadAccountLockoutConfig_def Let_def DEFAULT_ACCOUNT_LOCKOUT_CONFIG_def)
qed

lemma delay_step:
  assumes cfg: "0 < lc_baseDelayMs cfg" "1 \<le> lc_delayMultiplier cfg" "0 \<le> lc_maxDelayMs cfg" and le: "n \<le> m"
  shows "\<exists>a b. computeDelay cfg n = Delay a \<and> computeDelay cfg m = Delay b \<and>
    0 \<le> a \<and> a \<le> b \<and> b \<le> lc_maxDelayMs cfg"
proof (cases "n \<le> 0")
  case True
  then show ?thesis using cfg by (auto simp: computeDelay_def Let_def)
next
  case False
  let ?p = "\<lambda>n. lc_delayMultiplier cfg ^ nat (n - 1)"
  have pow: "?p n \<le> ?p m" using le cfg by (intro power_increasing) auto
  then have over: "double_overflow (?p n) \<Longrightarrow> double_overflow (?p m)" by (simp add: double_overflow_def)
  show ?thesis using False le pow over cfg
    by (cases "double_overflow (?p n)"; cases "double_overflow (?p m)")
      (auto simp: computeDelay_def Let_def intro!: min.coboundedI1 mult_left_mono)
qed

lemma delay_cap:
  assumes "0 < lc_baseDelayMs cfg" "2 \<le> lc_delayMultiplier cfg" "0 \<le> lc_maxDelayMs cfg"
  shows "computeDelay cfg (1 + lc_maxDelayMs cfg) = Delay (lc_maxDelayMs cfg)"
proof -
  define k where "k = nat (lc_maxDelayMs cfg)"
  have "int k \<le> int (2 ^ k)" using less_exp [of k] by (metis less_imp_le of_nat_le_iff)
  also have "int (2 ^ k) = (2 :: int) ^ k" by simp
  also have "\<dots> \<le> lc_delayMultiplier cfg ^ k" using assms by (intro power_mono) auto
  also have "\<dots> \<le> lc_baseDelayMs cfg * lc_delayMultiplier cfg ^ k"
    using assms mult_right_mono [of 1 "lc_baseDelayMs cfg" "lc_delayMultiplier cfg ^ k"] by simp
  finally show ?thesis using assms by (simp add: computeDelay_def k_def Let_def)
qed

text \<open>
  C23. The delay curve, for every configuration that the environment can produce
  with a positive base delay: zero without failures, the base (or the cap, if
  that is smaller) at the first failure, never smaller after more failures and
  never above the cap; with a multiplier of at least two it reaches the cap, with
  a multiplier of one it stays where it started.  With a base of zero there is no
  delay, up to the number of failures at which the power of the multiplier
  overflows; from there on the result is not a number.
\<close>

theorem lockout_delay_curve:
  assumes config: "cfg = loadAccountLockoutConfig env" and le: "n \<le> m"
  shows "computeDelay cfg 0 = Delay 0 \<and>
    (0 < lc_baseDelayMs cfg \<longrightarrow>
       computeDelay cfg 1 = Delay (min (lc_baseDelayMs cfg) (lc_maxDelayMs cfg)) \<and>
       (\<exists>a b. computeDelay cfg n = Delay a \<and> computeDelay cfg m = Delay b \<and>
          0 \<le> a \<and> a \<le> b \<and> b \<le> lc_maxDelayMs cfg) \<and>
       (if lc_delayMultiplier cfg = 1
        then 0 < m \<longrightarrow> computeDelay cfg m = Delay (min (lc_baseDelayMs cfg) (lc_maxDelayMs cfg))
        else computeDelay cfg (1 + lc_maxDelayMs cfg) = Delay (lc_maxDelayMs cfg))) \<and>
    (lc_baseDelayMs cfg = 0 \<longrightarrow>
       computeDelay cfg m =
         (if 0 < m \<and> double_overflow (lc_delayMultiplier cfg ^ nat (m - 1)) then Delay_NaN else Delay 0))"
proof -
  note cfg = loaded_config [of env, folded config]
  have one: "\<not> double_overflow 1" by (simp add: double_overflow_def)
  have "computeDelay cfg 1 = Delay (min (lc_baseDelayMs cfg) (lc_maxDelayMs cfg))"
    using one by (simp add: computeDelay_def)
  moreover have "computeDelay cfg m = Delay (min (lc_baseDelayMs cfg) (lc_maxDelayMs cfg))"
    if "lc_delayMultiplier cfg = 1" "0 < m"
    using one that by (simp add: computeDelay_def)
  moreover have "computeDelay cfg m =
      (if 0 < m \<and> double_overflow (lc_delayMultiplier cfg ^ nat (m - 1)) then Delay_NaN else Delay 0)"
    if "lc_baseDelayMs cfg = 0" using that cfg by (simp add: computeDelay_def Let_def)
  moreover have "computeDelay cfg 0 = Delay 0" by (simp add: computeDelay_def)
  ultimately show ?thesis using cfg delay_step [OF _ cfg(2,4) le] delay_cap [of cfg] by auto
qed

theorem lockout_delay_curve_witness:
  "let cfg = loadAccountLockoutConfig \<lparr>le_enabled = None, le_maxFailures = Unset, le_decayWindowMs = Unset,
       le_lockoutDurationMs = Unset, le_baseDelayMs = Number 100, le_delayMultiplier = Number 3, le_maxDelayMs = Unset\<rparr>
   in computeDelay cfg 1 = Delay 100 \<and> computeDelay cfg 5001 = Delay 5000 \<and>
      (\<exists>a b. computeDelay cfg 2 = Delay a \<and> computeDelay cfg 3 = Delay b \<and> a \<le> b \<and> b \<le> 5000)"
proof -
  let ?cfg = "loadAccountLockoutConfig \<lparr>le_enabled = None, le_maxFailures = Unset, le_decayWindowMs = Unset,
       le_lockoutDurationMs = Unset, le_baseDelayMs = Number 100, le_delayMultiplier = Number 3, le_maxDelayMs = Unset\<rparr>"
  have "lc_baseDelayMs ?cfg = 100" "lc_delayMultiplier ?cfg = 3" "lc_maxDelayMs ?cfg = 5000"
    by (simp_all add: loadAccountLockoutConfig_def toMs_def toCount_def DEFAULT_ACCOUNT_LOCKOUT_CONFIG_def)
  with lockout_delay_curve [OF refl, of 2 3 "\<lparr>le_enabled = None, le_maxFailures = Unset, le_decayWindowMs = Unset,
       le_lockoutDurationMs = Unset, le_baseDelayMs = Number 100, le_delayMultiplier = Number 3, le_maxDelayMs = Unset\<rparr>"]
  show ?thesis by (auto simp: Let_def)
qed

subsection \<open>Failing, one identity\<close>

definition record_of :: "string \<Rightarrow> lockout_tracker \<Rightarrow> failure_record" where
  "record_of key t = (case map_get (lt_records t) key of None \<Rightarrow> emptyRecord | Some r \<Rightarrow> r)"

lemma audit_swallowed_sel [simp]:
  "lt_records (audit_swallowed sha u ts i t) = lt_records t"
  "lt_config (audit_swallowed sha u ts i t) = lt_config t"
  by (simp_all add: audit_swallowed_def)

lemma emit_sel [simp]:
  "lt_records (emitTriggerAudit sha showDate u ts e r ctx t) = lt_records t"
  "lt_config (emitTriggerAudit sha showDate u ts e r ctx t) = lt_config t"
  "lt_records (emitReleaseAudit sha u ts e n ctx t) = lt_records t"
  "lt_config (emitReleaseAudit sha u ts e n ctx t) = lt_config t"
  by (simp_all add: emitTriggerAudit_def emitReleaseAudit_def)

text \<open>What a failure does to the record of its identity.\<close>

definition fail_record :: "lockout_config \<Rightarrow> ms \<Rightarrow> failure_record \<Rightarrow> failure_record" where
  "fail_record cfg now r0 =
     (let r1 = refreshInPlace cfg now r0
      in if locked_at r1 now then r1
         else let n = fr_failed r1 + 1
              in \<lparr>fr_failed = n, fr_firstFailureAt = (if fr_firstFailureAt r1 = 0 then now else fr_firstFailureAt r1),
                  fr_lastFailureAt = now,
                  fr_lockedUntil = (if n = lc_maxFailures cfg then now + lc_lockoutDurationMs cfg else fr_lockedUntil r1)\<rparr>)"

lemma recordFailure_records:
  assumes "lc_enabled (lt_config t)" "keyFor sha e = Some key"
  shows "lt_config (snd (recordFailure sha showDate u ts e ctx now t)) = lt_config t"
    and "map_get (lt_records (snd (recordFailure sha showDate u ts e ctx now t))) k =
      (if k = key then Some (fail_record (lt_config t) now (record_of key t)) else map_get (lt_records t) k)"
  using assms
  by (simp_all add: recordFailure_def fail_record_def record_of_def Let_def)

lemma recordFailure_result:
  assumes "lc_enabled (lt_config t)" "keyFor sha e = Some key"
    and "\<not> locked_at (refreshInPlace (lt_config t) now (record_of key t)) now"
  shows "rf_failures (fst (recordFailure sha showDate u ts e ctx now t)) =
      fr_failed (fail_record (lt_config t) now (record_of key t))"
    and "rf_triggeredLockout (fst (recordFailure sha showDate u ts e ctx now t)) \<longleftrightarrow>
      fr_failed (fail_record (lt_config t) now (record_of key t)) = lc_maxFailures (lt_config t)"
  using assms
  by (simp_all add: recordFailure_def fail_record_def record_of_def Let_def)

text \<open>A streak: failed logins of one identity at the given moments, the newest first.\<close>

fun fail_streak where
  "fail_streak sha showDate u ts e ctx [] t = t"
| "fail_streak sha showDate u ts e ctx (now # older) t =
     snd (recordFailure sha showDate u ts e ctx now (fail_streak sha showDate u ts e ctx older t))"

fun streak_ok :: "ms \<Rightarrow> ms list \<Rightarrow> bool" where
  "streak_ok w [] \<longleftrightarrow> True"
| "streak_ok w [a] \<longleftrightarrow> 0 < a"
| "streak_ok w (b # a # older) \<longleftrightarrow> a \<le> b \<and> b - a \<le> w \<and> streak_ok w (a # older)"

lemma streak_ok_pos: "streak_ok w (a # older) \<Longrightarrow> 0 < a"
  by (induction w "a # older" arbitrary: a older rule: streak_ok.induct) auto

lemma streak_ok_tl: "streak_ok w (a # older) \<Longrightarrow> streak_ok w older"
  by (cases older) auto

lemma streak_last_pos: "streak_ok w older \<Longrightarrow> older \<noteq> [] \<Longrightarrow> 0 < last older"
  by (induction w older rule: streak_ok.induct) auto

lemma fail_streak_config:
  assumes "lc_enabled (lt_config t)" "keyFor sha e = Some key"
  shows "lt_config (fail_streak sha showDate u ts e ctx moments t) = lt_config t"
  using assms by (induction moments) (simp_all add: recordFailure_records)

lemma fail_streak_record:
  assumes "lc_enabled (lt_config t)" "keyFor sha e = Some key" "map_get (lt_records t) key = None"
    and "moments \<noteq> []" "streak_ok (lc_decayWindowMs (lt_config t)) moments"
    and "int (length moments) \<le> lc_maxFailures (lt_config t)"
  shows "map_get (lt_records (fail_streak sha showDate u ts e ctx moments t)) key =
    Some \<lparr>fr_failed = int (length moments), fr_firstFailureAt = last moments, fr_lastFailureAt = hd moments,
          fr_lockedUntil = (if int (length moments) = lc_maxFailures (lt_config t)
                            then hd moments + lc_lockoutDurationMs (lt_config t) else 0)\<rparr>"
  using assms(4-)
proof (induction moments)
  case (Cons b older)
  note cfg = fail_streak_config [OF assms(1,2)]
  show ?case
  proof (cases older)
    case Nil
    with Cons.prems assms show ?thesis
      by (simp add: recordFailure_records record_of_def fail_record_def refreshInPlace_def locked_at_def
            emptyRecord_def Let_def)
  next
    case (Cons a rest)
    with Cons.prems have ok: "streak_ok (lc_decayWindowMs (lt_config t)) older" and "a \<le> b"
      and "b - a \<le> lc_decayWindowMs (lt_config t)" and "0 < a"
      using streak_ok_pos by (auto simp: Cons)
    moreover from ok Cons have "0 < last older" by (intro streak_last_pos) auto
    ultimately show ?thesis
      using Cons Cons.IH Cons.prems assms(1,2)
      by (simp add: recordFailure_records cfg record_of_def fail_record_def refreshInPlace_def locked_at_def Let_def)
  qed
qed simp

lemma streak_ok_suffix: "streak_ok w (newer @ moments) \<Longrightarrow> streak_ok w moments"
  by (induction newer) (auto dest: streak_ok_tl)

text \<open>The record a proper beginning of a streak finds: not locked, nothing decayed.\<close>

lemma fail_streak_before:
  assumes "lc_enabled (lt_config t)" "keyFor sha e = Some key" "map_get (lt_records t) key = None"
    and "streak_ok (lc_decayWindowMs (lt_config t)) (b # before)"
    and "int (length (b # before)) \<le> lc_maxFailures (lt_config t)"
  shows "\<not> aa_isLocked (assess sha e now (fail_streak sha showDate u ts e ctx before t))"
    and "\<not> locked_at (refreshInPlace (lt_config t) b
            (record_of key (fail_streak sha showDate u ts e ctx before t))) b"
    and "fr_failed (fail_record (lt_config t) b (record_of key (fail_streak sha showDate u ts e ctx before t))) =
      int (length (b # before))"
proof -
  note cfg = fail_streak_config [OF assms(1,2)]
  show "\<not> aa_isLocked (assess sha e now (fail_streak sha showDate u ts e ctx before t))"
    and "\<not> locked_at (refreshInPlace (lt_config t) b
            (record_of key (fail_streak sha showDate u ts e ctx before t))) b"
    using assms fail_streak_record [OF assms(1-3), of before] streak_ok_tl [OF assms(4)]
    by (cases before;
        simp add: assess_def cfg locked_at_def record_of_def refreshInPlace_def emptyRecord_def zeroAssessment_def Let_def)+
  have "Some (fail_record (lt_config t) b (record_of key (fail_streak sha showDate u ts e ctx before t))) =
      map_get (lt_records (fail_streak sha showDate u ts e ctx (b # before) t)) key"
    using assms(1,2) by (simp add: recordFailure_records cfg)
  also have "\<dots> = Some \<lparr>fr_failed = int (length (b # before)), fr_firstFailureAt = last (b # before),
      fr_lastFailureAt = hd (b # before), fr_lockedUntil = (if int (length (b # before)) = lc_maxFailures (lt_config t)
                            then hd (b # before) + lc_lockoutDurationMs (lt_config t) else 0)\<rparr>"
    by (rule fail_streak_record [OF assms(1-3) list.distinct(2) assms(4,5)])
  finally show "fr_failed (fail_record (lt_config t) b (record_of key (fail_streak sha showDate u ts e ctx before t))) =
      int (length (b # before))" by simp
qed

text \<open>
  C24. Consecutive failures of an unknown identity, no two further apart than
  the decay window, lock the account at the configured count and not before: the
  account is not locked when any of these failures arrives; the failure that
  completes the count is the only one that reports the trigger; and from then on
  \<open>assess\<close> reports the account as locked exactly until the lockout duration has
  passed since that failure.
\<close>

theorem lockout_triggers_exactly:
  assumes on: "lc_enabled (lt_config t)" and key: "keyFor sha e = Some key" "map_get (lt_records t) key = None"
    and streak: "streak_ok (lc_decayWindowMs (lt_config t)) moments" "moments = newer @ b # before"
    and count: "lc_maxFailures (lt_config t) = int (length moments)" and dur: "0 < lc_lockoutDurationMs (lt_config t)"
  shows "\<not> aa_isLocked (assess sha e now (fail_streak sha showDate u ts e ctx before t)) \<and>
    (rf_triggeredLockout (fst (recordFailure sha showDate u ts e ctx b (fail_streak sha showDate u ts e ctx before t)))
       \<longleftrightarrow> newer = []) \<and>
    (aa_isLocked (assess sha e now (fail_streak sha showDate u ts e ctx moments t)) \<longleftrightarrow>
       now < hd moments + lc_lockoutDurationMs (lt_config t))"
proof (intro conjI)
  note cfg = fail_streak_config [OF on key(1)]
  have ok: "streak_ok (lc_decayWindowMs (lt_config t)) (b # before)"
    using streak streak_ok_suffix by blast
  have len: "int (length (b # before)) \<le> lc_maxFailures (lt_config t)" using count streak(2) by simp
  show "\<not> aa_isLocked (assess sha e now (fail_streak sha showDate u ts e ctx before t))"
    by (rule fail_streak_before(1) [OF on key ok len])
  show "rf_triggeredLockout (fst (recordFailure sha showDate u ts e ctx b (fail_streak sha showDate u ts e ctx before t)))
       \<longleftrightarrow> newer = []"
    using recordFailure_result(2) [of "fail_streak sha showDate u ts e ctx before t" sha e key b showDate u ts ctx]
      fail_streak_before(2,3) [OF on key ok len] on key count streak(2) by (simp add: cfg)
  have "moments \<noteq> []" using streak(2) by simp
  then obtain a older where "moments = a # older" by (cases moments) auto
  with streak(1) have "0 < hd moments" using streak_ok_pos by auto
  with fail_streak_record [OF on key \<open>moments \<noteq> []\<close> streak(1)] count dur on key(1)
  show "aa_isLocked (assess sha e now (fail_streak sha showDate u ts e ctx moments t)) \<longleftrightarrow>
       now < hd moments + lc_lockoutDurationMs (lt_config t)"
    by (simp add: assess_def cfg locked_at_def Let_def)
qed

definition lockout_demo :: lockout_tracker where
  "lockout_demo = \<lparr>lt_config = DEFAULT_ACCOUNT_LOCKOUT_CONFIG\<lparr>lc_maxFailures := 3\<rparr>, lt_records = map_empty,
     lt_audit = new_audit_service None\<rparr>"

theorem lockout_triggers_exactly_witness:
  "aa_isLocked (assess rev ''eve@x'' 900002 (fail_streak rev (\<lambda>_. []) [] [] ''eve@x'' (None, None) [3, 2, 1] lockout_demo)) \<and>
   \<not> aa_isLocked (assess rev ''eve@x'' 900003 (fail_streak rev (\<lambda>_. []) [] [] ''eve@x'' (None, None) [3, 2, 1] lockout_demo))"
proof -
  have key: "keyFor rev ''eve@x'' = Some ''x@eve''" by code_simp
  have *: "lc_enabled (lt_config lockout_demo)" "map_get (lt_records lockout_demo) ''x@eve'' = None"
    "streak_ok (lc_decayWindowMs (lt_config lockout_demo)) [3, 2, 1]" "[3, 2, 1] = [3] @ 2 # [1 :: int]"
    "lc_maxFailures (lt_config lockout_demo) = int (length [3, 2, 1 :: int])"
    "0 < lc_lockoutDurationMs (lt_config lockout_demo)"
    by (simp_all add: lockout_demo_def DEFAULT_ACCOUNT_LOCKOUT_CONFIG_def)
  have "lc_lockoutDurationMs (lt_config lockout_demo) = 900000"
    by (simp add: lockout_demo_def DEFAULT_ACCOUNT_LOCKOUT_CONFIG_def)
  then show ?thesis
    using lockout_triggers_exactly [OF *(1) key *(2-6), of 900002 "\<lambda>_. []" "[]" "[]" "(None, None)"]
      lockout_triggers_exactly [OF *(1) key *(2-6), of 900003 "\<lambda>_. []" "[]" "[]" "(None, None)"]
    by simp
qed

subsection \<open>While an account is locked\<close>

datatype lockout_op =
  Fail string event_context string string ms
| Succeed string event_context string string
| Sweep ms

definition lockout_handle ::
  "(string \<Rightarrow> string) \<Rightarrow> (ms \<Rightarrow> string) \<Rightarrow> lockout_op \<Rightarrow> lockout_tracker \<Rightarrow> lockout_tracker" where
  "lockout_handle sha showDate oper t =
     (case oper of
        Fail e ctx u ts now \<Rightarrow> snd (recordFailure sha showDate u ts e ctx now t)
      | Succeed e ctx u ts \<Rightarrow> snd (recordSuccess sha u ts e ctx t)
      | Sweep now \<Rightarrow> snd (lockout_sweep now t))"

text \<open>
  The moves while the identity \<open>key\<close> is locked and its last failure is not yet
  older than the decay window \<open>w\<close>: none of its own logins succeeds.
\<close>

definition before_release :: "(string \<Rightarrow> string) \<Rightarrow> string \<Rightarrow> ms \<Rightarrow> failure_record \<Rightarrow> lockout_op \<Rightarrow> bool" where
  "before_release sha key w r oper \<longleftrightarrow>
     (case oper of
        Fail e ctx u ts now \<Rightarrow> now < fr_lockedUntil r \<and> now \<le> fr_lastFailureAt r + w
      | Succeed e ctx u ts \<Rightarrow> keyFor sha e \<noteq> Some key
      | Sweep now \<Rightarrow> now < fr_lockedUntil r \<and> now \<le> fr_lastFailureAt r + w)"

definition lock_held :: "string \<Rightarrow> failure_record \<Rightarrow> lockout_config \<Rightarrow> lockout_tracker \<Rightarrow> bool" where
  "lock_held key r cfg t \<longleftrightarrow> lt_config t = cfg \<and> map_wf (lt_records t) \<and> map_get (lt_records t) key = Some r"

lemma recordFailure_wf:
  "map_wf (lt_records t) \<Longrightarrow> map_wf (lt_records (snd (recordFailure sha showDate u ts e ctx now t)))"
  by (simp add: recordFailure_def Let_def split: option.split)

lemma lock_held_handle:
  assumes held: "lock_held key r cfg t" and oper: "before_release sha key (lc_decayWindowMs cfg) r oper"
    and lock: "0 < fr_lockedUntil r"
  shows "lock_held key r cfg (lockout_handle sha showDate oper t)"
proof (cases oper)
  case (Fail e ctx u ts now)
  show ?thesis
  proof (cases "lc_enabled (lt_config t) \<and> keyFor sha e \<noteq> None")
    case True
    then obtain k where k: "keyFor sha e = Some k" by auto
    have "fail_record cfg now r = r"
      using oper lock Fail by (simp add: fail_record_def refreshInPlace_def locked_at_def before_release_def Let_def)
    with True k held Fail show ?thesis
      by (auto simp add: lock_held_def lockout_handle_def recordFailure_records record_of_def recordFailure_wf)
  qed (use Fail held in \<open>auto simp: lockout_handle_def recordFailure_def Let_def\<close>)
next
  case (Succeed e ctx u ts)
  with oper held show ?thesis
    by (auto simp: lock_held_def lockout_handle_def recordSuccess_def before_release_def Let_def split: option.splits)
next
  case (Sweep now)
  with oper held lock show ?thesis
    by (simp add: lock_held_def lockout_handle_def lockout_sweep_def before_release_def Let_def split_beta map_get_reap)
qed

text \<open>
  C25. While an account is locked and its last failure is not older than the
  decay window, nothing shortens or prolongs the lockout: any sequence of failed
  logins of any identity, successful logins of other identities and sweeps in
  that time leaves the record as it is, so that \<open>assess\<close> reports the account as
  locked with the same remaining time.  A lockout no longer than the decay
  window, as in the default configuration, is covered to its very end.
\<close>

theorem lockout_holds:
  assumes held: "lock_held key r cfg t" and on: "lc_enabled cfg" and key: "keyFor sha e = Some key"
    and lock: "0 < fr_lockedUntil r"
    and moves: "\<forall>oper \<in> set opers. before_release sha key (lc_decayWindowMs cfg) r oper"
    and now: "now < fr_lockedUntil r"
  shows "map_get (lt_records (fold (lockout_handle sha showDate) opers t)) key = Some r \<and>
    aa_isLocked (assess sha e now (fold (lockout_handle sha showDate) opers t)) \<and>
    aa_remainingLockoutMs (assess sha e now (fold (lockout_handle sha showDate) opers t)) = fr_lockedUntil r - now"
proof -
  have "lock_held key r cfg (fold (lockout_handle sha showDate) opers t)"
    using held moves by (induction opers arbitrary: t) (auto intro: lock_held_handle lock)
  then show ?thesis
    using on key lock now by (simp add: lock_held_def assess_def locked_at_def Let_def)
qed

theorem lockout_holds_witness:
  "aa_isLocked (assess rev ''eve@x'' 900000 (fold (lockout_handle rev (\<lambda>_. []))
     [Fail '' EVE@x'' (None, None) [] [] 4, Sweep 899999, Succeed ''bob@x'' (None, None) [] []]
     (lockout_demo\<lparr>lt_records := [(''x@eve'', \<lparr>fr_failed = 3, fr_firstFailureAt = 1, fr_lastFailureAt = 3,
        fr_lockedUntil = 900003\<rparr>)]\<rparr>)))"
proof -
  have key: "keyFor rev ''eve@x'' = Some ''x@eve''" "keyFor rev ''bob@x'' \<noteq> Some ''x@eve''" by code_simp+
  show ?thesis
    using lockout_holds [of "''x@eve''" "\<lparr>fr_failed = 3, fr_firstFailureAt = 1, fr_lastFailureAt = 3, fr_lockedUntil = 900003\<rparr>"
      "lt_config lockout_demo" "lockout_demo\<lparr>lt_records := [(''x@eve'', \<lparr>fr_failed = 3, fr_firstFailureAt = 1,
        fr_lastFailureAt = 3, fr_lockedUntil = 900003\<rparr>)]\<rparr>" rev "''eve@x''"
      "[Fail '' EVE@x'' (None, None) [] [] 4, Sweep 899999, Succeed ''bob@x'' (None, None) [] []]" 900000 "\<lambda>_. []"] key
    by (simp add: lock_held_def before_release_def lockout_demo_def DEFAULT_ACCOUNT_LOCKOUT_CONFIG_def map_wf_def map_get_def)
qed

text \<open>
  The comment on \<open>sweep\<close> lets it remove records that outlived both their lockout
  and the decay window; it removes those that outlived either.  A lockout longer
  than the decay window ends with the first sweep after that window.
\<close>

theorem sweep_ends_lockout:
  assumes "lc_enabled (lt_config t)" "keyFor sha e = Some key" "map_wf (lt_records t)"
    and "map_get (lt_records t) key = Some r" "0 < fr_failed r"
    and "fr_lastFailureAt r + lc_decayWindowMs (lt_config t) < now" "now < fr_lockedUntil r" "0 < now"
  shows "aa_isLocked (assess sha e now t) \<and> \<not> aa_isLocked (assess sha e now (snd (lockout_sweep now t)))"
  using assms
  by (simp add: assess_def locked_at_def zeroAssessment_def lockout_sweep_def Let_def split_beta map_get_reap)

text \<open>
  The comment on \<open>recordSuccess\<close> promises one release entry per locked streak even
  after the lockout has elapsed.  A sweep between the end of the lockout and the
  login removes the marker, and the login then writes no entry.
\<close>

theorem release_audit_lost:
  assumes "keyFor sha e = Some key" "map_wf (lt_records t)" "map_get (lt_records t) key = Some r"
    and "0 < fr_lockedUntil r" "fr_lockedUntil r \<le> now"
  shows "recordSuccess sha u ts e ctx (snd (lockout_sweep now t)) =
    (\<lparr>rs_releasedLockout = False, rs_previousFailures = 0\<rparr>, snd (lockout_sweep now t))"
  using assms by (simp add: recordSuccess_def lockout_sweep_def Let_def split_beta map_get_reap)

end
