(* ===== verification/SafeErrors.thy ===== *)
theory SafeErrors
  imports Json Complex_Main
begin

text \<open>
  The safe error policy: \<open>src/errors/safeErrors.ts\<close> and the mapping of errors to
  responses of \<open>src/errors/appError.ts\<close>.  Regular expressions are a datatype with
  their language and a matcher by derivatives, which is what \<open>RegExp.test\<close> computes
  on patterns without anchors and back references.
\<close>

subsection \<open>Regular expressions\<close>

datatype regex =
  Void
| Empty
| Class "char \<Rightarrow> bool"
| Seq regex regex
| Alt regex regex
| Star regex

inductive_set starset :: "string set \<Rightarrow> string set" for L where
  starset_Nil: "[] \<in> starset L"
| starset_step: "u \<in> L \<Longrightarrow> v \<in> starset L \<Longrightarrow> u @ v \<in> starset L"

primrec lang :: "regex \<Rightarrow> string set" where
  "lang Void = {}"
| "lang Empty = {[]}"
| "lang (Class P) = {[c] | c. P c}"
| "lang (Seq r s) = {u @ v | u v. u \<in> lang r \<and> v \<in> lang s}"
| "lang (Alt r s) = lang r \<union> lang s"
| "lang (Star r) = starset (lang r)"

primrec accepts_empty :: "regex \<Rightarrow> bool" where
  "accepts_empty Void = False"
| "accepts_empty Empty = True"
| "accepts_empty (Class P) = False"
| "accepts_empty (Seq r s) = (accepts_empty r \<and> accepts_empty s)"
| "accepts_empty (Alt r s) = (accepts_empty r \<or> accepts_empty s)"
| "accepts_empty (Star r) = True"

definition seq :: "regex \<Rightarrow> regex \<Rightarrow> regex" where
  "seq r s = (case r of Void \<Rightarrow> Void | Empty \<Rightarrow> s | _ \<Rightarrow> Seq r s)"

definition alt :: "regex \<Rightarrow> regex \<Rightarrow> regex" where
  "alt r s = (case r of Void \<Rightarrow> s | _ \<Rightarrow> (case s of Void \<Rightarrow> r | _ \<Rightarrow> Alt r s))"

primrec deriv :: "char \<Rightarrow> regex \<Rightarrow> regex" where
  "deriv c Void = Void"
| "deriv c Empty = Void"
| "deriv c (Class P) = (if P c then Empty else Void)"
| "deriv c (Seq r s) = alt (seq (deriv c r) s) (if accepts_empty r then deriv c s else Void)"
| "deriv c (Alt r s) = alt (deriv c r) (deriv c s)"
| "deriv c (Star r) = seq (deriv c r) (Star r)"

definition is_void :: "regex \<Rightarrow> bool" where
  "is_void r = (case r of Void \<Rightarrow> True | _ \<Rightarrow> False)"

primrec matches_here :: "string \<Rightarrow> regex \<Rightarrow> bool" where
  "matches_here [] r = accepts_empty r"
| "matches_here (c # cs) r = (accepts_empty r \<or> (\<not> is_void r \<and> matches_here cs (deriv c r)))"

primrec regex_test :: "regex \<Rightarrow> string \<Rightarrow> bool" where
  "regex_test r [] = matches_here [] r"
| "regex_test r (c # cs) = (matches_here (c # cs) r \<or> regex_test r cs)"

lemma lang_seq [simp]: "lang (seq r s) = lang (Seq r s)"
  by (cases r) (auto simp: seq_def)

lemma lang_alt [simp]: "lang (alt r s) = lang (Alt r s)"
  by (cases r; cases s) (auto simp: alt_def)

lemma accepts_empty_lang: "accepts_empty r \<longleftrightarrow> [] \<in> lang r"
  by (induction r) (auto intro: starset_Nil)

lemma starset_Cons:
  "c # w \<in> starset L \<longleftrightarrow> (\<exists>u v. w = u @ v \<and> c # u \<in> L \<and> v \<in> starset L)"
proof
  assume "c # w \<in> starset L"
  then show "\<exists>u v. w = u @ v \<and> c # u \<in> L \<and> v \<in> starset L"
    by (induction "c # w" arbitrary: w rule: starset.induct) (auto simp: append_eq_Cons_conv)
qed (metis append_Cons starset_step)

lemma Seq_Cons:
  "c # w \<in> lang (Seq r s) \<longleftrightarrow>
     (\<exists>u v. w = u @ v \<and> c # u \<in> lang r \<and> v \<in> lang s) \<or> ([] \<in> lang r \<and> c # w \<in> lang s)"
proof -
  have "c # w \<in> lang (Seq r s) \<longleftrightarrow> (\<exists>u v. c # w = u @ v \<and> u \<in> lang r \<and> v \<in> lang s)" by simp
  also have "\<dots> \<longleftrightarrow> (\<exists>u v. w = u @ v \<and> c # u \<in> lang r \<and> v \<in> lang s) \<or> ([] \<in> lang r \<and> c # w \<in> lang s)"
    unfolding Cons_eq_append_conv by blast
  finally show ?thesis .
qed

lemma deriv_lang: "w \<in> lang (deriv c r) \<longleftrightarrow> c # w \<in> lang r"
proof (induction r arbitrary: w)
  case (Seq r s)
  have "w \<in> lang (deriv c (Seq r s)) \<longleftrightarrow>
      (\<exists>u v. w = u @ v \<and> u \<in> lang (deriv c r) \<and> v \<in> lang s) \<or> ([] \<in> lang r \<and> w \<in> lang (deriv c s))"
    by (auto simp: accepts_empty_lang)
  then show ?case by (simp only: Seq.IH Seq_Cons)
next
  case (Star r)
  then show ?case by (auto simp: starset_Cons)
qed auto

lemma matches_here_lang: "matches_here s r \<longleftrightarrow> (\<exists>m b. s = m @ b \<and> m \<in> lang r)"
proof (induction s arbitrary: r)
  case (Cons c cs)
  have "is_void r \<Longrightarrow> \<not> (\<exists>m b. cs = m @ b \<and> c # m \<in> lang r)" by (cases r) (auto simp: is_void_def)
  then show ?case
    by (auto simp: Cons.IH deriv_lang accepts_empty_lang Cons_eq_append_conv)
qed (simp add: accepts_empty_lang)

text \<open>The matcher finds exactly the strings with a part in the language.\<close>

lemma regex_test_lang: "regex_test r s \<longleftrightarrow> (\<exists>a m b. s = a @ m @ b \<and> m \<in> lang r)"
proof (induction s)
  case (Cons c cs)
  show ?case
  proof
    assume "regex_test r (c # cs)"
    then show "\<exists>a m b. c # cs = a @ m @ b \<and> m \<in> lang r"
      using Cons.IH by (auto simp: matches_here_lang simp del: matches_here.simps) (metis append_Cons append_Nil)+
  next
    assume "\<exists>a m b. c # cs = a @ m @ b \<and> m \<in> lang r"
    then show "regex_test r (c # cs)"
      using Cons.IH by (auto simp: matches_here_lang Cons_eq_append_conv simp del: matches_here.simps)
  qed
qed (simp add: accepts_empty_lang)

text \<open>What the patterns of the sources are written with.\<close>

definition ascii_letter :: "char \<Rightarrow> bool" where
  "ascii_letter c \<longleftrightarrow> (let n = (of_char c :: nat) in (65 \<le> n \<and> n \<le> 90) \<or> (97 \<le> n \<and> n \<le> 122))"

definition js_word :: "char \<Rightarrow> bool" where
  "js_word c \<longleftrightarrow> (let n = (of_char c :: nat) in ascii_letter c \<or> (48 \<le> n \<and> n \<le> 57) \<or> n = 95)"

primrec lit :: "string \<Rightarrow> regex" where
  "lit [] = Empty"
| "lit (c # cs) = Seq (Class (\<lambda>x. x = c)) (lit cs)"

primrec lit_i :: "string \<Rightarrow> regex" where
  "lit_i [] = Empty"
| "lit_i (c # cs) = Seq (Class (\<lambda>x. js_lower_char x = js_lower_char c)) (lit_i cs)"

definition one_or_more :: "regex \<Rightarrow> regex" where
  "one_or_more r = Seq r (Star r)"

definition one_to_five :: "regex \<Rightarrow> regex" where
  "one_to_five r = (let q = Alt r Empty in Seq r (Seq q (Seq q (Seq q q))))"

primrec seqs :: "regex list \<Rightarrow> regex" where
  "seqs [] = Empty"
| "seqs (r # rs) = Seq r (seqs rs)"

primrec alts :: "regex list \<Rightarrow> regex" where
  "alts [] = Void"
| "alts (r # rs) = Alt r (alts rs)"

definition space_class :: regex where "space_class = Class js_space"
definition nonspace_class :: regex where "nonspace_class = Class (\<lambda>c. \<not> js_space c)"
definition digit_class :: regex where "digit_class = Class (\<lambda>c. 48 \<le> (of_char c :: nat) \<and> (of_char c :: nat) \<le> 57)"
definition word_class :: regex where "word_class = Class js_word"
definition any_class :: regex where "any_class = Class (\<lambda>c. (of_char c :: nat) \<noteq> 10 \<and> (of_char c :: nat) \<noteq> 13)"

subsection \<open>The policy\<close>

definition UNSAFE_PATTERNS :: "regex list" where
  "UNSAFE_PATTERNS =
    [seqs [lit ''at'', one_or_more space_class, one_or_more nonspace_class, one_or_more space_class, lit ''('',
           Star any_class, lit '':'', one_or_more digit_class, lit '':'', one_or_more digit_class, lit '')''],
     seqs [lit ''at'', one_or_more space_class, lit ''Object.<anonymous>''],
     seqs [lit ''/'', Class (\<lambda>c. ascii_letter c \<or> c = CHR ''_''), Star (Class (\<lambda>c. js_word c \<or> c = CHR ''-'')),
           lit ''/'', Star any_class, lit ''.'', one_to_five word_class, lit '':''],
     seqs [Class (\<lambda>c. 65 \<le> (of_char c :: nat) \<and> (of_char c :: nat) \<le> 90), lit '':'', lit [CHR 0x5C],
           Star any_class, lit ''.'', one_to_five word_class],
     lit ''node_modules/'',
     alts [lit ''ECONNREFUSED'', lit ''ENOTFOUND'', lit ''ETIMEDOUT''],
     alts [Seq (lit_i ''SELECT'') space_class, Seq (lit_i ''INSERT'') space_class, Seq (lit_i ''UPDATE'') space_class,
           Seq (lit_i ''DELETE'') space_class],
     alts [lit_i ''password'', lit_i ''secret'', lit_i ''token'', lit_i ''apikey'']]"

definition containsUnsafeContent :: "string \<Rightarrow> bool" where
  "containsUnsafeContent message = list_ex (\<lambda>pattern. regex_test pattern message) UNSAFE_PATTERNS"

text \<open>The dash of \<open>rate_limited\<close> is written as its three UTF-8 bytes.\<close>

definition rate_limited_message :: string where
  "rate_limited_message = ''Too many requests '' @ [CHR 0xE2, CHR 0x80, CHR 0x94] @ '' please try again later''"

definition SAFE_ERROR_MESSAGES :: "(string \<times> string) list" where
  "SAFE_ERROR_MESSAGES =
    [(''internal_error'', ''An unexpected error occurred''),
     (''invalid_json'', ''Malformed JSON payload''),
     (''validation_error'', ''Request validation failed''),
     (''not_found'', ''The requested resource was not found''),
     (''unauthorized'', ''Authentication is required''),
     (''forbidden'', ''You do not have permission to perform this action''),
     (''dependency_unavailable'', ''A required service is temporarily unavailable''),
     (''rate_limited'', rate_limited_message),
     (''conflict'', ''The request conflicts with the current state''),
     (''ERR_CONFLICT'', ''The request conflicts with the current state''),
     (''bad_request'', ''The request could not be processed''),
     (''ERR_MISSING_VERSION'', ''version field is required for updates''),
     (''ERR_INVALID_VERSION'', ''version must be a non-negative integer''),
     (''contract_metadata_mismatch'', ''Contract metadata does not match expected value''),
     (''payload_too_large'', ''Payload Too Large''),
     (''unsupported_media_type'', ''Unsupported Media Type''),
     (''invalid_webhook_signature'', ''Webhook signature verification failed''),
     (''response_contract_error'', ''An unexpected error occurred''),
     (''dispute_not_found'', ''The requested dispute was not found''),
     (''invalid_state_transition'', ''The requested state transition is not allowed'')]"

text \<open>
  An index expression on an object literal also finds what the object inherits: a
  code that is the name of a member of \<open>Object.prototype\<close> gives that member, which
  is not a text.
\<close>

datatype message_value = Text string | Inherited string

definition OBJECT_PROTOTYPE_NAMES :: "string list" where
  "OBJECT_PROTOTYPE_NAMES =
    [''constructor'', ''__defineGetter__'', ''__defineSetter__'', ''hasOwnProperty'', ''__lookupGetter__'',
     ''__lookupSetter__'', ''isPrototypeOf'', ''propertyIsEnumerable'', ''toString'', ''valueOf'', ''__proto__'',
     ''toLocaleString'']"

definition safeMessageForCode :: "string \<Rightarrow> message_value" where
  "safeMessageForCode code =
     (case map_of SAFE_ERROR_MESSAGES code of
        Some m \<Rightarrow> Text m
      | None \<Rightarrow>
          if code \<in> set OBJECT_PROTOTYPE_NAMES then Inherited code
          else Text (the (map_of SAFE_ERROR_MESSAGES ''internal_error'')))"

definition sanitizeErrorMessage :: "string \<Rightarrow> string \<Rightarrow> message_value" where
  "sanitizeErrorMessage message code =
     (if containsUnsafeContent message then safeMessageForCode code else Text message)"

subsection \<open>What an unsafe message contains\<close>

lemma lang_lit: "lang (lit w) = {w}"
  by (induction w) auto

lemma lang_Seq_Class: "m \<in> lang (Seq (Class P) r) \<Longrightarrow> \<exists>x t. m = x # t \<and> P x \<and> t \<in> lang r"
  by auto

text \<open>Lower case, with every kind of white space as a blank.\<close>

definition flat_char :: "char \<Rightarrow> char" where
  "flat_char c = (if js_space c then CHR '' '' else js_lower_char c)"

lemma js_lower_char_space: "js_space (js_lower_char c) \<longleftrightarrow> js_space c" "js_space c \<Longrightarrow> js_lower_char c = c"
  by (auto simp: js_space_def js_lower_char_def Let_def)

lemma flat_char_letter:
  assumes "js_lower_char x = js_lower_char c" "\<not> js_space c"
  shows "flat_char x = js_lower_char c"
  using assms js_lower_char_space [of x] js_lower_char_space [of c] by (auto simp: flat_char_def)

lemma lang_lit_i:
  "m \<in> lang (lit_i w) \<Longrightarrow> \<not> list_ex js_space w \<Longrightarrow> map flat_char m = js_toLowerCase w"
proof (induction w arbitrary: m)
  case (Cons c w)
  from lang_Seq_Class [OF Cons.prems(1) [unfolded lit_i.simps]]
  obtain x t where "m = x # t" "js_lower_char x = js_lower_char c" "t \<in> lang (lit_i w)" by blast
  with Cons.IH [of t] Cons.prems(2) flat_char_letter [of x c] show ?case by (simp add: js_toLowerCase_def)
qed (simp add: js_toLowerCase_def)

lemma lang_alts: "m \<in> lang (alts rs) \<longleftrightarrow> (\<exists>r \<in> set rs. m \<in> lang r)"
  by (induction rs) auto

lemma lang_seqs_part: "m \<in> lang (seqs rs) \<Longrightarrow> r \<in> set rs \<Longrightarrow> \<exists>a x b. m = a @ x @ b \<and> x \<in> lang r"
proof (induction rs arbitrary: m)
  case (Cons q rs)
  from Cons.prems(1) obtain u v where uv: "m = u @ v" "u \<in> lang q" "v \<in> lang (seqs rs)" by auto
  show ?case
  proof (cases "r = q")
    case True
    with uv have "m = [] @ u @ v \<and> u \<in> lang r" by simp
    then show ?thesis by blast
  next
    case False
    with Cons.prems(2) Cons.IH [OF uv(3)] obtain a x b where "v = a @ x @ b" "x \<in> lang r" by auto
    with uv(1) have "m = (u @ a) @ x @ b \<and> x \<in> lang r" by simp
    then show ?thesis by blast
  qed
qed simp

lemma seqs_test_char:
  assumes "regex_test (seqs rs) s" "lit w \<in> set rs" "c \<in> set w"
  shows "c \<in> set s"
proof -
  from assms(1) obtain a m b where m: "s = a @ m @ b" "m \<in> lang (seqs rs)" by (auto simp: regex_test_lang)
  from lang_seqs_part [OF m(2) assms(2)] obtain a' b' where "m = a' @ w @ b'" by (auto simp: lang_lit)
  with m(1) assms(3) show ?thesis by simp
qed

lemma lit_test: "regex_test (lit w) s \<longleftrightarrow> js_includes s w"
  by (auto simp: regex_test_lang lang_lit js_includes_iff)

lemma lit_i_test:
  assumes "regex_test (lit_i w) s" "\<not> list_ex js_space w"
  shows "js_includes (map flat_char s) (js_toLowerCase w)"
proof -
  from assms(1) obtain a m b where "s = a @ m @ b" "m \<in> lang (lit_i w)" by (auto simp: regex_test_lang)
  with lang_lit_i [OF _ assms(2)] have "map flat_char s = map flat_char a @ js_toLowerCase w @ map flat_char b" by simp
  then show ?thesis unfolding js_includes_iff by blast
qed

lemma alts_test: "regex_test (alts rs) s \<longleftrightarrow> (\<exists>r \<in> set rs. regex_test r s)"
  unfolding regex_test_lang lang_alts by blast

lemma lit_i_space_test:
  assumes "regex_test (Seq (lit_i w) space_class) s" "\<not> list_ex js_space w"
  shows "js_includes (map flat_char s) (js_toLowerCase w @ '' '')"
proof -
  from assms(1) obtain a u c b where "s = a @ u @ [c] @ b" "u \<in> lang (lit_i w)" "js_space c"
    by (auto simp: regex_test_lang space_class_def)
  with lang_lit_i [OF _ assms(2)] have "map flat_char s = map flat_char a @ (js_toLowerCase w @ '' '') @ map flat_char b"
    by (simp add: flat_char_def)
  then show ?thesis unfolding js_includes_iff by blast
qed

text \<open>A necessary condition that is cheap to evaluate.\<close>

definition suspicious :: "string \<Rightarrow> bool" where
  "suspicious s \<longleftrightarrow>
     CHR ''('' \<in> set s \<or> CHR ''<'' \<in> set s \<or> CHR ''/'' \<in> set s \<or> CHR 0x5C \<in> set s \<or> CHR ''E'' \<in> set s \<or>
     (let t = map flat_char s in list_ex (\<lambda>w. js_includes t w))
       [''select '', ''insert '', ''update '', ''delete '', ''password'', ''secret'', ''token'', ''apikey'']"

lemma sql_words: "js_toLowerCase ''SELECT'' = ''select''" "js_toLowerCase ''INSERT'' = ''insert''"
  "js_toLowerCase ''UPDATE'' = ''update''" "js_toLowerCase ''DELETE'' = ''delete''"
  "js_toLowerCase ''password'' = ''password''" "js_toLowerCase ''secret'' = ''secret''"
  "js_toLowerCase ''token'' = ''token''" "js_toLowerCase ''apikey'' = ''apikey''"
  by code_simp+

lemma errno_test:
  assumes "regex_test (alts [lit ''ECONNREFUSED'', lit ''ENOTFOUND'', lit ''ETIMEDOUT'']) s"
  shows "CHR ''E'' \<in> set s"
  using assms unfolding alts_test by (auto simp: lit_test js_includes_iff simp del: lit.simps)

lemma sql_test:
  assumes "regex_test (alts [Seq (lit_i ''SELECT'') space_class, Seq (lit_i ''INSERT'') space_class,
      Seq (lit_i ''UPDATE'') space_class, Seq (lit_i ''DELETE'') space_class]) s"
  shows "list_ex (js_includes (map flat_char s)) [''select '', ''insert '', ''update '', ''delete '']"
  using assms lit_i_space_test [of "''SELECT''" s] lit_i_space_test [of "''INSERT''" s]
    lit_i_space_test [of "''UPDATE''" s] lit_i_space_test [of "''DELETE''" s]
  unfolding alts_test sql_words by (auto simp: js_space_def simp del: lit_i.simps js_includes.simps)

lemma credential_test:
  assumes "regex_test (alts [lit_i ''password'', lit_i ''secret'', lit_i ''token'', lit_i ''apikey'']) s"
  shows "list_ex (js_includes (map flat_char s)) [''password'', ''secret'', ''token'', ''apikey'']"
  using assms lit_i_test [of "''password''" s] lit_i_test [of "''secret''" s]
    lit_i_test [of "''token''" s] lit_i_test [of "''apikey''" s]
  unfolding alts_test sql_words by (auto simp: js_space_def simp del: lit_i.simps js_includes.simps)

lemma suspicious_char: "c \<in> set s \<Longrightarrow> c \<in> {CHR ''('', CHR ''<'', CHR ''/'', CHR 0x5C, CHR ''E''} \<Longrightarrow> suspicious s"
  by (auto simp: suspicious_def Let_def simp del: js_includes.simps)

lemma suspicious_words:
  "list_ex (js_includes (map flat_char s)) [''select '', ''insert '', ''update '', ''delete ''] \<Longrightarrow> suspicious s"
  "list_ex (js_includes (map flat_char s)) [''password'', ''secret'', ''token'', ''apikey''] \<Longrightarrow> suspicious s"
  by (auto simp: suspicious_def Let_def simp del: js_includes.simps)

lemma suspicious_seqs:
  "regex_test (seqs rs) s \<Longrightarrow> lit w \<in> set rs \<Longrightarrow> c \<in> set w \<Longrightarrow>
     c \<in> {CHR ''('', CHR ''<'', CHR ''/'', CHR 0x5C, CHR ''E''} \<Longrightarrow> suspicious s"
  by (rule suspicious_char [OF seqs_test_char])

lemma unsafe_suspicious:
  assumes "containsUnsafeContent s"
  shows "suspicious s"
proof -
  have slash: "regex_test (lit ''node_modules/'') s \<Longrightarrow> CHR ''/'' \<in> set s"
    by (auto simp: lit_test js_includes_iff simp del: lit.simps)
  from assms obtain pattern where "pattern \<in> set UNSAFE_PATTERNS" "regex_test pattern s"
    unfolding containsUnsafeContent_def list_ex_iff by blast
  then show ?thesis
    unfolding UNSAFE_PATTERNS_def set_simps insert_iff empty_iff
    apply (elim disjE FalseE; hypsubst)
    subgoal by (erule suspicious_seqs [where w = "''(''" and c = "CHR ''(''"]) (simp_all del: lit.simps)
    subgoal by (erule suspicious_seqs [where w = "''Object.<anonymous>''" and c = "CHR ''<''"]) (simp_all del: lit.simps)
    subgoal by (erule suspicious_seqs [where w = "''/''" and c = "CHR ''/''"]) (simp_all del: lit.simps)
    subgoal by (erule suspicious_seqs [where w = "[CHR 0x5C]" and c = "CHR 0x5C"]) (simp_all del: lit.simps)
    subgoal by (rule suspicious_char [OF slash]) simp_all
    subgoal by (rule suspicious_char [OF errno_test]) simp_all
    subgoal by (rule suspicious_words(1) [OF sql_test])
    subgoal by (rule suspicious_words(2) [OF credential_test])
    done
qed

lemma canonical_not_suspicious:
  "list_all (\<lambda>(code, message). \<not> suspicious message) SAFE_ERROR_MESSAGES"
  by code_simp

lemma canonical_safe: "map_of SAFE_ERROR_MESSAGES code = Some m \<Longrightarrow> \<not> containsUnsafeContent m"
  using canonical_not_suspicious unsafe_suspicious by (auto simp: list_all_iff dest!: map_of_SomeD)

lemma internal_error_message:
  "map_of SAFE_ERROR_MESSAGES ''internal_error'' = Some ''An unexpected error occurred''"
  by (simp add: SAFE_ERROR_MESSAGES_def)

lemma sanitized_safe:
  "sanitizeErrorMessage m code = Text t \<or> safeMessageForCode code = Text t \<Longrightarrow> \<not> containsUnsafeContent t"
  using canonical_safe [OF internal_error_message] canonical_safe
  by (auto simp: sanitizeErrorMessage_def safeMessageForCode_def internal_error_message
        split: if_splits option.splits)

lemma safeMessage_Text: "code \<notin> set OBJECT_PROTOTYPE_NAMES \<Longrightarrow> \<exists>t. safeMessageForCode code = Text t"
  by (auto simp: safeMessageForCode_def split: option.split)

subsection \<open>Errors and their responses\<close>

text \<open>
  An \<open>AppError\<close> with its fields; a \<open>ZodError\<close> with its issues; anything else a
  handler may throw, with its text.
\<close>

record app_error =
  er_statusCode :: rat
  er_code :: string
  er_message :: string
  er_expose :: bool

record zod_issue =
  zi_path :: "string list"
  zi_message :: string
  zi_code :: string

datatype thrown = App app_error | Zod "zod_issue list" | Other string

definition AppError :: "int \<Rightarrow> string \<Rightarrow> string \<Rightarrow> bool \<Rightarrow> app_error" where
  "AppError statusCode code message expose =
     \<lparr>er_statusCode = of_int statusCode, er_code = code, er_message = message, er_expose = expose\<rparr>"

definition NotFoundError :: "string \<Rightarrow> app_error" where
  "NotFoundError message = AppError 404 ''not_found'' message True"

definition UnauthorizedError :: "string \<Rightarrow> app_error" where
  "UnauthorizedError message = AppError 401 ''unauthorized'' message True"

definition MissingVersionError :: app_error where
  "MissingVersionError = AppError 400 ''ERR_MISSING_VERSION'' ''version field is required for updates'' True"

definition InvalidVersionError :: app_error where
  "InvalidVersionError = AppError 400 ''ERR_INVALID_VERSION'' ''version must be a non-negative integer'' True"

definition VersionConflictError :: app_error where
  "VersionConflictError = AppError 409 ''ERR_CONFLICT'' ''Version conflict'' True"

definition ForbiddenError :: "string \<Rightarrow> app_error" where
  "ForbiddenError message = AppError 403 ''forbidden'' message True"

definition ConflictError :: "string \<Rightarrow> app_error" where
  "ConflictError message = AppError 409 ''conflict'' message True"

definition ContractMetadataMismatchError :: "string \<Rightarrow> app_error" where
  "ContractMetadataMismatchError message = AppError 400 ''contract_metadata_mismatch'' message False"

definition ResponseContractError :: "string \<Rightarrow> app_error" where
  "ResponseContractError message = AppError 500 ''response_contract_error'' message False"

definition ValidationError :: "string \<Rightarrow> app_error" where
  "ValidationError message = AppError 422 ''validation_error'' message True"

record validation_issue =
  vi_path :: "string list"
  vi_message :: message_value
  vi_code :: string

record error_payload =
  ep_code :: string
  ep_message :: message_value
  ep_requestId :: string
  ep_correlationId :: "string option"
  ep_details :: "validation_issue list option"

definition statusCodeFor :: "app_error \<Rightarrow> int" where
  "statusCodeFor e =
     (if of_int \<lfloor>er_statusCode e\<rfloor> = er_statusCode e \<and> er_statusCode e \<ge> 400 \<and> er_statusCode e \<le> 599 then \<lfloor>er_statusCode e\<rfloor> else 500)"

definition mapZodErrorToDetails :: "zod_issue list \<Rightarrow> validation_issue list" where
  "mapZodErrorToDetails issues =
     map (\<lambda>i. \<lparr>vi_path = zi_path i, vi_message = sanitizeErrorMessage (zi_message i) ''validation_error'',
               vi_code = zi_code i\<rparr>) issues"

definition mapErrorToPayload :: "thrown \<Rightarrow> string \<Rightarrow> string option \<Rightarrow> int \<times> error_payload" where
  "mapErrorToPayload err requestId correlationId =
     (case err of
        App e \<Rightarrow>
          (let message = (if er_expose e then sanitizeErrorMessage (er_message e) (er_code e)
                          else safeMessageForCode (er_code e))
           in (statusCodeFor e,
               \<lparr>ep_code = er_code e, ep_message = message, ep_requestId = requestId,
                ep_correlationId = correlationId, ep_details = None\<rparr>))
      | Zod issues \<Rightarrow>
          (400, \<lparr>ep_code = ''validation_error'', ep_message = safeMessageForCode ''validation_error'',
                 ep_requestId = requestId, ep_correlationId = correlationId,
                 ep_details = Some (mapZodErrorToDetails issues)\<rparr>)
      | Other text \<Rightarrow>
          (500, \<lparr>ep_code = ''internal_error'', ep_message = safeMessageForCode ''internal_error'',
                 ep_requestId = requestId, ep_correlationId = correlationId, ep_details = None\<rparr>))"

text \<open>The texts of a response: its message and those of its details.\<close>

definition payload_messages :: "error_payload \<Rightarrow> message_value list" where
  "payload_messages p = ep_message p # (case ep_details p of None \<Rightarrow> [] | Some ds \<Rightarrow> map vi_message ds)"

definition safe_value :: "message_value \<Rightarrow> bool" where
  "safe_value v \<longleftrightarrow> (case v of Text t \<Rightarrow> \<not> containsUnsafeContent t | Inherited n \<Rightarrow> False)"

lemma safe_value_sanitized:
  assumes "code \<notin> set OBJECT_PROTOTYPE_NAMES"
  shows "safe_value (sanitizeErrorMessage m code)" "safe_value (safeMessageForCode code)"
proof -
  from safeMessage_Text [OF assms] obtain t where t: "safeMessageForCode code = Text t" by blast
  then show "safe_value (safeMessageForCode code)" using sanitized_safe [of m code t] by (simp add: safe_value_def)
  with t show "safe_value (sanitizeErrorMessage m code)" by (auto simp: sanitizeErrorMessage_def safe_value_def)
qed

lemma statusCodeFor_range: "400 \<le> statusCodeFor e \<and> statusCodeFor e \<le> 599"
  by (auto simp: statusCodeFor_def le_floor_iff floor_le_iff)

text \<open>
  C26. Nothing that matches the unsafe patterns reaches a client: whatever is
  thrown, the response has a status from 400 to 599 and its message and the
  messages of its details are texts without unsafe content, provided that the
  code of an \<open>AppError\<close> is not the name of a member of \<open>Object.prototype\<close>; and the
  response to an error of any other kind, or to an \<open>AppError\<close> not to be exposed,
  does not depend on its text.
\<close>

theorem error_responses_safe:
  assumes "case err of App e \<Rightarrow> er_code e \<notin> set OBJECT_PROTOTYPE_NAMES | _ \<Rightarrow> True"
  shows "(let (status, payload) = mapErrorToPayload err requestId correlationId
      in 400 \<le> status \<and> status \<le> 599 \<and> list_all safe_value (payload_messages payload)) \<and>
    mapErrorToPayload (Other text1) requestId correlationId = mapErrorToPayload (Other text2) requestId correlationId \<and>
    mapErrorToPayload (App (e\<lparr>er_expose := False, er_message := text1\<rparr>)) requestId correlationId =
      mapErrorToPayload (App (e\<lparr>er_expose := False, er_message := text2\<rparr>)) requestId correlationId"
proof -
  have names: "''validation_error'' \<notin> set OBJECT_PROTOTYPE_NAMES" "''internal_error'' \<notin> set OBJECT_PROTOTYPE_NAMES"
    by (simp_all add: OBJECT_PROTOTYPE_NAMES_def)
  have details: "list_all safe_value (map vi_message (mapZodErrorToDetails issues))" for issues
    by (simp add: mapZodErrorToDetails_def list_all_iff safe_value_sanitized names)
  have "let (status, payload) = mapErrorToPayload err requestId correlationId
      in 400 \<le> status \<and> status \<le> 599 \<and> list_all safe_value (payload_messages payload)"
    using assms statusCodeFor_range
    by (cases err) (simp_all add: mapErrorToPayload_def payload_messages_def safe_value_sanitized names details Let_def)
  moreover have "statusCodeFor (e\<lparr>er_expose := x, er_message := m\<rparr>) = statusCodeFor e" for x m
    by (auto simp: statusCodeFor_def)
  ultimately show ?thesis by (simp add: mapErrorToPayload_def Let_def)
qed

theorem error_responses_safe_witness:
  "let (status, payload) = mapErrorToPayload (App (NotFoundError ''SELECT * FROM users'')) ''r1'' None
   in 400 \<le> status \<and> list_all safe_value (payload_messages payload)"
  using error_responses_safe [of "App (NotFoundError ''SELECT * FROM users'')" "''r1''" None]
  by (simp add: NotFoundError_def AppError_def OBJECT_PROTOTYPE_NAMES_def split_beta Let_def)

end
