(* ===== verification/RateLimiter.thy ===== *)
theory RateLimiter
  imports JsMap SafeErrors
begin

text \<open>
  The request limiter of \<open>src/middleware/rateLimiter.ts\<close> over the counters of
  \<open>src/lib/rateLimitStore.ts\<close>.  The middleware runs to completion for each request,
  so it is one function from the key, the clock and the state to the response and
  the new state.  A stored entry is shared by reference between the map and the
  handler, which writes every changed entry back, so that a value model agrees.
  The interval timer of the store is the event \<open>Sweep_Timer\<close>, which calls \<open>sweep\<close>
  with its default argument.
\<close>

subsection \<open>The store\<close>

record rate_limit_entry =
  re_count :: int
  re_windowStart :: ms
  re_blocked :: bool
  re_blockedUntil :: ms

record token_bucket_entry =
  tb_tokens :: rat
  tb_lastRefillMs :: ms
  tb_queue :: "nat list"

record rate_limit_store =
  ls_counters :: "(string, rate_limit_entry) jsmap"
  ls_tokenBuckets :: "(string, token_bucket_entry) jsmap"
  ls_destroyed :: bool

definition new_rate_limit_store :: rate_limit_store where
  "new_rate_limit_store = \<lparr>ls_counters = map_empty, ls_tokenBuckets = map_empty, ls_destroyed = False\<rparr>"

definition hashKey :: "(string \<Rightarrow> string) \<Rightarrow> string \<Rightarrow> string" where
  "hashKey sha raw = sha raw"

definition store_get :: "(string \<Rightarrow> string) \<Rightarrow> string \<Rightarrow> rate_limit_store \<Rightarrow> rate_limit_entry option" where
  "store_get sha rawKey st = map_get (ls_counters st) (hashKey sha rawKey)"

definition store_set :: "(string \<Rightarrow> string) \<Rightarrow> string \<Rightarrow> rate_limit_entry \<Rightarrow> rate_limit_store \<Rightarrow> rate_limit_store" where
  "store_set sha rawKey entry st = st\<lparr>ls_counters := map_set (hashKey sha rawKey) entry (ls_counters st)\<rparr>"

definition store_delete :: "(string \<Rightarrow> string) \<Rightarrow> string \<Rightarrow> rate_limit_store \<Rightarrow> rate_limit_store" where
  "store_delete sha rawKey st =
     (let hashedKey = hashKey sha rawKey
      in st\<lparr>ls_counters := map_delete hashedKey (ls_counters st),
            ls_tokenBuckets := map_delete hashedKey (ls_tokenBuckets st)\<rparr>)"

definition getTokenBucket :: "(string \<Rightarrow> string) \<Rightarrow> string \<Rightarrow> rate_limit_store \<Rightarrow> token_bucket_entry option" where
  "getTokenBucket sha rawKey st = map_get (ls_tokenBuckets st) (hashKey sha rawKey)"

definition setTokenBucket ::
  "(string \<Rightarrow> string) \<Rightarrow> string \<Rightarrow> token_bucket_entry \<Rightarrow> rate_limit_store \<Rightarrow> rate_limit_store" where
  "setTokenBucket sha rawKey entry st =
     st\<lparr>ls_tokenBuckets := map_set (hashKey sha rawKey) entry (ls_tokenBuckets st)\<rparr>"

definition store_size :: "rate_limit_store \<Rightarrow> nat" where
  "store_size st = map_size (ls_counters st)"

definition tokenBucketSize :: "rate_limit_store \<Rightarrow> nat" where
  "tokenBucketSize st = map_size (ls_tokenBuckets st)"

definition store_sweep :: "ms \<Rightarrow> ms \<Rightarrow> rate_limit_store \<Rightarrow> rate_limit_store" where
  "store_sweep windowMs now st =
     (if ls_destroyed st then st
      else st\<lparr>ls_counters := fst (map_reap (\<lambda>key entry.
             (let windowExpired = now - re_windowStart entry > windowMs;
                  blockExpired = \<not> re_blocked entry \<or> now > re_blockedUntil entry
              in windowExpired \<and> blockExpired)) (ls_counters st))\<rparr>)"

definition store_clear :: "rate_limit_store \<Rightarrow> rate_limit_store" where
  "store_clear st = st\<lparr>ls_counters := map_empty, ls_tokenBuckets := map_empty\<rparr>"

definition store_destroy :: "rate_limit_store \<Rightarrow> rate_limit_store" where
  "store_destroy st = store_clear (st\<lparr>ls_destroyed := True\<rparr>)"

subsection \<open>The middleware\<close>

record limiter_config =
  rc_maxRequests :: int
  rc_windowMs :: ms
  rc_abuseThreshold :: int
  rc_blockWindowMs :: ms
  rc_blockDurationMs :: ms
  rc_maxBlockDurationMs :: ms
  rc_sendHeaders :: bool

definition default_limiter_config :: limiter_config where
  "default_limiter_config =
     \<lparr>rc_maxRequests = 100, rc_windowMs = 60000, rc_abuseThreshold = 5, rc_blockWindowMs = 300000,
      rc_blockDurationMs = 600000, rc_maxBlockDurationMs = 86400000, rc_sendHeaders = True\<rparr>"

record abuse_record =
  ab_violations :: int
  ab_firstViolation :: ms
  ab_blockDuration :: ms

record rate_limiter =
  rl_config :: limiter_config
  rl_store :: rate_limit_store
  rl_abuse :: "(string, abuse_record) jsmap"

definition createRateLimiter :: "limiter_config \<Rightarrow> rate_limit_store \<Rightarrow> rate_limiter" where
  "createRateLimiter config store = \<lparr>rl_config = config, rl_store = store, rl_abuse = map_empty\<rparr>"

text \<open>A header is set to a number or a text; a rejected request is answered with status 429.\<close>

datatype limiter_outcome = Next | TooManyRequests message_value string

record limiter_response =
  lr_headers :: "(string \<times> json) list"
  lr_outcome :: limiter_outcome

definition too_many :: "string option \<Rightarrow> limiter_outcome" where
  "too_many requestId =
     TooManyRequests (sanitizeErrorMessage rate_limited_message ''rate_limited'')
       (case requestId of Some r \<Rightarrow> r | None \<Rightarrow> ''unknown'')"

definition send_headers :: "limiter_config \<Rightarrow> (string \<times> json) list \<Rightarrow> (string \<times> json) list" where
  "send_headers cfg hs = (if rc_sendHeaders cfg then hs else [])"

definition blocked_headers :: "int \<Rightarrow> (string \<times> json) list" where
  "blocked_headers retryAfterSec =
     [(''Retry-After'', JNum retryAfterSec), (''X-RateLimit-Blocked'', JStr ''true'')]"

definition roll_entry :: "limiter_config \<Rightarrow> ms \<Rightarrow> rate_limit_entry option \<Rightarrow> rate_limit_entry" where
  "roll_entry cfg now stored =
     (let entry = (case stored of
                     Some e \<Rightarrow> e
                   | None \<Rightarrow> \<lparr>re_count = 0, re_windowStart = now, re_blocked = False, re_blockedUntil = 0\<rparr>);
          entry = (if now - re_windowStart entry > rc_windowMs cfg
                   then entry\<lparr>re_count := 0, re_windowStart := now\<rparr> else entry)
      in entry\<lparr>re_count := re_count entry + 1\<rparr>)"

definition roll_abuse :: "limiter_config \<Rightarrow> ms \<Rightarrow> abuse_record option \<Rightarrow> abuse_record" where
  "roll_abuse cfg now stored =
     (let abuse = (case stored of
                     Some a \<Rightarrow> a
                   | None \<Rightarrow> \<lparr>ab_violations = 0, ab_firstViolation = now, ab_blockDuration = rc_blockDurationMs cfg\<rparr>);
          abuse = (if now - ab_firstViolation abuse > rc_blockWindowMs cfg
                   then \<lparr>ab_violations = 0, ab_firstViolation = now, ab_blockDuration = rc_blockDurationMs cfg\<rparr>
                   else abuse)
      in abuse\<lparr>ab_violations := ab_violations abuse + 1\<rparr>)"

definition count_request ::
  "(string \<Rightarrow> string) \<Rightarrow> string \<Rightarrow> ms \<Rightarrow> string option \<Rightarrow> rate_limiter \<Rightarrow> limiter_response \<times> rate_limiter" where
  "count_request sha rawKey now requestId L =
     (let cfg = rl_config L;
          entry = roll_entry cfg now (store_get sha rawKey (rl_store L));
          L1 = L\<lparr>rl_store := store_set sha rawKey entry (rl_store L)\<rparr>;
          remaining = max 0 (rc_maxRequests cfg - re_count entry);
          resetSec = ceil_div (re_windowStart entry + rc_windowMs cfg - now) 1000;
          headers = send_headers cfg
            [(''X-RateLimit-Limit'', JNum (rc_maxRequests cfg)), (''X-RateLimit-Remaining'', JNum remaining),
             (''X-RateLimit-Reset'', JNum resetSec)]
      in if re_count entry > rc_maxRequests cfg
         then
           (let hashedKey = hashKey sha rawKey;
                abuse = roll_abuse cfg now (map_get (rl_abuse L1) hashedKey)
            in if ab_violations abuse \<ge> rc_abuseThreshold cfg
               then
                 (let duration = min (ab_blockDuration abuse) (rc_maxBlockDurationMs cfg);
                      abuse = abuse\<lparr>ab_blockDuration := min (ab_blockDuration abuse * 2) (rc_maxBlockDurationMs cfg)\<rparr>;
                      entry = entry\<lparr>re_blocked := True, re_blockedUntil := now + duration\<rparr>
                  in (\<lparr>lr_headers = headers @ send_headers cfg (blocked_headers (ceil_div duration 1000)),
                       lr_outcome = too_many requestId\<rparr>,
                      L1\<lparr>rl_store := store_set sha rawKey entry (rl_store L1),
                         rl_abuse := map_set hashedKey abuse (rl_abuse L1)\<rparr>))
               else
                 (\<lparr>lr_headers = headers @ send_headers cfg [(''Retry-After'', JNum resetSec)],
                   lr_outcome = too_many requestId\<rparr>,
                  L1\<lparr>rl_abuse := map_set hashedKey abuse (rl_abuse L1)\<rparr>))
         else (\<lparr>lr_headers = headers, lr_outcome = Next\<rparr>, L1))"

definition rateLimiterMiddleware ::
  "(string \<Rightarrow> string) \<Rightarrow> string \<Rightarrow> ms \<Rightarrow> string option \<Rightarrow> rate_limiter \<Rightarrow> limiter_response \<times> rate_limiter" where
  "rateLimiterMiddleware sha rawKey now requestId L =
     (case store_get sha rawKey (rl_store L) of
        Some existing \<Rightarrow>
          if re_blocked existing
          then if now < re_blockedUntil existing
               then (\<lparr>lr_headers = send_headers (rl_config L)
                         (blocked_headers (ceil_div (re_blockedUntil existing - now) 1000)),
                      lr_outcome = too_many requestId\<rparr>, L)
               else count_request sha rawKey now requestId
                      (L\<lparr>rl_store := store_delete sha rawKey (rl_store L),
                         rl_abuse := map_delete (hashKey sha rawKey) (rl_abuse L)\<rparr>)
          else count_request sha rawKey now requestId L
      | None \<Rightarrow> count_request sha rawKey now requestId L)"

text \<open>
  The default key: the first address of \<open>X-Forwarded-For\<close>, a single value or a list
  of values, else the address of the connection.  The first element of an empty
  list is undefined, and reading its \<open>trim\<close> throws.
\<close>

datatype header_value = Absent | Single string | Multiple "string list"

fun split_first :: "char \<Rightarrow> string \<Rightarrow> string" where
  "split_first sep [] = []"
| "split_first sep (c # s) = (if c = sep then [] else c # split_first sep s)"

definition defaultKeyFn :: "header_value \<Rightarrow> string option \<Rightarrow> string option \<Rightarrow> (unit, string) result" where
  "defaultKeyFn xff ip remoteAddress =
     (let fallback = (case ip of Some a \<Rightarrow> a | None \<Rightarrow> (case remoteAddress of Some a \<Rightarrow> a | None \<Rightarrow> ''unknown''))
      in case xff of
           Absent \<Rightarrow> Ok fallback
         | Single s \<Rightarrow> if s = [] then Ok fallback else Ok (js_trim (split_first (CHR '','') s))
         | Multiple vs \<Rightarrow> (case vs of [] \<Rightarrow> Throw () | v # _ \<Rightarrow> Ok (js_trim v)))"

subsection \<open>What a request changes\<close>

definition entry_of :: "string \<Rightarrow> rate_limiter \<Rightarrow> rate_limit_entry option" where
  "entry_of h L = map_get (ls_counters (rl_store L)) h"

definition abuse_of :: "string \<Rightarrow> rate_limiter \<Rightarrow> abuse_record option" where
  "abuse_of h L = map_get (rl_abuse L) h"

definition limiter_wf :: "rate_limiter \<Rightarrow> bool" where
  "limiter_wf L \<longleftrightarrow> map_wf (ls_counters (rl_store L))"

lemmas limiter_defs = rateLimiterMiddleware_def count_request_def store_get_def store_set_def store_delete_def
  hashKey_def entry_of_def abuse_of_def limiter_wf_def Let_def

lemma middleware_config [simp]: "rl_config (snd (rateLimiterMiddleware sha k now rid L)) = rl_config L"
  by (simp add: limiter_defs split: option.split)

lemma middleware_wf: "limiter_wf L \<Longrightarrow> limiter_wf (snd (rateLimiterMiddleware sha k now rid L))"
  by (simp add: limiter_defs split: option.split)

lemma middleware_other:
  assumes "sha k' \<noteq> h"
  shows "entry_of h (snd (rateLimiterMiddleware sha k' now rid L)) = entry_of h L"
    and "abuse_of h (snd (rateLimiterMiddleware sha k' now rid L)) = abuse_of h L"
  using assms by (simp_all add: limiter_defs split: option.split)

text \<open>The block that a request which exceeds the limit may cause.\<close>

definition block_entry :: "limiter_config \<Rightarrow> ms \<Rightarrow> abuse_record \<Rightarrow> rate_limit_entry \<Rightarrow> rate_limit_entry" where
  "block_entry cfg now abuse e =
     (if ab_violations abuse \<ge> rc_abuseThreshold cfg
      then e\<lparr>re_blocked := True, re_blockedUntil := now + min (ab_blockDuration abuse) (rc_maxBlockDurationMs cfg)\<rparr>
      else e)"

definition block_abuse :: "limiter_config \<Rightarrow> abuse_record \<Rightarrow> abuse_record" where
  "block_abuse cfg abuse =
     (if ab_violations abuse \<ge> rc_abuseThreshold cfg
      then abuse\<lparr>ab_blockDuration := min (ab_blockDuration abuse * 2) (rc_maxBlockDurationMs cfg)\<rparr> else abuse)"

lemma count_request_self:
  fixes L sha k now
  defines "e \<equiv> roll_entry (rl_config L) now (entry_of (sha k) L)"
    and "a \<equiv> roll_abuse (rl_config L) now (abuse_of (sha k) L)"
  shows "lr_outcome (fst (count_request sha k now rid L)) = Next \<longleftrightarrow> re_count e \<le> rc_maxRequests (rl_config L)"
    and "entry_of (sha k) (snd (count_request sha k now rid L)) =
      Some (if re_count e > rc_maxRequests (rl_config L) then block_entry (rl_config L) now a e else e)"
    and "abuse_of (sha k) (snd (count_request sha k now rid L)) =
      (if re_count e > rc_maxRequests (rl_config L) then Some (block_abuse (rl_config L) a) else abuse_of (sha k) L)"
  unfolding e_def a_def
  by (auto simp: limiter_defs too_many_def block_entry_def block_abuse_def)

lemma middleware_unblocked:
  "(\<And>e. entry_of (sha k) L = Some e \<Longrightarrow> \<not> re_blocked e) \<Longrightarrow>
     rateLimiterMiddleware sha k now rid L = count_request sha k now rid L"
  by (auto simp: limiter_defs split: option.split)

lemma middleware_blocked:
  assumes "entry_of (sha k) L = Some e" "re_blocked e" "now < re_blockedUntil e"
  shows "rateLimiterMiddleware sha k now rid L =
    (\<lparr>lr_headers = send_headers (rl_config L) (blocked_headers (ceil_div (re_blockedUntil e - now) 1000)),
      lr_outcome = too_many rid\<rparr>, L)"
  using assms by (simp add: rateLimiterMiddleware_def entry_of_def store_get_def hashKey_def)

definition sweep_timer :: "ms \<Rightarrow> rate_limiter \<Rightarrow> rate_limiter" where
  "sweep_timer now L = L\<lparr>rl_store := store_sweep 60000 now (rl_store L)\<rparr>"

lemma sweep_timer_sel [simp]:
  "rl_config (sweep_timer now L) = rl_config L" "abuse_of h (sweep_timer now L) = abuse_of h L"
  by (simp_all add: sweep_timer_def abuse_of_def)

lemma sweep_timer_wf: "limiter_wf L \<Longrightarrow> limiter_wf (sweep_timer now L)"
  by (simp add: sweep_timer_def store_sweep_def limiter_wf_def)

lemma sweep_timer_entry:
  "limiter_wf L \<Longrightarrow> entry_of h (sweep_timer now L) =
     (case entry_of h L of
        None \<Rightarrow> None
      | Some e \<Rightarrow>
          if \<not> ls_destroyed (rl_store L) \<and> now - re_windowStart e > 60000 \<and> (\<not> re_blocked e \<or> now > re_blockedUntil e)
          then None else Some e)"
  by (simp add: sweep_timer_def store_sweep_def limiter_wf_def entry_of_def map_get_reap Let_def split: option.split)

subsection \<open>Sequences of requests\<close>

datatype limiter_event = Request string ms "string option" | Sweep_Timer ms

primrec event_time :: "limiter_event \<Rightarrow> ms" where
  "event_time (Request k now rid) = now"
| "event_time (Sweep_Timer now) = now"

primrec limiter_handle :: "(string \<Rightarrow> string) \<Rightarrow> limiter_event \<Rightarrow> rate_limiter \<Rightarrow> rate_limiter" where
  "limiter_handle sha (Request k now rid) L = snd (rateLimiterMiddleware sha k now rid L)"
| "limiter_handle sha (Sweep_Timer now) L = sweep_timer now L"

text \<open>The answers to the requests whose key hashes to \<open>h\<close>: whether they were let through.\<close>

primrec answers :: "(string \<Rightarrow> string) \<Rightarrow> string \<Rightarrow> limiter_event list \<Rightarrow> rate_limiter \<Rightarrow> bool list" where
  "answers sha h [] L = []"
| "answers sha h (ev # evs) L =
     (case ev of
        Request k now rid \<Rightarrow>
          if sha k = h then [lr_outcome (fst (rateLimiterMiddleware sha k now rid L)) = Next] else []
      | Sweep_Timer now \<Rightarrow> []) @ answers sha h evs (limiter_handle sha ev L)"

interpretation limiter_sys: handler_system "limiter_handle sha" limiter_wf
proof
  fix s e
  assume "limiter_wf s"
  then show "limiter_wf (limiter_handle sha e s)"
    by (cases e) (simp_all add: middleware_wf sweep_timer_wf)
qed

lemma limiter_handle_config [simp]: "rl_config (limiter_handle sha ev L) = rl_config L"
  by (cases ev) simp_all

subsection \<open>One window\<close>

definition window_config :: "limiter_config \<Rightarrow> bool" where
  "window_config cfg \<longleftrightarrow>
     rc_windowMs cfg \<le> 60000 \<and> rc_windowMs cfg < rc_blockDurationMs cfg \<and> rc_windowMs cfg < rc_maxBlockDurationMs cfg \<and>
     0 \<le> rc_windowMs cfg"

definition long_block :: "limiter_config \<Rightarrow> abuse_record \<Rightarrow> bool" where
  "long_block cfg a \<longleftrightarrow> rc_windowMs cfg < ab_blockDuration a"

definition window_state :: "string \<Rightarrow> ms \<Rightarrow> int \<Rightarrow> rate_limiter \<Rightarrow> bool" where
  "window_state h t0 n L \<longleftrightarrow>
     limiter_wf L \<and> pred_option (long_block (rl_config L)) (abuse_of h L) \<and> 0 \<le> n \<and>
     (case entry_of h L of
        None \<Rightarrow> n = 0
      | Some e \<Rightarrow>
          t0 \<le> re_windowStart e \<and>
          (if re_blocked e then rc_maxRequests (rl_config L) < n \<and> t0 + rc_windowMs (rl_config L) < re_blockedUntil e
           else re_count e = n))"

lemma long_block_roll:
  "window_config cfg \<Longrightarrow> pred_option (long_block cfg) a \<Longrightarrow> long_block cfg (roll_abuse cfg now a)"
  by (auto simp: roll_abuse_def long_block_def window_config_def Let_def split: option.split)

lemma long_block_block: "window_config cfg \<Longrightarrow> long_block cfg a \<Longrightarrow> long_block cfg (block_abuse cfg a)"
  by (auto simp: block_abuse_def long_block_def window_config_def)

lemma roll_entry_window:
  assumes "t0 \<le> now" "now \<le> t0 + rc_windowMs cfg" "0 \<le> rc_windowMs cfg"
    and "case stored of None \<Rightarrow> n = 0 | Some e \<Rightarrow> t0 \<le> re_windowStart e \<and> \<not> re_blocked e \<and> re_count e = n"
  shows "re_count (roll_entry cfg now stored) = n + 1" "t0 \<le> re_windowStart (roll_entry cfg now stored)"
    "\<not> re_blocked (roll_entry cfg now stored)"
  using assms by (auto simp: roll_entry_def Let_def split: option.splits)

lemma window_request:
  assumes ok: "window_state h t0 n L" and cfg: "window_config (rl_config L)" and key: "sha k = h"
    and now: "t0 \<le> now" "now \<le> t0 + rc_windowMs (rl_config L)"
  shows "window_state h t0 (n + 1) (snd (rateLimiterMiddleware sha k now rid L))"
    and "lr_outcome (fst (rateLimiterMiddleware sha k now rid L)) = Next \<longleftrightarrow> n < rc_maxRequests (rl_config L)"
proof -
  consider (block) e where "entry_of h L = Some e" "re_blocked e"
    | (free) "\<And>e. entry_of h L = Some e \<Longrightarrow> \<not> re_blocked e" by blast
  then have "window_state h t0 (n + 1) (snd (rateLimiterMiddleware sha k now rid L)) \<and>
    (lr_outcome (fst (rateLimiterMiddleware sha k now rid L)) = Next \<longleftrightarrow> n < rc_maxRequests (rl_config L))"
  proof cases
    case (block e)
    with ok now key middleware_blocked [of sha k L e now rid] show ?thesis
      by (auto simp: window_state_def too_many_def)
  next
    case free
    define r where "r = roll_entry (rl_config L) now (entry_of h L)"
    define a where "a = roll_abuse (rl_config L) now (abuse_of h L)"
    have same: "rateLimiterMiddleware sha k now rid L = count_request sha k now rid L"
      using free key by (intro middleware_unblocked) simp
    have r: "re_count r = n + 1" "t0 \<le> re_windowStart r" "\<not> re_blocked r"
      unfolding r_def using roll_entry_window [OF now, where stored = "entry_of h L" and n = n] ok cfg free
      by (auto simp: window_state_def window_config_def split: option.splits)
    have a: "long_block (rl_config L) a" unfolding a_def using ok cfg by (simp add: long_block_roll window_state_def)
    have wf: "limiter_wf (snd (count_request sha k now rid L))"
      using ok middleware_wf [of L sha k now rid] by (simp add: same window_state_def)
    have conf: "rl_config (snd (count_request sha k now rid L)) = rl_config L"
      using middleware_config [of sha k now rid L] by (simp add: same)
    note self = count_request_self [of sha k now rid L, folded key, unfolded key, folded r_def a_def]
    show ?thesis
      using self r a long_block_block [OF cfg a] wf conf ok now cfg
      by (auto simp: same window_state_def block_entry_def long_block_def window_config_def)
  qed
  then show "window_state h t0 (n + 1) (snd (rateLimiterMiddleware sha k now rid L))"
    and "lr_outcome (fst (rateLimiterMiddleware sha k now rid L)) = Next \<longleftrightarrow> n < rc_maxRequests (rl_config L)"
    by blast+
qed

lemma window_other:
  assumes "window_state h t0 n L" "sha k \<noteq> h"
  shows "window_state h t0 n (snd (rateLimiterMiddleware sha k now rid L))"
  using assms by (auto simp: window_state_def middleware_other middleware_wf split: option.splits)

lemma window_sweep:
  assumes "window_state h t0 n L" "window_config (rl_config L)" "now \<le> t0 + rc_windowMs (rl_config L)"
  shows "window_state h t0 n (sweep_timer now L)"
  using assms by (auto simp: window_state_def window_config_def sweep_timer_wf sweep_timer_entry split: option.splits)

lemma answers_window:
  assumes "window_state h t0 n L" "window_config (rl_config L)"
    and "\<forall>ev \<in> set evs. t0 \<le> event_time ev \<and> event_time ev \<le> t0 + rc_windowMs (rl_config L)"
  shows "answers sha h evs L =
    map (\<lambda>i. n + int i < rc_maxRequests (rl_config L)) [0..<length (answers sha h evs L)]"
  using assms
proof (induction evs arbitrary: n L)
  case (Cons ev evs)
  note IH = Cons.IH [of _ "limiter_handle sha ev L"]
  show ?case
  proof (cases ev)
    case (Request k now rid)
    show ?thesis
    proof (cases "sha k = h")
      case True
      with Request Cons.prems window_request [of h t0 n L sha k now rid]
      have "window_state h t0 (n + 1) (limiter_handle sha ev L)"
        and "lr_outcome (fst (rateLimiterMiddleware sha k now rid L)) = Next \<longleftrightarrow> n < rc_maxRequests (rl_config L)"
        by simp_all
      with IH [of "n + 1"] Cons.prems Request True show ?thesis
        by (simp add: upt_conv_Cons map_Suc_upt [symmetric] o_def add.assoc del: upt_Suc)
    next
      case False
      with IH [of n] Cons.prems Request window_other [of h t0 n L sha k now rid] show ?thesis by simp
    qed
  next
    case (Sweep_Timer now)
    with IH [of n] Cons.prems window_sweep [of h t0 n L now] show ?thesis by simp
  qed
qed simp

text \<open>
  C27. Within one window the limiter lets through exactly the configured number of
  requests of a key, the first ones, and answers all others with 429, whatever
  other keys request and whenever the sweep timer fires: for a key without an
  entry, any requests and sweeps within one window length, a window of at most
  sixty seconds (the length after which the timer forgets a counter) and blocks
  that outlast the window.
\<close>

theorem limiter_window_exact:
  assumes "limiter_wf L" "entry_of h L = None" "abuse_of h L = None" "window_config (rl_config L)"
    and "\<forall>ev \<in> set evs. t0 \<le> event_time ev \<and> event_time ev \<le> t0 + rc_windowMs (rl_config L)"
    and "n = length (answers sha h evs L)" "m = nat (rc_maxRequests (rl_config L))"
  shows "answers sha h evs L = replicate (min n m) True @ replicate (n - m) False"
proof -
  have "window_state h t0 0 L" using assms by (simp add: window_state_def)
  from answers_window [OF this assms(4,5)] assms(6)
  have "answers sha h evs L = map (\<lambda>i. int i < rc_maxRequests (rl_config L)) [0..<n]" by simp
  also have "\<dots> = replicate (min n m) True @ replicate (n - m) False"
    using assms(7) by (intro nth_equalityI) (auto simp: nth_append)
  finally show ?thesis .
qed

theorem limiter_window_exact_witness:
  "answers rev ''ba'' [Request ''ab'' 5 None, Request ''c'' 6 None, Request ''ab'' 7 None, Sweep_Timer 8, Request ''ab'' 9 None]
     (createRateLimiter (default_limiter_config\<lparr>rc_maxRequests := 2\<rparr>) new_rate_limit_store) = [True, True, False]"
  using limiter_window_exact [of "createRateLimiter (default_limiter_config\<lparr>rc_maxRequests := 2\<rparr>) new_rate_limit_store"
      "''ba''" "[Request ''ab'' 5 None, Request ''c'' 6 None, Request ''ab'' 7 None, Sweep_Timer 8, Request ''ab'' 9 None]"
      0 3 rev 2]
  by (simp add: createRateLimiter_def new_rate_limit_store_def default_limiter_config_def window_config_def
      limiter_wf_def entry_of_def abuse_of_def numeral_2_eq_2 numeral_3_eq_3)

subsection \<open>Blocks\<close>

lemma blocked_kept:
  assumes "limiter_wf L" "entry_of h L = Some e" "re_blocked e" "event_time ev < re_blockedUntil e"
  shows "entry_of h (limiter_handle sha ev L) = Some e \<and> abuse_of h (limiter_handle sha ev L) = abuse_of h L"
proof (cases ev)
  case (Request k now rid)
  show ?thesis
  proof (cases "sha k = h")
    case True
    with Request assms middleware_blocked [of sha k L e now rid] show ?thesis by simp
  next
    case False
    with Request assms middleware_other [of sha k h now rid L] show ?thesis by simp
  qed
next
  case (Sweep_Timer now)
  with assms show ?thesis by (simp add: sweep_timer_entry)
qed

lemma blocked_kept_all:
  assumes "limiter_wf L" "entry_of h L = Some e" "re_blocked e"
    and "\<forall>ev \<in> set evs. event_time ev < re_blockedUntil e"
  shows "entry_of h (fold (limiter_handle sha) evs L) = Some e \<and>
    abuse_of h (fold (limiter_handle sha) evs L) = abuse_of h L \<and> True \<notin> set (answers sha h evs L)"
  using assms
proof (induction evs arbitrary: L)
  case (Cons ev evs)
  have "limiter_wf (limiter_handle sha ev L)" using Cons.prems by (intro limiter_sys.handle_inv)
  with Cons.IH [of "limiter_handle sha ev L"] Cons.prems blocked_kept [of L h e ev sha]
  have "entry_of h (fold (limiter_handle sha) (ev # evs) L) = Some e \<and>
    abuse_of h (fold (limiter_handle sha) (ev # evs) L) = abuse_of h L \<and>
    True \<notin> set (answers sha h evs (limiter_handle sha ev L))" by simp
  moreover have "lr_outcome (fst (rateLimiterMiddleware sha k now rid L)) \<noteq> Next"
    if "ev = Request k now rid" "sha k = h" for k now rid
    using that Cons.prems middleware_blocked [of sha k L e now rid] by (simp add: too_many_def)
  ultimately show ?case by (auto split: limiter_event.split)
qed simp

lemma middleware_after_block:
  assumes "entry_of (sha k) L = Some e" "re_blocked e" "re_blockedUntil e \<le> now"
  shows "rateLimiterMiddleware sha k now rid L =
    count_request sha k now rid (L\<lparr>rl_store := store_delete sha k (rl_store L), rl_abuse := map_delete (sha k) (rl_abuse L)\<rparr>)"
  using assms by (simp add: rateLimiterMiddleware_def entry_of_def store_get_def hashKey_def)


definition blocked_limiter :: rate_limiter where
  "blocked_limiter =
     \<lparr>rl_config = default_limiter_config,
      rl_store = new_rate_limit_store\<lparr>ls_counters := [(''ba'', \<lparr>re_count = 105, re_windowStart = 0, re_blocked = True,
        re_blockedUntil = 600000\<rparr>)]\<rparr>,
      rl_abuse = [(''ba'', \<lparr>ab_violations = 5, ab_firstViolation = 0, ab_blockDuration = 1200000\<rparr>)]\<rparr>"


subsection \<open>Where the limiter departs from its description\<close>

text \<open>
  The module comment and \<open>docs/backend/RATE_LIMITING.md\<close> say that the abuse guard
  doubles the block on abuse after an earlier block.  It does so in the record of violations, which the end of
  the block deletes: with a violation window no longer than a block, every block
  that a run of events in the order of time causes has the initial length.
\<close>

definition duration_ok :: "limiter_config \<Rightarrow> ms \<Rightarrow> rate_limit_entry option \<Rightarrow> abuse_record option \<Rightarrow> bool" where
  "duration_ok cfg now entry abuse \<longleftrightarrow>
     (case abuse of
        None \<Rightarrow> True
      | Some a \<Rightarrow>
          ab_firstViolation a \<le> now \<and>
          (ab_blockDuration a = rc_blockDurationMs cfg \<or>
           ab_firstViolation a + rc_blockWindowMs cfg < now \<or>
           (case entry of
              None \<Rightarrow> False
            | Some e \<Rightarrow> re_blocked e \<and> ab_firstViolation a + rc_blockWindowMs cfg \<le> re_blockedUntil e)))"

definition duration_inv :: "ms \<Rightarrow> rate_limiter \<Rightarrow> bool" where
  "duration_inv now L \<longleftrightarrow> limiter_wf L \<and> (\<forall>h. duration_ok (rl_config L) now (entry_of h L) (abuse_of h L))"

definition short_memory :: "limiter_config \<Rightarrow> bool" where
  "short_memory cfg \<longleftrightarrow>
     0 \<le> rc_blockWindowMs cfg \<and> rc_blockWindowMs cfg \<le> min (rc_blockDurationMs cfg) (rc_maxBlockDurationMs cfg)"

definition unblocked :: "rate_limit_entry option \<Rightarrow> bool" where
  "unblocked entry \<longleftrightarrow> (case entry of None \<Rightarrow> True | Some e \<Rightarrow> \<not> re_blocked e)"

lemma duration_later: "duration_ok cfg t e a \<Longrightarrow> t \<le> t' \<Longrightarrow> duration_ok cfg t' e a"
  by (auto simp: duration_ok_def split: option.splits)

lemma duration_roll:
  assumes "duration_ok cfg now e a" "unblocked e" "short_memory cfg"
  shows "ab_blockDuration (roll_abuse cfg now a) = rc_blockDurationMs cfg"
    and "ab_firstViolation (roll_abuse cfg now a) \<le> now"
  using assms by (auto simp: duration_ok_def unblocked_def roll_abuse_def short_memory_def Let_def split: option.splits)

lemma duration_block:
  assumes "ab_blockDuration a = rc_blockDurationMs cfg" "ab_firstViolation a \<le> now" "short_memory cfg" "\<not> re_blocked e"
  shows "duration_ok cfg now (Some (block_entry cfg now a e)) (Some (block_abuse cfg a))"
    and "re_blocked (block_entry cfg now a e) \<Longrightarrow>
      re_blockedUntil (block_entry cfg now a e) = now + min (rc_blockDurationMs cfg) (rc_maxBlockDurationMs cfg)"
  using assms by (auto simp: duration_ok_def block_entry_def block_abuse_def short_memory_def)

lemma roll_entry_unblocked: "unblocked e \<Longrightarrow> \<not> re_blocked (roll_entry cfg now e)"
  by (auto simp: unblocked_def roll_entry_def Let_def split: option.splits)

lemma duration_count:
  assumes "duration_ok (rl_config L) now (entry_of (sha k) L) (abuse_of (sha k) L)" "unblocked (entry_of (sha k) L)"
    and "short_memory (rl_config L)"
  shows "duration_ok (rl_config L) now (entry_of (sha k) (snd (count_request sha k now rid L)))
      (abuse_of (sha k) (snd (count_request sha k now rid L)))"
    and "entry_of (sha k) (snd (count_request sha k now rid L)) = Some e \<Longrightarrow> re_blocked e \<Longrightarrow>
      re_blockedUntil e = now + min (rc_blockDurationMs (rl_config L)) (rc_maxBlockDurationMs (rl_config L))"
proof -
  define r where "r = roll_entry (rl_config L) now (entry_of (sha k) L)"
  define a where "a = roll_abuse (rl_config L) now (abuse_of (sha k) L)"
  note self = count_request_self [of sha k now rid L, folded r_def a_def]
  note roll = duration_roll [OF assms, folded a_def]
  have r: "\<not> re_blocked r" unfolding r_def by (rule roll_entry_unblocked [OF assms(2)])
  note block = duration_block [OF roll assms(3) r]
  show "duration_ok (rl_config L) now (entry_of (sha k) (snd (count_request sha k now rid L)))
      (abuse_of (sha k) (snd (count_request sha k now rid L)))"
  proof (cases "re_count r > rc_maxRequests (rl_config L)")
    case False
    with self assms(1,2) show ?thesis by (auto simp: duration_ok_def unblocked_def split: option.splits)
  qed (use self block in simp)
  show "re_blockedUntil e = now + min (rc_blockDurationMs (rl_config L)) (rc_maxBlockDurationMs (rl_config L))"
    if "entry_of (sha k) (snd (count_request sha k now rid L)) = Some e" "re_blocked e"
    using that self(2) block(2) r by (auto split: if_splits)
qed

text \<open>One request: either nothing changes for a blocked key, or it is counted, after the end of a block on a fresh key.\<close>

lemma middleware_cases:
  obtains (held) e where "entry_of (sha k) L = Some e" "re_blocked e" "now < re_blockedUntil e"
      "snd (rateLimiterMiddleware sha k now rid L) = L"
  | (counted) M where "rateLimiterMiddleware sha k now rid L = count_request sha k now rid M"
      "rl_config M = rl_config L" "unblocked (entry_of (sha k) M)"
      "abuse_of (sha k) M = None \<or> M = L"
proof (cases "entry_of (sha k) L")
  case None
  show ?thesis
    by (rule counted [of L]) (use None middleware_unblocked [of sha k L now rid] in \<open>simp_all add: unblocked_def\<close>)
next
  case (Some e)
  show ?thesis
  proof (cases "re_blocked e")
    case False
    show ?thesis
      by (rule counted [of L]) (use Some False middleware_unblocked [of sha k L now rid] in \<open>simp_all add: unblocked_def\<close>)
  next
    case True
    show ?thesis
    proof (cases "now < re_blockedUntil e")
      case B: True
      show ?thesis by (rule held [OF Some True B]) (use middleware_blocked [of sha k L e now rid] Some True B in simp)
    next
      case False
      show ?thesis
        by (rule counted [of "L\<lparr>rl_store := store_delete sha k (rl_store L), rl_abuse := map_delete (sha k) (rl_abuse L)\<rparr>"])
          (use middleware_after_block [of sha k L e now rid] Some True False in
            \<open>simp_all add: unblocked_def entry_of_def abuse_of_def store_delete_def hashKey_def Let_def\<close>)
    qed
  qed
qed

lemma duration_request:
  assumes inv: "duration_inv now L" and cfg: "short_memory (rl_config L)"
  shows "duration_inv now (snd (rateLimiterMiddleware sha k now rid L))"
    and "entry_of (sha k) (snd (rateLimiterMiddleware sha k now rid L)) = Some e \<Longrightarrow> re_blocked e \<Longrightarrow>
      entry_of (sha k) L = Some e \<or>
      re_blockedUntil e = now + min (rc_blockDurationMs (rl_config L)) (rc_maxBlockDurationMs (rl_config L))"
proof -
  have "duration_ok (rl_config L) now (entry_of (sha k) (snd (rateLimiterMiddleware sha k now rid L)))
      (abuse_of (sha k) (snd (rateLimiterMiddleware sha k now rid L))) \<and>
    (\<forall>e. entry_of (sha k) (snd (rateLimiterMiddleware sha k now rid L)) = Some e \<longrightarrow> re_blocked e \<longrightarrow>
      entry_of (sha k) L = Some e \<or>
      re_blockedUntil e = now + min (rc_blockDurationMs (rl_config L)) (rc_maxBlockDurationMs (rl_config L)))"
  proof (cases rule: middleware_cases [of sha k L now rid])
    case (held e)
    from inv have "duration_ok (rl_config L) now (entry_of (sha k) L) (abuse_of (sha k) L)" by (simp add: duration_inv_def)
    with held show ?thesis by simp
  next
    case (counted M)
    have "duration_ok (rl_config M) now (entry_of (sha k) M) (abuse_of (sha k) M)"
      using counted(4) inv by (auto simp: duration_inv_def duration_ok_def)
    with counted duration_count [of M now sha k rid] cfg show ?thesis by auto
  qed
  with inv middleware_other [of sha k _ now rid L] middleware_wf [of L sha k now rid]
  show "duration_inv now (snd (rateLimiterMiddleware sha k now rid L))"
    and "entry_of (sha k) (snd (rateLimiterMiddleware sha k now rid L)) = Some e \<Longrightarrow> re_blocked e \<Longrightarrow>
      entry_of (sha k) L = Some e \<or>
      re_blockedUntil e = now + min (rc_blockDurationMs (rl_config L)) (rc_maxBlockDurationMs (rl_config L))"
    unfolding duration_inv_def by (auto, metis)
qed

lemma duration_sweep:
  assumes "duration_inv now L"
  shows "duration_inv now (sweep_timer now L)"
  using assms by (fastforce simp: duration_inv_def duration_ok_def sweep_timer_wf sweep_timer_entry split: option.splits)

lemma duration_run:
  assumes "duration_inv t L" "short_memory (rl_config L)" "sorted (t # map event_time evs)"
  shows "duration_inv (last (t # map event_time evs)) (fold (limiter_handle sha) evs L)"
  using assms
proof (induction evs arbitrary: t L)
  case (Cons ev evs)
  have "duration_inv (event_time ev) L"
    using Cons.prems duration_later unfolding duration_inv_def by fastforce
  then have "duration_inv (event_time ev) (limiter_handle sha ev L)"
    using Cons.prems(2) by (cases ev) (simp_all add: duration_request duration_sweep)
  from Cons.IH [OF this] Cons.prems show ?case by simp
qed simp

theorem block_never_doubles:
  assumes "L = fold (limiter_handle sha) evs (createRateLimiter cfg new_rate_limit_store)" "short_memory cfg"
    and "sorted (0 # map event_time evs @ [now])"
    and "entry_of (sha k) (snd (rateLimiterMiddleware sha k now rid L)) = Some e" "re_blocked e"
    and "entry_of (sha k) L \<noteq> Some e"
  shows "re_blockedUntil e = now + min (rc_blockDurationMs cfg) (rc_maxBlockDurationMs cfg)"
proof -
  let ?L0 = "createRateLimiter cfg new_rate_limit_store"
  have conf: "rl_config (fold (limiter_handle sha) evs M) = rl_config M" for M
    by (induction evs arbitrary: M) simp_all
  have "duration_inv 0 ?L0"
    by (simp add: duration_inv_def limiter_wf_def createRateLimiter_def new_rate_limit_store_def duration_ok_def abuse_of_def)
  from duration_run [OF this, of evs sha] assms(1-3)
  have "duration_inv (last (0 # map event_time evs)) L"
    by (simp add: createRateLimiter_def sorted_append)
  moreover have "last (0 # map event_time evs) \<le> now"
    using assms(3) last_in_set [of "0 # map event_time evs"] by (fastforce simp: sorted_append)
  ultimately have "duration_inv now L" unfolding duration_inv_def using duration_later by blast
  from duration_request(2) [OF this _ assms(4,5)] assms(1,2,6) conf [of ?L0] show ?thesis
    by (simp add: createRateLimiter_def)
qed

text \<open>
  The store's timer fires every \<open>windowMs\<close> and calls \<open>sweep\<close> without an argument, so
  that it forgets counters after sixty seconds.  With a window of five minutes a
  key that has used up its quota is let through again within the window.
\<close>

theorem long_window_forgotten:
  "answers rev ''ba'' [Request ''ab'' 0 None, Request ''ab'' 1 None, Sweep_Timer 100000, Request ''ab'' 100001 None]
     (createRateLimiter (default_limiter_config\<lparr>rc_maxRequests := 1, rc_windowMs := 300000\<rparr>) new_rate_limit_store) =
   [True, False, True]"
  by (simp add: createRateLimiter_def new_rate_limit_store_def default_limiter_config_def limiter_defs
      roll_entry_def roll_abuse_def send_headers_def blocked_headers_def too_many_def sweep_timer_def store_sweep_def
      map_reap_def map_get_def map_empty_def map_delete_def)

end
