(* ===== verification/RateLimitTiers.thy ===== *)
theory RateLimitTiers
  imports RateLimiter
begin

text \<open>
  The limiter tiers of \<open>src/config/rateLimit.ts\<close> and the functions that derive a
  client's key: \<open>src/auth/rateLimitKey.ts\<close>, \<open>src/health/rateLimitKey.ts\<close> and
  \<open>auditActorKeyFn\<close> of \<open>src/index.ts\<close>.  An environment variable is unset, not a number
  or an integer; durations that are fractions or infinite, which \<open>toMs\<close> accepts as
  well, are outside the model.  All tiers keep their counters in one shared store.
\<close>

subsection \<open>Tiers\<close>

datatype env_setting = Env_Unset | Env_Invalid | Env_Int int

definition env_ms :: "env_setting \<Rightarrow> ms \<Rightarrow> ms" where
  "env_ms v fallback =
     (case v of Env_Unset \<Rightarrow> fallback | Env_Invalid \<Rightarrow> fallback | Env_Int n \<Rightarrow> if n < 0 then fallback else n)"

definition env_count :: "env_setting \<Rightarrow> int \<Rightarrow> int" where
  "env_count v fallback =
     (case v of Env_Unset \<Rightarrow> fallback | Env_Invalid \<Rightarrow> fallback | Env_Int n \<Rightarrow> if n < 1 then fallback else n)"

datatype rate_limit_tier =
  Standard | Sensitive | Strict | Auth | AuditExport | AuditBulk | Audit | AuditIntegrity
| MilestonesTier | DisputesTier | Health | Reputation

definition tier_config ::
  "(string \<Rightarrow> env_setting) \<Rightarrow> string \<times> int \<Rightarrow> string \<times> ms \<Rightarrow> string \<times> int \<Rightarrow> string \<times> ms \<Rightarrow> string \<times> ms \<Rightarrow> string \<times> ms
     \<Rightarrow> limiter_config" where
  "tier_config env maxRequests windowMs abuseThreshold blockWindowMs blockDurationMs maxBlockDurationMs =
     \<lparr>rc_maxRequests = env_count (env (fst maxRequests)) (snd maxRequests),
      rc_windowMs = env_ms (env (fst windowMs)) (snd windowMs),
      rc_abuseThreshold = env_count (env (fst abuseThreshold)) (snd abuseThreshold),
      rc_blockWindowMs = env_ms (env (fst blockWindowMs)) (snd blockWindowMs),
      rc_blockDurationMs = env_ms (env (fst blockDurationMs)) (snd blockDurationMs),
      rc_maxBlockDurationMs = env_ms (env (fst maxBlockDurationMs)) (snd maxBlockDurationMs),
      rc_sendHeaders = True\<rparr>"

primrec rateLimitConfig :: "(string \<Rightarrow> env_setting) \<Rightarrow> rate_limit_tier \<Rightarrow> limiter_config" where
  "rateLimitConfig env Standard =
     tier_config env (''RL_STANDARD_MAX'', 600) (''RL_STANDARD_WINDOW_MS'', 60000) (''RL_ABUSE_THRESHOLD'', 5)
       (''RL_BLOCK_WINDOW_MS'', 300000) (''RL_BLOCK_DURATION_MS'', 600000) (''RL_MAX_BLOCK_MS'', 86400000)"
| "rateLimitConfig env Sensitive =
     tier_config env (''RL_SENSITIVE_MAX'', 300) (''RL_SENSITIVE_WINDOW_MS'', 60000) (''RL_ABUSE_THRESHOLD'', 5)
       (''RL_BLOCK_WINDOW_MS'', 300000) (''RL_BLOCK_DURATION_MS'', 600000) (''RL_MAX_BLOCK_MS'', 86400000)"
| "rateLimitConfig env Strict =
     tier_config env (''RL_STRICT_MAX'', 180) (''RL_STRICT_WINDOW_MS'', 60000) (''RL_ABUSE_THRESHOLD'', 3)
       (''RL_BLOCK_WINDOW_MS'', 300000) (''RL_BLOCK_DURATION_MS'', 600000) (''RL_MAX_BLOCK_MS'', 86400000)"
| "rateLimitConfig env Auth =
     tier_config env (''RL_AUTH_MAX'', 30) (''RL_AUTH_WINDOW_MS'', 60000) (''RL_AUTH_ABUSE_THRESHOLD'', 3)
       (''RL_BLOCK_WINDOW_MS'', 300000) (''RL_BLOCK_DURATION_MS'', 600000) (''RL_MAX_BLOCK_MS'', 86400000)"
| "rateLimitConfig env AuditExport =
     tier_config env (''RL_AUDIT_EXPORT_MAX'', 5) (''RL_AUDIT_EXPORT_WINDOW_MS'', 3600000)
       (''RL_AUDIT_EXPORT_ABUSE_THRESHOLD'', 3) (''RL_AUDIT_EXPORT_BLOCK_WINDOW_MS'', 21600000)
       (''RL_AUDIT_EXPORT_BLOCK_DURATION_MS'', 3600000) (''RL_AUDIT_EXPORT_MAX_BLOCK_MS'', 86400000)"
| "rateLimitConfig env AuditBulk =
     tier_config env (''RL_AUDIT_BULK_MAX'', 30) (''RL_AUDIT_BULK_WINDOW_MS'', 60000)
       (''RL_AUDIT_BULK_ABUSE_THRESHOLD'', 5) (''RL_AUDIT_BULK_BLOCK_WINDOW_MS'', 300000)
       (''RL_AUDIT_BULK_BLOCK_DURATION_MS'', 600000) (''RL_AUDIT_BULK_MAX_BLOCK_MS'', 86400000)"
| "rateLimitConfig env Audit =
     tier_config env (''RL_AUDIT_MAX'', 300) (''RL_AUDIT_WINDOW_MS'', 60000) (''RL_AUDIT_ABUSE_THRESHOLD'', 5)
       (''RL_AUDIT_BLOCK_WINDOW_MS'', 300000) (''RL_AUDIT_BLOCK_DURATION_MS'', 600000)
       (''RL_AUDIT_MAX_BLOCK_MS'', 86400000)"
| "rateLimitConfig env AuditIntegrity =
     tier_config env (''RL_AUDIT_INTEGRITY_MAX'', 10) (''RL_AUDIT_INTEGRITY_WINDOW_MS'', 60000)
       (''RL_AUDIT_INTEGRITY_ABUSE_THRESHOLD'', 3) (''RL_AUDIT_INTEGRITY_BLOCK_WINDOW_MS'', 300000)
       (''RL_AUDIT_INTEGRITY_BLOCK_DURATION_MS'', 600000) (''RL_AUDIT_INTEGRITY_MAX_BLOCK_MS'', 86400000)"
| "rateLimitConfig env MilestonesTier =
     tier_config env (''RL_MILESTONES_MAX'', 60) (''RL_MILESTONES_WINDOW_MS'', 60000) (''RL_ABUSE_THRESHOLD'', 5)
       (''RL_BLOCK_WINDOW_MS'', 300000) (''RL_BLOCK_DURATION_MS'', 600000) (''RL_MAX_BLOCK_MS'', 86400000)"
| "rateLimitConfig env DisputesTier =
     tier_config env (''RL_DISPUTES_MAX'', 300) (''RL_DISPUTES_WINDOW_MS'', 60000) (''RL_DISPUTES_ABUSE_THRESHOLD'', 5)
       (''RL_DISPUTES_BLOCK_WINDOW_MS'', 300000) (''RL_DISPUTES_BLOCK_DURATION_MS'', 600000)
       (''RL_DISPUTES_MAX_BLOCK_MS'', 86400000)"
| "rateLimitConfig env Health =
     tier_config env (''RL_HEALTH_MAX'', 60) (''RL_HEALTH_WINDOW_MS'', 60000) (''RL_HEALTH_ABUSE_THRESHOLD'', 10)
       (''RL_BLOCK_WINDOW_MS'', 300000) (''RL_BLOCK_DURATION_MS'', 600000) (''RL_MAX_BLOCK_MS'', 86400000)"
| "rateLimitConfig env Reputation =
     tier_config env (''RL_REPUTATION_MAX'', 100) (''RL_REPUTATION_WINDOW_MS'', 60000)
       (''RL_REPUTATION_ABUSE_THRESHOLD'', 5)
       (''RL_BLOCK_WINDOW_MS'', 300000) (''RL_BLOCK_DURATION_MS'', 600000) (''RL_MAX_BLOCK_MS'', 86400000)"

lemma default_tiers_window:
  "tier \<noteq> AuditExport \<Longrightarrow> window_config (rateLimitConfig (\<lambda>_. Env_Unset) tier)"
  by (cases tier) (simp_all add: tier_config_def env_ms_def env_count_def window_config_def)

lemma default_tiers_short_memory:
  "tier \<noteq> AuditExport \<Longrightarrow> short_memory (rateLimitConfig (\<lambda>_. Env_Unset) tier)"
  by (cases tier) (simp_all add: tier_config_def env_ms_def env_count_def short_memory_def)

subsection \<open>Keys\<close>

definition first_value :: "header_value \<Rightarrow> string option" where
  "first_value raw =
     (case raw of Absent \<Rightarrow> None | Single s \<Rightarrow> Some s | Multiple vs \<Rightarrow> (case vs of [] \<Rightarrow> None | v # _ \<Rightarrow> Some v))"

definition readNonEmptyHeader :: "header_value \<Rightarrow> string option" where
  "readNonEmptyHeader raw =
     (case first_value raw of
        None \<Rightarrow> None
      | Some value \<Rightarrow> (let trimmed = js_trim value in if length trimmed > 0 then Some trimmed else None))"

definition non_empty :: "string option \<Rightarrow> string option" where
  "non_empty s = (case s of None \<Rightarrow> None | Some t \<Rightarrow> if t = [] then None else Some t)"

definition authRateLimitKeyFn ::
  "string \<Rightarrow> header_value \<Rightarrow> header_value \<Rightarrow> string option \<Rightarrow> string option \<Rightarrow> string" where
  "authRateLimitKeyFn unknownSuffix apiKey xff ip remoteAddress =
     (case readNonEmptyHeader apiKey of
        Some key \<Rightarrow> ''apikey:'' @ key
      | None \<Rightarrow>
          (case non_empty (map_option (\<lambda>x. js_trim (split_first (CHR '','') x)) (readNonEmptyHeader xff)) of
             Some hop \<Rightarrow> ''ip:'' @ hop
           | None \<Rightarrow>
               (case non_empty (map_option js_trim ip) of
                  Some a \<Rightarrow> ''ip:'' @ a
                | None \<Rightarrow>
                    (case non_empty (map_option js_trim remoteAddress) of
                       Some a \<Rightarrow> ''ip:'' @ a
                     | None \<Rightarrow> ''unknown:'' @ unknownSuffix))))"

text \<open>A list of keys gives its first element, which is undefined when the list is empty.\<close>

definition healthRateLimitKeyFn ::
  "header_value \<Rightarrow> header_value \<Rightarrow> string option \<Rightarrow> string option \<Rightarrow> (unit, string option) result" where
  "healthRateLimitKeyFn apiKey xff ip remoteAddress =
     (case apiKey of
        Multiple vs \<Rightarrow> Ok (first_value apiKey)
      | Single s \<Rightarrow>
          if s \<noteq> [] then Ok (Some s) else map_sum id Some (defaultKeyFn xff ip remoteAddress)
      | Absent \<Rightarrow> map_sum id Some (defaultKeyFn xff ip remoteAddress))"

definition auditActorKeyFn :: "string \<Rightarrow> string option \<Rightarrow> string option \<Rightarrow> string option \<Rightarrow> string" where
  "auditActorKeyFn prefix userId ip remoteAddress =
     prefix @ '':'' @ (case userId of Some u \<Rightarrow> u | None \<Rightarrow> ''anonymous'') @ '':'' @
     (case ip of Some a \<Rightarrow> a | None \<Rightarrow> (case remoteAddress of Some a \<Rightarrow> a | None \<Rightarrow> ''unknown''))"

lemma auth_key_blank:
  assumes "js_trim s = []"
  shows "authRateLimitKeyFn suffix (Single s) xff ip remote = authRateLimitKeyFn suffix Absent xff ip remote"
  using assms by (simp add: authRateLimitKeyFn_def readNonEmptyHeader_def first_value_def)

lemma auth_key_namespaces:
  "readNonEmptyHeader apiKey \<noteq> None \<longleftrightarrow> js_startsWith (authRateLimitKeyFn suffix apiKey xff ip remote) ''apikey:''"
  by (auto simp: authRateLimitKeyFn_def js_startsWith_iff split: option.split)

subsection \<open>Where the tiers depart from their description\<close>

text \<open>
  The tier for audit exports allows five requests an hour.  The shared store
  forgets a counter sixty seconds after its window began, so that five more are
  let through a minute later.
\<close>

theorem audit_export_hourly_limit_lost:
  "answers rev ''a'' (map (\<lambda>t. Request ''a'' t None) [0, 1, 2, 3, 4] @ [Sweep_Timer 60001] @
       map (\<lambda>t. Request ''a'' t None) [60002, 60003, 60004, 60005, 60006])
     (createRateLimiter (rateLimitConfig (\<lambda>_. Env_Unset) AuditExport) new_rate_limit_store) = replicate 10 True"
  by (simp add: createRateLimiter_def new_rate_limit_store_def tier_config_def env_ms_def env_count_def limiter_defs
      roll_entry_def roll_abuse_def send_headers_def sweep_timer_def store_sweep_def numeral_eq_Suc
      map_reap_def map_get_def map_empty_def map_delete_def)

text \<open>
  Two limiters on the shared store whose key functions give the same key count in
  the same entry: the health checks of a client are refused as soon as its dispute
  requests have reached the limit for health checks.
\<close>

theorem shared_counter_refuses:
  assumes "entry_of (sha k) disputes = Some e" "\<not> re_blocked e" "now - re_windowStart e \<le> 60000"
    and "60 \<le> re_count e" "health = createRateLimiter (rateLimitConfig (\<lambda>_. Env_Unset) Health) (rl_store disputes)"
  shows "lr_outcome (fst (rateLimiterMiddleware sha k now rid health)) \<noteq> Next"
proof -
  have e: "entry_of (sha k) health = Some e"
    using assms(1,5) by (simp add: entry_of_def createRateLimiter_def)
  then have "rateLimiterMiddleware sha k now rid health = count_request sha k now rid health"
    using assms(2) by (intro middleware_unblocked) auto
  with count_request_self(1) [of sha k now rid health] e assms(3-5) show ?thesis
    by (simp add: roll_entry_def createRateLimiter_def tier_config_def env_ms_def env_count_def)
qed

end
