(* ===== verification/TokenBucket.thy ===== *)
theory TokenBucket
  imports RateLimiter
begin

text \<open>
  The token buckets that pace outbound webhooks (\<open>src/rateLimit.ts\<close>, with the
  configuration of \<open>src/config/rateLimit.ts\<close>): the in-process store, the Lua script
  that does the same in Redis, and the limiter with its queues of waiters and drain
  timers.  Token counts are rationals.  Waiters are numbered; resolving a waiter's
  promise is releasing its number.  The limiter is modelled over the in-process
  store, whose calls return at once, and over a store whose calls return promises,
  split where these settle.  Of Redis the model has what the script uses:
  hashes with two fields and an expiry.
\<close>

subsection \<open>Configuration\<close>

record token_bucket_config =
  wc_capacity :: rat
  wc_refillRatePerSec :: rat
  wc_maxQueueDepth :: rat

datatype env_value = Env_None | Env_NotFinite | Env_Num rat

datatype bucket_config_error = Invalid_Capacity | Invalid_Refill_Rate | Invalid_Queue_Depth

definition env_or :: "env_value \<Rightarrow> rat \<Rightarrow> rat option" where
  "env_or v d = (case v of Env_None \<Rightarrow> Some d | Env_NotFinite \<Rightarrow> None | Env_Num x \<Rightarrow> Some x)"

definition loadWebhookTokenBucketConfig ::
  "env_value \<Rightarrow> env_value \<Rightarrow> env_value \<Rightarrow> (bucket_config_error, token_bucket_config) result" where
  "loadWebhookTokenBucketConfig rawCapacity rawRefill rawMaxQueueDepth =
     (case env_or rawCapacity 10 of
        None \<Rightarrow> Throw Invalid_Capacity
      | Some capacity \<Rightarrow>
          if capacity \<le> 0 then Throw Invalid_Capacity
          else
            (case env_or rawRefill 2 of
               None \<Rightarrow> Throw Invalid_Refill_Rate
             | Some refillRatePerSec \<Rightarrow>
                 if refillRatePerSec \<le> 0 then Throw Invalid_Refill_Rate
                 else
                   (case env_or rawMaxQueueDepth 1000 of
                      None \<Rightarrow> Throw Invalid_Queue_Depth
                    | Some maxQueueDepth \<Rightarrow>
                        if maxQueueDepth \<le> 0 \<or> of_int \<lfloor>maxQueueDepth\<rfloor> \<noteq> maxQueueDepth
                        then Throw Invalid_Queue_Depth
                        else Ok \<lparr>wc_capacity = capacity, wc_refillRatePerSec = refillRatePerSec,
                                 wc_maxQueueDepth = maxQueueDepth\<rparr>)))"

subsection \<open>The stores\<close>

definition refilled :: "rat \<Rightarrow> rat \<Rightarrow> ms \<Rightarrow> ms \<Rightarrow> rat \<Rightarrow> rat" where
  "refilled capacity refillRatePerSec now lastRefillMs tokens =
     min capacity (tokens + of_int (now - lastRefillMs) / 1000 * refillRatePerSec)"

definition getTokenCount :: "(string \<Rightarrow> string) \<Rightarrow> string \<Rightarrow> rate_limit_store \<Rightarrow> rat option" where
  "getTokenCount sha providerId st = map_option tb_tokens (getTokenBucket sha providerId st)"

definition current_bucket :: "rat \<Rightarrow> rat \<Rightarrow> ms \<Rightarrow> token_bucket_entry option \<Rightarrow> token_bucket_entry" where
  "current_bucket capacity refillRatePerSec now stored =
     (case stored of
        None \<Rightarrow> \<lparr>tb_tokens = capacity, tb_lastRefillMs = now, tb_queue = []\<rparr>
      | Some bucket \<Rightarrow>
          if now - tb_lastRefillMs bucket > 0
          then bucket\<lparr>tb_tokens := refilled capacity refillRatePerSec now (tb_lastRefillMs bucket) (tb_tokens bucket),
                      tb_lastRefillMs := now\<rparr>
          else bucket)"

definition consumeToken ::
  "(string \<Rightarrow> string) \<Rightarrow> string \<Rightarrow> rat \<Rightarrow> rat \<Rightarrow> ms \<Rightarrow> rate_limit_store \<Rightarrow> bool \<times> rate_limit_store" where
  "consumeToken sha providerId capacity refillRatePerSec now st =
     (let bucket = current_bucket capacity refillRatePerSec now (getTokenBucket sha providerId st)
      in if tb_tokens bucket \<ge> 1
         then (True, setTokenBucket sha providerId (bucket\<lparr>tb_tokens := tb_tokens bucket - 1\<rparr>) st)
         else (False, setTokenBucket sha providerId bucket st))"

record redis_hash =
  rh_tokens :: rat
  rh_last_refill :: ms
  rh_expiresAt :: ms

type_synonym redis_db = "(string, redis_hash) jsmap"

definition HMGET :: "redis_db \<Rightarrow> string \<Rightarrow> ms \<Rightarrow> (rat \<times> ms) option" where
  "HMGET db key clock =
     (case map_get db key of
        None \<Rightarrow> None
      | Some h \<Rightarrow> if clock < rh_expiresAt h then Some (rh_tokens h, rh_last_refill h) else None)"

definition CONSUME_LUA_SCRIPT ::
  "string \<Rightarrow> rat \<Rightarrow> rat \<Rightarrow> ms \<Rightarrow> rat \<Rightarrow> ms \<Rightarrow> redis_db \<Rightarrow> (int \<times> rat) \<times> redis_db" where
  "CONSUME_LUA_SCRIPT key capacity refillRate now requested clock db =
     (let (tokens, lastRefill) =
            (case HMGET db key clock of
               None \<Rightarrow> (capacity, now)
             | Some (tokens, lastRefill) \<Rightarrow>
                 (let elapsedMs = now - lastRefill
                  in if elapsedMs > 0 then (refilled capacity refillRate now lastRefill tokens, now)
                     else (tokens, lastRefill)));
          (consumed, tokens) = (if tokens \<ge> requested then (1, tokens - requested) else (0, tokens));
          ttl = max 60 \<lceil>capacity / refillRate * 2\<rceil>
      in ((consumed, tokens),
          map_set key \<lparr>rh_tokens = tokens, rh_last_refill = lastRefill, rh_expiresAt = clock + ttl * 1000\<rparr> db))"

text \<open>
  A call to Redis is answered, fails before the script has run, or fails after it;
  in both latter cases the caller sees an exception and uses its fallback.
\<close>

datatype redis_call = Answered | Failed_Before | Failed_After

record redis_store =
  rd_keyPrefix :: string
  rd_isConnected :: bool
  rd_fallbackStore :: rate_limit_store

definition getKey :: "(string \<Rightarrow> string) \<Rightarrow> string \<Rightarrow> redis_store \<Rightarrow> string" where
  "getKey sha providerId rs = rd_keyPrefix rs @ hashKey sha providerId"

definition redis_fallback where
  "redis_fallback sha providerId capacity refillRatePerSec now rs db =
     (let (b, st) = consumeToken sha providerId capacity refillRatePerSec now (rd_fallbackStore rs)
      in (b, rs\<lparr>rd_fallbackStore := st\<rparr>, db))"

definition redis_consumeToken ::
  "(string \<Rightarrow> string) \<Rightarrow> redis_call \<Rightarrow> string \<Rightarrow> rat \<Rightarrow> rat \<Rightarrow> ms \<Rightarrow> ms \<Rightarrow> redis_store \<Rightarrow> redis_db
     \<Rightarrow> bool \<times> redis_store \<times> redis_db" where
  "redis_consumeToken sha call providerId capacity refillRatePerSec now clock rs db =
     (if \<not> rd_isConnected rs then redis_fallback sha providerId capacity refillRatePerSec now rs db
      else
        (let ((consumed, tokens), db') =
               CONSUME_LUA_SCRIPT (getKey sha providerId rs) capacity refillRatePerSec now 1 clock db
         in case call of
              Answered \<Rightarrow> (consumed = 1, rs, db')
            | Failed_Before \<Rightarrow> redis_fallback sha providerId capacity refillRatePerSec now rs db
            | Failed_After \<Rightarrow> redis_fallback sha providerId capacity refillRatePerSec now rs db'))"

subsection \<open>The limiter\<close>

record token_limiter =
  tl_config :: token_bucket_config
  tl_store :: rate_limit_store
  tl_queues :: "(string, nat list) jsmap"
  tl_timers :: "(string, ms) jsmap"

datatype acquire_outcome = Granted | Queued | Queue_Full

definition new_token_limiter :: "token_bucket_config \<Rightarrow> rate_limit_store \<Rightarrow> token_limiter" where
  "new_token_limiter config store =
     \<lparr>tl_config = config, tl_store = store, tl_queues = map_empty, tl_timers = map_empty\<rparr>"

definition getQueueDepth :: "string \<Rightarrow> token_limiter \<Rightarrow> nat" where
  "getQueueDepth providerId T = (case map_get (tl_queues T) providerId of None \<Rightarrow> 0 | Some q \<Rightarrow> length q)"

definition getOrCreateQueue :: "string \<Rightarrow> token_limiter \<Rightarrow> nat list \<times> token_limiter" where
  "getOrCreateQueue providerId T =
     (case map_get (tl_queues T) providerId of
        Some q \<Rightarrow> (q, T)
      | None \<Rightarrow> ([], T\<lparr>tl_queues := map_set providerId [] (tl_queues T)\<rparr>))"

definition drain_delay :: "token_bucket_config \<Rightarrow> ms" where
  "drain_delay cfg = max 1 \<lceil>1000 / wc_refillRatePerSec cfg\<rceil>"

definition scheduleDrain :: "string \<Rightarrow> ms \<Rightarrow> token_limiter \<Rightarrow> token_limiter" where
  "scheduleDrain providerId now T =
     (if map_get (tl_timers T) providerId \<noteq> None then T
      else T\<lparr>tl_timers := map_set providerId (now + drain_delay (tl_config T)) (tl_timers T)\<rparr>)"

definition limiter_consume :: "(string \<Rightarrow> string) \<Rightarrow> string \<Rightarrow> ms \<Rightarrow> token_limiter \<Rightarrow> bool \<times> rate_limit_store" where
  "limiter_consume sha providerId now T =
     consumeToken sha providerId (wc_capacity (tl_config T)) (wc_refillRatePerSec (tl_config T)) now (tl_store T)"

definition acquireToken ::
  "(string \<Rightarrow> string) \<Rightarrow> string \<Rightarrow> nat \<Rightarrow> ms \<Rightarrow> token_limiter \<Rightarrow> acquire_outcome \<times> token_limiter" where
  "acquireToken sha providerId waiter now T =
     (let (queue, T) = getOrCreateQueue providerId T;
          (consumed, T) =
            (if length queue = 0
             then let (b, st) = limiter_consume sha providerId now T in (b, T\<lparr>tl_store := st\<rparr>)
             else (False, T))
      in if consumed then (Granted, T)
         else if of_nat (length queue) \<ge> wc_maxQueueDepth (tl_config T) then (Queue_Full, T)
         else (Queued, scheduleDrain providerId now
                 (T\<lparr>tl_queues := map_set providerId (queue @ [waiter]) (tl_queues T)\<rparr>)))"

text \<open>The loop of \<open>drain\<close>: the waiters released, those that remain, and the store.\<close>

fun drain_loop ::
  "(string \<Rightarrow> string) \<Rightarrow> string \<Rightarrow> token_bucket_config \<Rightarrow> ms \<Rightarrow> nat list \<Rightarrow> rate_limit_store
     \<Rightarrow> nat list \<times> nat list \<times> rate_limit_store" where
  "drain_loop sha providerId cfg now [] st = ([], [], st)"
| "drain_loop sha providerId cfg now (w # queue) st =
     (let (consumed, st') = consumeToken sha providerId (wc_capacity cfg) (wc_refillRatePerSec cfg) now st
      in if \<not> consumed then ([], w # queue, st')
         else let (released, rest, st'') = drain_loop sha providerId cfg now queue st'
              in (w # released, rest, st''))"

definition drain :: "(string \<Rightarrow> string) \<Rightarrow> string \<Rightarrow> ms \<Rightarrow> token_limiter \<Rightarrow> nat list \<times> token_limiter" where
  "drain sha providerId now T =
     (case map_get (tl_queues T) providerId of
        None \<Rightarrow> ([], T)
      | Some queue \<Rightarrow>
          if queue = [] then ([], T)
          else
            (let (released, rest, st) = drain_loop sha providerId (tl_config T) now queue (tl_store T);
                 T1 = T\<lparr>tl_store := st, tl_queues := map_set providerId rest (tl_queues T)\<rparr>
             in (released, if rest \<noteq> [] then scheduleDrain providerId now T1 else T1)))"

definition drain_timer :: "(string \<Rightarrow> string) \<Rightarrow> string \<Rightarrow> ms \<Rightarrow> token_limiter \<Rightarrow> nat list \<times> token_limiter" where
  "drain_timer sha providerId now T =
     drain sha providerId now (T\<lparr>tl_timers := map_delete providerId (tl_timers T)\<rparr>)"

text \<open>
  Over a store whose \<open>consumeToken\<close> returns a promise, \<open>acquireToken\<close> queues its waiter
  and starts the call when nobody waits (\<open>Calling\<close>), and the waiter is released or the
  drain is scheduled when the call settles; \<open>settled\<close> is \<open>None\<close> for a rejected promise.
  \<open>drain\<close> starts one call, and goes on when it settles.
\<close>

datatype async_outcome = Calling | Waiting | Refused

definition acquireToken_async :: "string \<Rightarrow> nat \<Rightarrow> ms \<Rightarrow> token_limiter \<Rightarrow> async_outcome \<times> token_limiter" where
  "acquireToken_async providerId waiter now T =
     (let (queue, T) = getOrCreateQueue providerId T;
          pushed = T\<lparr>tl_queues := map_set providerId (queue @ [waiter]) (tl_queues T)\<rparr>
      in if length queue = 0 then (Calling, pushed)
         else if of_nat (length queue) \<ge> wc_maxQueueDepth (tl_config T) then (Refused, T)
         else (Waiting, scheduleDrain providerId now pushed))"

definition acquire_settled ::
  "string \<Rightarrow> nat \<Rightarrow> bool option \<Rightarrow> ms \<Rightarrow> token_limiter \<Rightarrow> nat list \<times> token_limiter" where
  "acquire_settled providerId waiter settled now T =
     (let (queue, T) = getOrCreateQueue providerId T
      in if settled = Some True
         then ([waiter], T\<lparr>tl_queues := map_set providerId (remove1 waiter queue) (tl_queues T)\<rparr>)
         else ([], scheduleDrain providerId now T))"

definition drain_calls :: "string \<Rightarrow> token_limiter \<Rightarrow> bool" where
  "drain_calls providerId T =
     (case map_get (tl_queues T) providerId of None \<Rightarrow> False | Some queue \<Rightarrow> queue \<noteq> [])"

definition drain_settled :: "string \<Rightarrow> bool option \<Rightarrow> ms \<Rightarrow> token_limiter \<Rightarrow> nat list \<times> token_limiter" where
  "drain_settled providerId settled now T =
     (let (queue, T) = getOrCreateQueue providerId T;
          (released, queue') = (case queue of
             [] \<Rightarrow> ([], [])
           | w # rest \<Rightarrow> if settled = Some True then ([w], rest) else ([], queue));
          T = T\<lparr>tl_queues := map_set providerId queue' (tl_queues T)\<rparr>
      in (released, if queue' \<noteq> [] then scheduleDrain providerId now T else T))"

text \<open>
  A waiter whose own call is under way can be released by a drain.  When its call
  then brings a token, that token releases nobody else, though others wait.
\<close>

lemma async_token_wasted:
  assumes "map_get (tl_queues T) p = Some queue" "w \<notin> set queue"
  shows "acquire_settled p w (Some True) now T = ([w], T\<lparr>tl_queues := map_set p queue (tl_queues T)\<rparr>)"
  using assms by (simp add: acquire_settled_def getOrCreateQueue_def remove1_idem)

subsection \<open>One bucket\<close>

definition bucket_of :: "string \<Rightarrow> rate_limit_store \<Rightarrow> token_bucket_entry option" where
  "bucket_of h st = map_get (ls_tokenBuckets st) h"

definition take_token :: "token_bucket_entry \<Rightarrow> token_bucket_entry" where
  "take_token b = (if tb_tokens b \<ge> 1 then b\<lparr>tb_tokens := tb_tokens b - 1\<rparr> else b)"

lemma consume_eq:
  fixes sha p capacity r now st
  defines "b \<equiv> current_bucket capacity r now (bucket_of (sha p) st)"
  shows "consumeToken sha p capacity r now st = (tb_tokens b \<ge> 1, setTokenBucket sha p (take_token b) st)"
  unfolding b_def
  by (simp add: consumeToken_def getTokenBucket_def bucket_of_def hashKey_def take_token_def Let_def)

lemma bucket_of_set [simp]:
  "bucket_of h (setTokenBucket sha p b st) = (if h = sha p then Some b else bucket_of h st)"
  by (simp add: bucket_of_def setTokenBucket_def hashKey_def)

text \<open>Buckets whose tokens are in range and whose refill time is not in the future.\<close>

definition bucket_ok :: "rat \<Rightarrow> ms \<Rightarrow> token_bucket_entry option \<Rightarrow> bool" where
  "bucket_ok capacity now b \<longleftrightarrow>
     (case b of None \<Rightarrow> True | Some b \<Rightarrow> 0 \<le> tb_tokens b \<and> tb_tokens b \<le> capacity \<and> tb_lastRefillMs b \<le> now)"

definition level :: "rat \<Rightarrow> rat \<Rightarrow> ms \<Rightarrow> token_bucket_entry option \<Rightarrow> rat" where
  "level capacity r now b = tb_tokens (current_bucket capacity r now b)"

lemma bucket_ok_later: "bucket_ok capacity t b \<Longrightarrow> t \<le> t' \<Longrightarrow> bucket_ok capacity t' b"
  by (auto simp: bucket_ok_def split: option.splits)

lemma level_range:
  assumes "bucket_ok capacity now b" "0 \<le> capacity" "0 \<le> r"
  shows "0 \<le> level capacity r now b" "level capacity r now b \<le> capacity"
  using assms
  by (auto simp: bucket_ok_def level_def current_bucket_def refilled_def min_def split: option.splits)

lemma current_bucket_now: "bucket_ok capacity now b \<Longrightarrow> tb_lastRefillMs (current_bucket capacity r now b) = now"
  by (auto simp: bucket_ok_def current_bucket_def split: option.splits)

lemma level_value:
  assumes "bucket_ok capacity now b"
  shows "level capacity r now b =
    (case b of None \<Rightarrow> capacity
     | Some b \<Rightarrow> min capacity (tb_tokens b + of_int (now - tb_lastRefillMs b) / 1000 * r))"
  using assms by (auto simp: bucket_ok_def level_def current_bucket_def refilled_def split: option.splits)

lemma level_growth:
  assumes ok: "bucket_ok capacity t b" and "t \<le> t'" "0 \<le> r"
  shows "level capacity r t' b \<le> level capacity r t b + of_int (t' - t) / 1000 * r"
proof (cases b)
  case None
  with assms show ?thesis by (simp add: level_def current_bucket_def)
next
  case (Some c)
  define v u :: rat where "v = of_int (t - tb_lastRefillMs c) / 1000 * r" and "u = of_int (t' - t) / 1000 * r"
  have "of_int (t' - tb_lastRefillMs c) / 1000 * r = v + u"
    by (simp add: v_def u_def algebra_simps diff_divide_distrib)
  then have "level capacity r t' b = min capacity (tb_tokens c + (v + u))"
    using level_value [OF bucket_ok_later [OF ok \<open>t \<le> t'\<close>], of r] Some by (simp only: option.case)
  moreover have "level capacity r t b = min capacity (tb_tokens c + v)"
    using level_value [OF ok, of r] Some by (simp only: option.case v_def)
  moreover have "0 \<le> u" using assms by (simp add: u_def)
  ultimately show ?thesis unfolding u_def [symmetric] by (simp add: min_def)
qed

lemma take_token_level:
  assumes "bucket_ok capacity now b" "0 \<le> capacity" "0 \<le> r"
  shows "bucket_ok capacity now (Some (take_token (current_bucket capacity r now b)))"
    and "level capacity r now (Some (take_token (current_bucket capacity r now b))) =
      level capacity r now b - (if level capacity r now b \<ge> 1 then 1 else 0)"
proof -
  let ?c = "take_token (current_bucket capacity r now b)"
  have c: "tb_lastRefillMs ?c = now"
    "tb_tokens ?c = level capacity r now b - (if level capacity r now b \<ge> 1 then 1 else 0)"
    using current_bucket_now [OF assms(1), of r] by (simp_all add: take_token_def level_def)
  with level_range [OF assms] show "bucket_ok capacity now (Some ?c)" by (auto simp: bucket_ok_def)
  from c show "level capacity r now (Some ?c) = level capacity r now b - (if level capacity r now b \<ge> 1 then 1 else 0)"
    by (simp add: level_def current_bucket_def)
qed

subsection \<open>The rate\<close>

text \<open>How many of the calls for the bucket \<open>h\<close> get a token.\<close>

primrec grants ::
  "(string \<Rightarrow> string) \<Rightarrow> string \<Rightarrow> rat \<Rightarrow> rat \<Rightarrow> (string \<times> ms) list \<Rightarrow> rate_limit_store \<Rightarrow> nat" where
  "grants sha h capacity r [] st = 0"
| "grants sha h capacity r (call # calls) st =
     (let (consumed, st') = consumeToken sha (fst call) capacity r (snd call) st
      in (if consumed \<and> sha (fst call) = h then 1 else 0) + grants sha h capacity r calls st')"

lemma sorted_le_last: "sorted (x # xs) \<Longrightarrow> x \<le> last (x # xs)" for x :: int
  by (cases xs rule: rev_cases) (auto simp: sorted_append)

lemma grants_level:
  assumes "bucket_ok capacity t (bucket_of h st)" "0 \<le> capacity" "0 \<le> r"
    and "sorted (t # map snd calls)" "last (t # map snd calls) \<le> t1"
  shows "of_nat (grants sha h capacity r calls st) \<le> level capacity r t (bucket_of h st) + of_int (t1 - t) / 1000 * r"
  using assms
proof (induction calls arbitrary: t st)
  case Nil
  with level_range(1) [OF Nil(1-3)] show ?case by simp
next
  case (Cons call calls)
  obtain p now where call: "call = (p, now)" by fastforce
  with Cons.prems have now: "t \<le> now" "now \<le> t1" "sorted (now # map snd calls)" "last (now # map snd calls) \<le> t1"
    using sorted_le_last [of now "map snd calls"] by auto
  have ok: "bucket_ok capacity now (bucket_of h st)" by (rule bucket_ok_later [OF Cons.prems(1) now(1)])
  define st' where "st' = snd (consumeToken sha p capacity r now st)"
  have st': "bucket_of h st' = (if h = sha p then Some (take_token (current_bucket capacity r now (bucket_of h st)))
      else bucket_of h st)"
    unfolding st'_def by (simp add: consume_eq)
  have "bucket_ok capacity now (bucket_of h st')"
    using take_token_level(1) [OF ok Cons.prems(2,3)] ok by (auto simp: st')
  from Cons.IH [OF this Cons.prems(2,3) now(3,4)]
  have "of_nat (grants sha h capacity r calls st') \<le> level capacity r now (bucket_of h st') + of_int (t1 - now) / 1000 * r" .
  moreover have "of_nat (grants sha h capacity r (call # calls) st) =
      (if fst (consumeToken sha p capacity r now st) \<and> sha p = h then 1 else 0) + (of_nat (grants sha h capacity r calls st') :: rat)"
    by (simp add: call st'_def split_beta)
  moreover have "level capacity r now (bucket_of h st') =
      level capacity r now (bucket_of h st) - (if fst (consumeToken sha p capacity r now st) \<and> sha p = h then 1 else 0)"
    using take_token_level(2) [OF ok Cons.prems(2,3)] by (auto simp: st' consume_eq level_def)
  moreover note level_growth [OF Cons.prems(1) now(1) Cons.prems(3)]
  moreover have "of_int (now - t) / 1000 * r + of_int (t1 - now) / 1000 * r = (of_int (t1 - t) / 1000 * r :: rat)"
    by (simp add: algebra_simps diff_divide_distrib)
  ultimately show ?case by linarith
qed

text \<open>
  C29. The bucket keeps its rate: in any interval, whatever calls for whatever
  providers arrive in it, a provider is granted at most the capacity plus the
  tokens that the refill rate gives in the length of the interval.
\<close>

theorem bucket_rate_bounded:
  assumes "bucket_ok capacity t0 (bucket_of (sha p) st)" "0 \<le> capacity" "0 \<le> refillRatePerSec"
    and "sorted (t0 # map snd calls @ [t1])"
  shows "of_nat (grants sha (sha p) capacity refillRatePerSec calls st) \<le>
    capacity + of_int (t1 - t0) / 1000 * refillRatePerSec"
proof -
  have "sorted (t0 # map snd calls)" "last (t0 # map snd calls) \<le> t1"
    using assms(4) by (cases calls rule: rev_cases; simp add: sorted_append)+
  from grants_level [OF assms(1-3) this, of sha] level_range(2) [OF assms(1-3)] show ?thesis by linarith
qed

theorem bucket_rate_bounded_witness:
  "of_nat (grants rev ''p'' 2 4 [(''p'', 0), (''p'', 1), (''p'', 2), (''q'', 2), (''p'', 500)] new_rate_limit_store) \<le> (4 :: rat)"
  using bucket_rate_bounded [of 2 0 rev "''p''" new_rate_limit_store 4
      "[(''p'', 0), (''p'', 1), (''p'', 2), (''q'', 2), (''p'', 500)]" 500]
  by (simp add: bucket_ok_def bucket_of_def new_rate_limit_store_def)

text \<open>
  The configuration is documented to refuse values that would make every delivery
  block forever.  A capacity between zero and one is accepted, and such a bucket
  never grants a token.
\<close>

theorem small_capacity_blocks:
  assumes "0 < capacity" "capacity < 1" "0 < r" "bucket_ok capacity now (bucket_of (sha p) st)"
  shows "loadWebhookTokenBucketConfig (Env_Num capacity) (Env_Num r) Env_None \<noteq> Throw e \<and>
    \<not> fst (consumeToken sha p capacity r now st)"
  using assms level_range(2) [OF assms(4), of r]
  by (simp add: loadWebhookTokenBucketConfig_def env_or_def consume_eq level_def)

subsection \<open>The script and the in-process store\<close>

text \<open>
  A bucket and a Redis hash correspond when they hold the same values, the hash
  with an expiry no earlier than the moment at which the bucket is full again; or
  when there is no live hash and the bucket is absent or full.
\<close>

definition full_at :: "rat \<Rightarrow> rat \<Rightarrow> ms \<Rightarrow> token_bucket_entry \<Rightarrow> bool" where
  "full_at capacity r t b \<longleftrightarrow> capacity \<le> tb_tokens b + of_int (t - tb_lastRefillMs b) / 1000 * r"

definition same_bucket :: "rat \<Rightarrow> rat \<Rightarrow> ms \<Rightarrow> token_bucket_entry option \<Rightarrow> redis_hash option \<Rightarrow> bool" where
  "same_bucket capacity r now b h \<longleftrightarrow>
     bucket_ok capacity now b \<and>
     (case b of
        None \<Rightarrow> h = None
      | Some b \<Rightarrow>
          (case h of
             None \<Rightarrow> False
           | Some h \<Rightarrow> rh_tokens h = tb_tokens b \<and> rh_last_refill h = tb_lastRefillMs b \<and>
                       full_at capacity r (rh_expiresAt h) b))"

lemma ttl_fills:
  assumes "0 < r" "0 \<le> tb_tokens b" "ttl = max 60 \<lceil>capacity / r * 2\<rceil>" "0 \<le> capacity" "tb_lastRefillMs b = now"
  shows "full_at capacity r (now + ttl * 1000) b"
proof -
  have "capacity / r * 2 \<le> of_int ttl" using assms(3) by (simp add: le_max_iff_disj of_int_max)
  then have "capacity * 2 \<le> of_int ttl * r" using assms(1) by (simp add: field_simps)
  with assms show ?thesis by (simp add: full_at_def)
qed

text \<open>What the script reads is what the in-process store computes, also when the hash has expired.\<close>

definition script_bucket :: "rat \<Rightarrow> rat \<Rightarrow> ms \<Rightarrow> ms \<Rightarrow> redis_db \<Rightarrow> string \<Rightarrow> rat \<times> ms" where
  "script_bucket capacity r now clock db key =
     (case HMGET db key clock of
        None \<Rightarrow> (capacity, now)
      | Some (tokens, lastRefill) \<Rightarrow>
          (let elapsedMs = now - lastRefill
           in if elapsedMs > 0 then (refilled capacity r now lastRefill tokens, now) else (tokens, lastRefill)))"

lemma script_bucket_same:
  assumes "same_bucket capacity r now b (map_get db key)" "0 \<le> r"
  shows "script_bucket capacity r now now db key =
    (tb_tokens (current_bucket capacity r now b), tb_lastRefillMs (current_bucket capacity r now b))"
proof (cases b)
  case None
  with assms show ?thesis by (simp add: same_bucket_def script_bucket_def HMGET_def current_bucket_def)
next
  case (Some c)
  with assms obtain h where h: "map_get db key = Some h" "rh_tokens h = tb_tokens c" "rh_last_refill h = tb_lastRefillMs c"
    "full_at capacity r (rh_expiresAt h) c" "bucket_ok capacity now b"
    by (auto simp: same_bucket_def split: option.splits)
  show ?thesis
  proof (cases "now < rh_expiresAt h")
    case True
    with h Some show ?thesis
      by (auto simp: script_bucket_def HMGET_def current_bucket_def Let_def)
  next
    case False
    then have "of_int (rh_expiresAt h - tb_lastRefillMs c) / 1000 * r \<le> of_int (now - tb_lastRefillMs c) / 1000 * r"
      using assms(2) by (intro mult_right_mono divide_right_mono) auto
    with h(4) have "capacity \<le> tb_tokens c + of_int (now - tb_lastRefillMs c) / 1000 * r"
      unfolding full_at_def by linarith
    then have "level capacity r now b = capacity" using level_value [OF h(5), of r] Some by simp
    with False h current_bucket_now [OF h(5), of r] show ?thesis
      by (simp add: script_bucket_def HMGET_def level_def)
  qed
qed

lemma script_eq:
  "CONSUME_LUA_SCRIPT key capacity r now 1 clock db =
    (let (tokens, lastRefill) = script_bucket capacity r now clock db key;
         ttl = max 60 \<lceil>capacity / r * 2\<rceil>
     in ((if tokens \<ge> 1 then 1 else 0, if tokens \<ge> 1 then tokens - 1 else tokens),
         map_set key \<lparr>rh_tokens = (if tokens \<ge> 1 then tokens - 1 else tokens), rh_last_refill = lastRefill,
                      rh_expiresAt = clock + ttl * 1000\<rparr> db))"
  by (simp add: CONSUME_LUA_SCRIPT_def script_bucket_def Let_def split_beta)

lemma script_step:
  assumes same: "same_bucket capacity r now b (map_get db key)" and pos: "0 < r" "0 \<le> capacity"
  shows "fst (fst (CONSUME_LUA_SCRIPT key capacity r now 1 now db)) = 1 \<longleftrightarrow> tb_tokens (current_bucket capacity r now b) \<ge> 1"
    and "same_bucket capacity r now (Some (take_token (current_bucket capacity r now b)))
      (map_get (snd (CONSUME_LUA_SCRIPT key capacity r now 1 now db)) key)"
proof -
  have r: "0 \<le> r" using pos by simp
  have ok: "bucket_ok capacity now b" using same by (simp add: same_bucket_def)
  note script = script_eq [of key capacity r now now db] script_bucket_same [OF same r]
  show "fst (fst (CONSUME_LUA_SCRIPT key capacity r now 1 now db)) = 1 \<longleftrightarrow> tb_tokens (current_bucket capacity r now b) \<ge> 1"
    by (simp add: script Let_def)
  let ?c = "take_token (current_bucket capacity r now b)"
  have okc: "bucket_ok capacity now (Some ?c)" by (rule take_token_level(1) [OF ok pos(2) r])
  have now: "tb_lastRefillMs ?c = now" using current_bucket_now [OF ok, of r] by (simp add: take_token_def)
  have "full_at capacity r (now + max 60 \<lceil>capacity / r * 2\<rceil> * 1000) ?c"
    using okc by (intro ttl_fills [OF pos(1) _ refl pos(2) now]) (simp add: bucket_ok_def)
  with okc now current_bucket_now [OF ok, of r]
  show "same_bucket capacity r now (Some ?c) (map_get (snd (CONSUME_LUA_SCRIPT key capacity r now 1 now db)) key)"
    by (auto simp: script same_bucket_def Let_def take_token_def)
qed

primrec memory_results ::
  "(string \<Rightarrow> string) \<Rightarrow> rat \<Rightarrow> rat \<Rightarrow> (string \<times> ms) list \<Rightarrow> rate_limit_store \<Rightarrow> bool list" where
  "memory_results sha capacity r [] st = []"
| "memory_results sha capacity r (call # calls) st =
     (let (consumed, st') = consumeToken sha (fst call) capacity r (snd call) st
      in consumed # memory_results sha capacity r calls st')"

primrec redis_results ::
  "(string \<Rightarrow> string) \<Rightarrow> rat \<Rightarrow> rat \<Rightarrow> (string \<times> ms) list \<Rightarrow> redis_store \<Rightarrow> redis_db \<Rightarrow> bool list" where
  "redis_results sha capacity r [] rs db = []"
| "redis_results sha capacity r (call # calls) rs db =
     (let (consumed, rs', db') = redis_consumeToken sha Answered (fst call) capacity r (snd call) (snd call) rs db
      in consumed # redis_results sha capacity r calls rs' db')"

definition same_store :: "string \<Rightarrow> rat \<Rightarrow> rat \<Rightarrow> ms \<Rightarrow> rate_limit_store \<Rightarrow> redis_db \<Rightarrow> bool" where
  "same_store prefix capacity r now st db \<longleftrightarrow>
     (\<forall>h. same_bucket capacity r now (bucket_of h st) (map_get db (prefix @ h)))"

lemma same_bucket_later: "same_bucket capacity r t b h \<Longrightarrow> t \<le> t' \<Longrightarrow> same_bucket capacity r t' b h"
  using bucket_ok_later by (auto simp: same_bucket_def)

lemma same_store_step:
  assumes same: "same_store (rd_keyPrefix rs) capacity r now st db" and pos: "0 < r" "0 \<le> capacity"
    and conn: "rd_isConnected rs"
    and res: "redis_consumeToken sha Answered p capacity r now now rs db = (consumed, rs', db')"
  shows "rs' = rs" "consumed = fst (consumeToken sha p capacity r now st)"
    and "same_store (rd_keyPrefix rs) capacity r now (snd (consumeToken sha p capacity r now st)) db'"
proof -
  let ?key = "rd_keyPrefix rs @ sha p"
  have key: "same_bucket capacity r now (bucket_of (sha p) st) (map_get db ?key)" using same by (simp add: same_store_def)
  have db': "db' = snd (CONSUME_LUA_SCRIPT ?key capacity r now 1 now db)"
    and c: "consumed \<longleftrightarrow> fst (fst (CONSUME_LUA_SCRIPT ?key capacity r now 1 now db)) = 1" and "rs' = rs"
    using res conn by (auto simp: redis_consumeToken_def getKey_def hashKey_def split_beta Let_def)
  then show "rs' = rs" "consumed = fst (consumeToken sha p capacity r now st)"
    using script_step(1) [OF key pos] by (simp_all add: consume_eq)
  have other: "map_get db' (rd_keyPrefix rs @ h) = map_get db (rd_keyPrefix rs @ h)" if "h \<noteq> sha p" for h
    using that by (simp add: db' script_eq Let_def split_beta)
  show "same_store (rd_keyPrefix rs) capacity r now (snd (consumeToken sha p capacity r now st)) db'"
    unfolding same_store_def
  proof
    fix h
    show "same_bucket capacity r now (bucket_of h (snd (consumeToken sha p capacity r now st)))
        (map_get db' (rd_keyPrefix rs @ h))"
      using same other [of h] script_step(2) [OF key pos]
      by (cases "h = sha p") (simp_all add: consume_eq db' same_store_def)
  qed
qed

text \<open>
  C30. The Redis script refines the in-process store: for calls in the order of
  time, with a reachable Redis that shares the clock, both stores give the same
  answers, although Redis forgets idle buckets.
\<close>

theorem redis_refines_memory:
  assumes "0 < refillRatePerSec" "0 \<le> capacity" "rd_isConnected rs"
    and "same_store (rd_keyPrefix rs) capacity refillRatePerSec t st db" "sorted (t # map snd calls)"
  shows "redis_results sha capacity refillRatePerSec calls rs db = memory_results sha capacity refillRatePerSec calls st"
  using assms(4,5)
proof (induction calls arbitrary: t st db)
  case (Cons call calls)
  obtain p now where call: "call = (p, now)" by fastforce
  obtain consumed rs' db' where
    res: "redis_consumeToken sha Answered p capacity refillRatePerSec now now rs db = (consumed, rs', db')"
    using prod_cases3 by blast
  from Cons.prems call same_bucket_later have "same_store (rd_keyPrefix rs) capacity refillRatePerSec now st db"
    unfolding same_store_def by fastforce
  from same_store_step [OF this assms(1-3) res] Cons.IH [of now] Cons.prems call res show ?case
    by (simp add: split_beta)
qed simp

theorem redis_refines_memory_witness:
  "redis_results rev 2 1 [(''p'', 5), (''p'', 6), (''p'', 7), (''p'', 200000)] \<lparr>rd_keyPrefix = ''b:'', rd_isConnected = True,
     rd_fallbackStore = new_rate_limit_store\<rparr> map_empty =
   memory_results rev 2 1 [(''p'', 5), (''p'', 6), (''p'', 7), (''p'', 200000)] new_rate_limit_store"
  using redis_refines_memory [of 1 2 "\<lparr>rd_keyPrefix = ''b:'', rd_isConnected = True,
     rd_fallbackStore = new_rate_limit_store\<rparr>" 0 new_rate_limit_store map_empty
     "[(''p'', 5), (''p'', 6), (''p'', 7), (''p'', 200000)]" rev]
  by (simp add: same_store_def same_bucket_def bucket_ok_def bucket_of_def new_rate_limit_store_def)

subsection \<open>Waiters\<close>

definition queue_of :: "string \<Rightarrow> token_limiter \<Rightarrow> nat list" where
  "queue_of p T = (case map_get (tl_queues T) p of None \<Rightarrow> [] | Some q \<Rightarrow> q)"

definition live_config :: "token_bucket_config \<Rightarrow> bool" where
  "live_config cfg \<longleftrightarrow>
     1 \<le> wc_capacity cfg \<and> 0 < wc_refillRatePerSec cfg \<and> 0 < wc_maxQueueDepth cfg \<and>
     of_int \<lfloor>wc_maxQueueDepth cfg\<rfloor> = wc_maxQueueDepth cfg"

text \<open>
  What holds for every provider: its queue is bounded, it has a timer exactly when
  somebody waits, and when the timer is due its bucket holds a token.
\<close>

definition provider_ok ::
  "token_bucket_config \<Rightarrow> ms \<Rightarrow> nat list \<Rightarrow> ms option \<Rightarrow> token_bucket_entry option \<Rightarrow> bool" where
  "provider_ok cfg now queue timer bucket \<longleftrightarrow>
     bucket_ok (wc_capacity cfg) now bucket \<and> of_nat (length queue) \<le> wc_maxQueueDepth cfg \<and>
     (case timer of
        None \<Rightarrow> queue = []
      | Some due \<Rightarrow>
          queue \<noteq> [] \<and>
          (\<exists>b. bucket = Some b \<and> 1 \<le> tb_tokens b + of_int (due - tb_lastRefillMs b) / 1000 * wc_refillRatePerSec cfg))"

definition limiter_ok :: "(string \<Rightarrow> string) \<Rightarrow> token_bucket_config \<Rightarrow> ms \<times> token_limiter \<Rightarrow> bool" where
  "limiter_ok sha cfg s \<longleftrightarrow>
     tl_config (snd s) = cfg \<and>
     (\<forall>p. provider_ok cfg (fst s) (queue_of p (snd s)) (map_get (tl_timers (snd s)) p)
        (bucket_of (sha p) (tl_store (snd s))))"

inductive token_step :: "(string \<Rightarrow> string) \<Rightarrow> ms \<times> token_limiter \<Rightarrow> ms \<times> token_limiter \<Rightarrow> bool" for sha where
  step_acquire: "now \<le> now' \<Longrightarrow> token_step sha (now, T) (now', snd (acquireToken sha p w now' T))"
| step_timer: "now \<le> now' \<Longrightarrow> map_get (tl_timers T) p = Some due \<Longrightarrow> due \<le> now' \<Longrightarrow>
    token_step sha (now, T) (now', snd (drain_timer sha p now' T))"

lemma provider_ok_later: "provider_ok cfg t q timer b \<Longrightarrow> t \<le> t' \<Longrightarrow> provider_ok cfg t' q timer b"
  using bucket_ok_later by (auto simp: provider_ok_def)

lemma drain_delay_enough:
  assumes "0 < wc_refillRatePerSec cfg"
  shows "1 \<le> of_int (drain_delay cfg) / 1000 * wc_refillRatePerSec cfg"
proof -
  have "1000 / wc_refillRatePerSec cfg \<le> of_int (drain_delay cfg)"
    by (simp add: drain_delay_def of_int_max le_max_iff_disj)
  with assms show ?thesis by (simp add: field_simps)
qed

lemma fresh_timer:
  assumes "live_config cfg" "bucket_ok (wc_capacity cfg) now (Some b)" "tb_lastRefillMs b = now"
  shows "1 \<le> tb_tokens b + of_int (now + drain_delay cfg - tb_lastRefillMs b) / 1000 * wc_refillRatePerSec cfg"
  using assms drain_delay_enough [of cfg] by (simp add: live_config_def bucket_ok_def)

lemma drain_loop_props:
  assumes "drain_loop sha p cfg now q st = (released, rest, st')" "live_config cfg"
    and "bucket_ok (wc_capacity cfg) now (bucket_of (sha p) st)"
  shows "q = released @ rest \<and> bucket_ok (wc_capacity cfg) now (bucket_of (sha p) st') \<and>
    (\<forall>h. h \<noteq> sha p \<longrightarrow> bucket_of h st' = bucket_of h st) \<and>
    (rest \<noteq> [] \<longrightarrow> (\<exists>b. bucket_of (sha p) st' = Some b \<and> tb_lastRefillMs b = now))"
  using assms(1,3)
proof (induction q arbitrary: st released rest st')
  case (Cons w q)
  let ?c = "current_bucket (wc_capacity cfg) (wc_refillRatePerSec cfg) now (bucket_of (sha p) st)"
  have cfg: "0 \<le> wc_capacity cfg" "0 \<le> wc_refillRatePerSec cfg" using assms(2) by (auto simp: live_config_def)
  define st1 where "st1 = setTokenBucket sha p (take_token ?c) st"
  have ok: "bucket_ok (wc_capacity cfg) now (bucket_of (sha p) st1)"
    unfolding st1_def using take_token_level(1) [OF Cons.prems(2) cfg] by simp
  have last: "tb_lastRefillMs (take_token ?c) = now"
    using current_bucket_now [OF Cons.prems(2)] by (simp add: take_token_def)
  show ?case
  proof (cases "1 \<le> tb_tokens ?c")
    case True
    then obtain released1 where "drain_loop sha p cfg now q st1 = (released1, rest, st')" "released = w # released1"
      using Cons.prems(1) by (auto simp: consume_eq st1_def split: prod.splits)
    with Cons.IH [OF this(1) ok] show ?thesis by (auto simp: st1_def)
  next
    case False
    with Cons.prems(1) have "released = []" "rest = w # q" "st' = st1" by (auto simp: consume_eq st1_def)
    with ok last show ?thesis by (auto simp: st1_def)
  qed
qed auto

lemma drain_loop_releases:
  assumes "1 \<le> level (wc_capacity cfg) (wc_refillRatePerSec cfg) now (bucket_of (sha p) st)" "q \<noteq> []"
  shows "fst (drain_loop sha p cfg now q st) \<noteq> []"
  using assms by (cases q) (auto simp: consume_eq level_def split_beta)

lemma acquire_config [simp]: "tl_config (snd (acquireToken sha p w now T)) = tl_config T"
  by (simp add: acquireToken_def getOrCreateQueue_def limiter_consume_def scheduleDrain_def Let_def split_beta
      split: option.split)

lemma acquire_other:
  assumes "p' \<noteq> p" "inj sha"
  shows "queue_of p' (snd (acquireToken sha p w now T)) = queue_of p' T"
    and "map_get (tl_timers (snd (acquireToken sha p w now T))) p' = map_get (tl_timers T) p'"
    and "bucket_of (sha p') (tl_store (snd (acquireToken sha p w now T))) = bucket_of (sha p') (tl_store T)"
  using assms
  by (simp_all add: acquireToken_def getOrCreateQueue_def limiter_consume_def scheduleDrain_def queue_of_def consume_eq
      inj_eq Let_def split_beta split: option.split)

lemma acquire_waiting:
  assumes "queue_of p T \<noteq> []" "map_get (tl_timers T) p = Some due"
  shows "snd (acquireToken sha p w now T) =
    (if of_nat (length (queue_of p T)) \<ge> wc_maxQueueDepth (tl_config T) then T
     else T\<lparr>tl_queues := map_set p (queue_of p T @ [w]) (tl_queues T)\<rparr>)"
  using assms
  by (auto simp: acquireToken_def getOrCreateQueue_def scheduleDrain_def queue_of_def Let_def split: option.splits)

lemma acquire_idle:
  fixes T sha p now
  defines "c \<equiv> current_bucket (wc_capacity (tl_config T)) (wc_refillRatePerSec (tl_config T)) now
    (bucket_of (sha p) (tl_store T))"
  assumes "queue_of p T = []" "map_get (tl_timers T) p = None" "0 < wc_maxQueueDepth (tl_config T)"
  shows "bucket_of (sha p) (tl_store (snd (acquireToken sha p w now T))) = Some (take_token c)"
    and "queue_of p (snd (acquireToken sha p w now T)) = (if 1 \<le> tb_tokens c then [] else [w])"
    and "map_get (tl_timers (snd (acquireToken sha p w now T))) p =
      (if 1 \<le> tb_tokens c then None else Some (now + drain_delay (tl_config T)))"
  using assms(2-)
  by (auto simp: acquireToken_def getOrCreateQueue_def limiter_consume_def scheduleDrain_def queue_of_def consume_eq c_def
      Let_def split_beta split: option.splits)

lemma acquire_ok:
  assumes ok: "provider_ok cfg now (queue_of p T) (map_get (tl_timers T) p) (bucket_of (sha p) (tl_store T))"
    and cfg: "live_config cfg" "tl_config T = cfg"
  shows "provider_ok cfg now (queue_of p (snd (acquireToken sha p w now T)))
      (map_get (tl_timers (snd (acquireToken sha p w now T))) p)
      (bucket_of (sha p) (tl_store (snd (acquireToken sha p w now T))))"
proof (cases "map_get (tl_timers T) p")
  case None
  with ok have q: "queue_of p T = []" and b: "bucket_ok (wc_capacity cfg) now (bucket_of (sha p) (tl_store T))"
    by (simp_all add: provider_ok_def)
  have pos: "0 \<le> wc_capacity cfg" "0 \<le> wc_refillRatePerSec cfg" "1 \<le> wc_maxQueueDepth cfg"
    using cfg by (auto simp: live_config_def)
  let ?c = "current_bucket (wc_capacity cfg) (wc_refillRatePerSec cfg) now (bucket_of (sha p) (tl_store T))"
  have tok: "bucket_ok (wc_capacity cfg) now (Some (take_token ?c))" by (rule take_token_level(1) [OF b pos(1,2)])
  have last: "tb_lastRefillMs (take_token ?c) = now" using current_bucket_now [OF b] by (simp add: take_token_def)
  have max: "0 < wc_maxQueueDepth (tl_config T)" using pos cfg by simp
  show ?thesis
    using acquire_idle [OF q None max, where sha = sha and w = w and now = now] tok fresh_timer [OF cfg(1) tok last] pos cfg(2)
    by (simp add: provider_ok_def)
next
  case (Some due)
  with ok have q: "queue_of p T \<noteq> []" by (simp add: provider_ok_def)
  have grow: "of_nat (Suc n) \<le> wc_maxQueueDepth cfg" if "\<not> wc_maxQueueDepth cfg \<le> of_nat n" for n
  proof -
    obtain d where d: "wc_maxQueueDepth cfg = of_int d" using cfg(1) unfolding live_config_def by metis
    with that have "(of_int (int n) :: rat) < of_int d" by simp
    then have "int (Suc n) \<le> d" by (simp only: of_int_less_iff)
    then have "(of_int (int (Suc n)) :: rat) \<le> of_int d" by (simp only: of_int_le_iff)
    then show ?thesis using d by simp
  qed
  show ?thesis
    using acquire_waiting [OF q Some, of sha w now] ok Some grow [of "length (queue_of p T)"] cfg(2)
    by (auto simp: provider_ok_def queue_of_def)
qed

lemma drain_timer_eq:
  assumes "queue_of p T \<noteq> []" "drain_loop sha p (tl_config T) now (queue_of p T) (tl_store T) = (released, rest, st)"
  shows "fst (drain_timer sha p now T) = released"
    and "queue_of p' (snd (drain_timer sha p now T)) = (if p' = p then rest else queue_of p' T)"
    and "map_get (tl_timers (snd (drain_timer sha p now T))) p' =
      (if p' = p then (if rest = [] then None else Some (now + drain_delay (tl_config T))) else map_get (tl_timers T) p')"
    and "tl_store (snd (drain_timer sha p now T)) = st" "tl_config (snd (drain_timer sha p now T)) = tl_config T"
  using assms
  by (auto simp: drain_timer_def drain_def queue_of_def scheduleDrain_def Let_def split: option.splits)

lemma timer_ok:
  assumes ok: "provider_ok cfg now (queue_of p T) (Some due) (bucket_of (sha p) (tl_store T))" and due: "due \<le> now"
    and cfg: "live_config cfg" "tl_config T = cfg"
  obtains released rest st where
    "drain_loop sha p (tl_config T) now (queue_of p T) (tl_store T) = (released, rest, st)"
    "queue_of p T = released @ rest" "released \<noteq> []" "queue_of p T \<noteq> []"
    "provider_ok cfg now rest (if rest = [] then None else Some (now + drain_delay cfg)) (bucket_of (sha p) st)"
    "\<And>h. h \<noteq> sha p \<Longrightarrow> bucket_of h st = bucket_of h (tl_store T)"
proof -
  obtain released rest st where
    loop: "drain_loop sha p (tl_config T) now (queue_of p T) (tl_store T) = (released, rest, st)"
    using prod_cases3 by blast
  from ok obtain b where q: "queue_of p T \<noteq> []" and b: "bucket_of (sha p) (tl_store T) = Some b"
    and one: "1 \<le> tb_tokens b + of_int (due - tb_lastRefillMs b) / 1000 * wc_refillRatePerSec cfg"
    and bok: "bucket_ok (wc_capacity cfg) now (bucket_of (sha p) (tl_store T))"
    and len: "of_nat (length (queue_of p T)) \<le> wc_maxQueueDepth cfg"
    by (auto simp: provider_ok_def)
  have "of_int (due - tb_lastRefillMs b) / 1000 * wc_refillRatePerSec cfg \<le>
      of_int (now - tb_lastRefillMs b) / 1000 * wc_refillRatePerSec cfg"
    using due cfg(1) by (intro mult_right_mono divide_right_mono) (auto simp: live_config_def)
  with one have "1 \<le> tb_tokens b + of_int (now - tb_lastRefillMs b) / 1000 * wc_refillRatePerSec cfg" by linarith
  with cfg(1) have "1 \<le> level (wc_capacity cfg) (wc_refillRatePerSec cfg) now (bucket_of (sha p) (tl_store T))"
    using level_value [OF bok, of "wc_refillRatePerSec cfg"] b by (simp add: live_config_def)
  with drain_loop_releases [of cfg now sha p "tl_store T" "queue_of p T"] q loop cfg(2) have "released \<noteq> []" by simp
  moreover have props: "queue_of p T = released @ rest" "bucket_ok (wc_capacity cfg) now (bucket_of (sha p) st)"
    "\<And>h. h \<noteq> sha p \<Longrightarrow> bucket_of h st = bucket_of h (tl_store T)"
    "rest \<noteq> [] \<Longrightarrow> \<exists>b. bucket_of (sha p) st = Some b \<and> tb_lastRefillMs b = now"
    using drain_loop_props [OF loop [unfolded cfg(2)] cfg(1) bok] by blast+
  moreover have "provider_ok cfg now rest (if rest = [] then None else Some (now + drain_delay cfg)) (bucket_of (sha p) st)"
    using props fresh_timer [OF cfg(1)] len by (fastforce simp: provider_ok_def)
  ultimately show ?thesis using that [OF loop] q by blast
qed

lemma limiter_ok_step:
  assumes ok: "limiter_ok sha cfg s" and cfg: "live_config cfg" "inj sha" and step: "token_step sha s s'"
  shows "limiter_ok sha cfg s'"
  using step ok
proof cases
  case (step_acquire now now' T p w)
  have later: "provider_ok cfg now' (queue_of p' T) (map_get (tl_timers T) p') (bucket_of (sha p') (tl_store T))" for p'
  proof (rule provider_ok_later [OF _ step_acquire(3)])
    show "provider_ok cfg now (queue_of p' T) (map_get (tl_timers T) p') (bucket_of (sha p') (tl_store T))"
      using ok step_acquire by (simp add: limiter_ok_def)
  qed
  have "tl_config T = cfg" using ok step_acquire by (simp add: limiter_ok_def)
  show ?thesis
    unfolding limiter_ok_def step_acquire(2) fst_conv snd_conv
  proof (intro conjI allI)
    show "tl_config (snd (acquireToken sha p w now' T)) = cfg" using \<open>tl_config T = cfg\<close> by simp
    fix p'
    show "provider_ok cfg now' (queue_of p' (snd (acquireToken sha p w now' T)))
        (map_get (tl_timers (snd (acquireToken sha p w now' T))) p')
        (bucket_of (sha p') (tl_store (snd (acquireToken sha p w now' T))))"
      using later [of p'] acquire_ok [where sha = sha and p = p, OF later cfg(1) \<open>tl_config T = cfg\<close>] acquire_other [OF _ cfg(2)]
      by (cases "p' = p") simp_all
  qed
next
  case (step_timer now now' T p due)
  have later: "provider_ok cfg now' (queue_of p' T) (map_get (tl_timers T) p') (bucket_of (sha p') (tl_store T))" for p'
  proof (rule provider_ok_later [OF _ step_timer(3)])
    show "provider_ok cfg now (queue_of p' T) (map_get (tl_timers T) p') (bucket_of (sha p') (tl_store T))"
      using ok step_timer by (simp add: limiter_ok_def)
  qed
  have conf: "tl_config T = cfg" using ok step_timer by (simp add: limiter_ok_def)
  obtain released rest st where
    loop: "drain_loop sha p (tl_config T) now' (queue_of p T) (tl_store T) = (released, rest, st)" "queue_of p T \<noteq> []"
      "provider_ok cfg now' rest (if rest = [] then None else Some (now' + drain_delay cfg)) (bucket_of (sha p) st)"
      "\<And>h. h \<noteq> sha p \<Longrightarrow> bucket_of h st = bucket_of h (tl_store T)"
    using timer_ok [OF _ step_timer(5) cfg(1) conf] later [of p] step_timer(4) by metis
  note after = drain_timer_eq [OF loop(2,1)]
  show ?thesis
    unfolding limiter_ok_def step_timer(2) fst_conv snd_conv
  proof (intro conjI allI)
    show "tl_config (snd (drain_timer sha p now' T)) = cfg" by (simp add: after conf)
    fix p'
    show "provider_ok cfg now' (queue_of p' (snd (drain_timer sha p now' T)))
        (map_get (tl_timers (snd (drain_timer sha p now' T))) p')
        (bucket_of (sha p') (tl_store (snd (drain_timer sha p now' T))))"
      using later [of p'] loop(3,4) cfg(2) by (cases "p' = p") (auto simp: after conf inj_eq split: if_splits)
  qed
qed

lemma limiter_ok_init: "live_config cfg \<Longrightarrow> limiter_ok sha cfg (t, new_token_limiter cfg new_rate_limit_store)"
  by (simp add: limiter_ok_def new_token_limiter_def new_rate_limit_store_def provider_ok_def queue_of_def bucket_of_def
      bucket_ok_def live_config_def)

interpretation token_sys: invariant_system "\<lambda>s. \<exists>t. s = (t, new_token_limiter cfg new_rate_limit_store)" "token_step sha"
  "\<lambda>s. live_config cfg \<and> inj sha \<longrightarrow> limiter_ok sha cfg s"
  by unfold_locales (auto intro: limiter_ok_init limiter_ok_step)

lemma limiter_ok_reachable:
  assumes "live_config cfg" "inj sha" "(token_step sha)\<^sup>*\<^sup>* (t, new_token_limiter cfg new_rate_limit_store) s"
  shows "limiter_ok sha cfg s"
  using token_sys.reachable_inv [OF _ assms(3)] assms(1,2) by blast

text \<open>
  C31. Over the in-process store nobody waits forever, nobody overtakes, and queues
  are bounded: in every state that the limiter reaches from a fresh one by
  acquisitions and timers at any times, the queue of a provider is no longer than the configured depth;
  whoever waits has a timer; and a timer that fires when it is due releases at
  least the first waiter, releases in the order of arrival, and leaves a timer
  behind for those who remain.  The capacity of a bucket must be at least one token
  (below that no waiter is ever released) and the hash must keep providers apart.
\<close>

theorem waiters_progress:
  assumes "live_config cfg" "inj sha" "(token_step sha)\<^sup>*\<^sup>* (t, new_token_limiter cfg new_rate_limit_store) (now, T)"
    and "queue_of p T \<noteq> []"
  shows "of_nat (length (queue_of p T)) \<le> wc_maxQueueDepth cfg \<and>
    (\<exists>due. map_get (tl_timers T) p = Some due \<and>
      (\<forall>now'. now \<le> now' \<and> due \<le> now' \<longrightarrow>
        (\<exists>released T'. drain_timer sha p now' T = (released, T') \<and> released \<noteq> [] \<and>
           queue_of p T = released @ queue_of p T' \<and>
           (queue_of p T' = [] \<or> map_get (tl_timers T') p = Some (now' + drain_delay cfg)))))"
proof -
  have ok: "limiter_ok sha cfg (now, T)" by (rule limiter_ok_reachable [OF assms(1-3)])
  then have conf: "tl_config T = cfg"
    and prov: "provider_ok cfg now (queue_of p T) (map_get (tl_timers T) p) (bucket_of (sha p) (tl_store T))"
    by (simp_all add: limiter_ok_def)
  from prov assms(4) obtain due where due: "map_get (tl_timers T) p = Some due"
    by (auto simp: provider_ok_def split: option.splits)
  have "\<exists>released T'. drain_timer sha p now' T = (released, T') \<and> released \<noteq> [] \<and>
           queue_of p T = released @ queue_of p T' \<and>
           (queue_of p T' = [] \<or> map_get (tl_timers T') p = Some (now' + drain_delay cfg))"
    if "now \<le> now'" "due \<le> now'" for now'
  proof -
    have "provider_ok cfg now' (queue_of p T) (Some due) (bucket_of (sha p) (tl_store T))"
      using provider_ok_later [OF prov that(1)] due by simp
    from timer_ok [where sha = sha and p = p, OF this that(2) assms(1) conf]
    obtain released rest st where "drain_loop sha p (tl_config T) now' (queue_of p T) (tl_store T) = (released, rest, st)"
      "queue_of p T = released @ rest" "released \<noteq> []" .
    with drain_timer_eq [OF assms(4), of sha now' released rest st] conf show ?thesis
      by (cases "drain_timer sha p now' T") auto
  qed
  with prov due show ?thesis by (auto simp: provider_ok_def)
qed

definition slow_config :: token_bucket_config where
  "slow_config = \<lparr>wc_capacity = 1, wc_refillRatePerSec = 1, wc_maxQueueDepth = 3\<rparr>"

theorem waiters_progress_witness:
  "\<exists>T. (token_step id)\<^sup>*\<^sup>* (0, new_token_limiter slow_config new_rate_limit_store) (0, T) \<and>
     queue_of ''p'' T = [1] \<and> (\<exists>due. map_get (tl_timers T) ''p'' = Some due)"
proof -
  define T0 where "T0 = new_token_limiter slow_config new_rate_limit_store"
  define T1 where "T1 = snd (acquireToken id ''p'' 0 0 T0)"
  define T2 where "T2 = snd (acquireToken id ''p'' 1 0 T1)"
  have steps: "(token_step id)\<^sup>*\<^sup>* (0, T0) (0, T2)"
    unfolding T1_def T2_def by (meson converse_rtranclp_into_rtranclp order_refl rtranclp.rtrancl_refl step_acquire)
  have queue: "queue_of ''p'' T2 = [1]"
    by (simp add: T2_def T1_def T0_def acquireToken_def new_token_limiter_def new_rate_limit_store_def slow_config_def
        getOrCreateQueue_def limiter_consume_def consumeToken_def getTokenBucket_def setTokenBucket_def hashKey_def
        current_bucket_def scheduleDrain_def queue_of_def Let_def)
  have "live_config slow_config" by (simp add: live_config_def slow_config_def)
  from waiters_progress [OF this inj_on_id steps [unfolded T0_def], of "''p''"] queue steps show ?thesis
    unfolding T0_def by auto
qed

end
