(* ===== verification/EventEnvelope.thy ===== *)
theory EventEnvelope
  imports Json Complex_Main
begin

text \<open>
  The validation that the two event pipelines share
  (\<open>shared/eventEnvelopeValidation.ts\<close>).  An event is an unknown JSON value; the
  validator checks five fields in order and either stops at the first failure or
  collects all of them.  The lemmas characterise the accepted envelopes and show that
  the two modes agree on acceptance and on the first error.

  Numbers in JSON values are integers, so that the test for an integer is always
  passed by a number.  \<open>Date.parse\<close> falls back to rules of the implementation and is
  the argument \<open>date_ok\<close>; \<open>Number\<close> on strings is \<open>js_Number\<close>.
\<close>

subsection \<open>Reading JSON values\<close>

text \<open>\<open>value.name\<close> on an object; the names read here are none that objects inherit.\<close>

fun get_field :: "json \<Rightarrow> string \<Rightarrow> json" where
  "get_field (JObj kvs) name = (case map_of kvs name of Some v \<Rightarrow> v | None \<Rightarrow> JUndef)"
| "get_field _ name = JUndef"

text \<open>A value as a condition.\<close>

definition js_truthy :: "json \<Rightarrow> bool" where
  "js_truthy v = (case v of JUndef \<Rightarrow> False | JNull \<Rightarrow> False | JBool b \<Rightarrow> b | JNum n \<Rightarrow> n \<noteq> 0 | JStr s \<Rightarrow> s \<noteq> [] | _ \<Rightarrow> True)"

definition isRecord :: "json \<Rightarrow> bool" where
  "isRecord value = (case value of JObj kvs \<Rightarrow> True | _ \<Rightarrow> False)"

text \<open>
  \<open>Number(s)\<close> for a string: decimal literals with fraction and exponent, the
  binary, octal and hexadecimal integers, and zero for blank strings.  \<^const>\<open>None\<close>
  stands for a result that is not finite: \<open>NaN\<close>, \<open>Infinity\<close>, and literals beyond the
  largest double.  Values are exact where the language rounds.
\<close>

definition radix_digit :: "nat \<Rightarrow> char \<Rightarrow> nat option" where
  "radix_digit b c =
     (let n = (of_char c :: nat);
          d = (if js_digit c then n - 48
               else if 97 \<le> n \<and> n \<le> 102 then n - 87
               else if 65 \<le> n \<and> n \<le> 70 then n - 55
               else 16)
      in if d < b then Some d else None)"

definition radix_value :: "nat \<Rightarrow> string \<Rightarrow> rat option" where
  "radix_value b ds =
     (if ds = [] \<or> list_ex (\<lambda>c. radix_digit b c = None) ds then None
      else Some (of_nat (foldl (\<lambda>n c. b * n + the (radix_digit b c)) 0 ds)))"

definition exponent_value :: "string \<Rightarrow> int option" where
  "exponent_value r =
     (case r of
        [] \<Rightarrow> Some 0
      | c # e \<Rightarrow>
          if c \<noteq> CHR ''e'' \<and> c \<noteq> CHR ''E'' then None
          else let neg = (e \<noteq> [] \<and> hd e = CHR ''-'');
                   ds = (if e \<noteq> [] \<and> (hd e = CHR ''-'' \<or> hd e = CHR ''+'') then tl e else e)
               in if ds = [] \<or> \<not> list_all js_digit ds then None
                  else Some (if neg then - digits_value ds else digits_value ds))"

definition scale10 :: "rat \<Rightarrow> int \<Rightarrow> rat" where
  "scale10 x k = (if 0 \<le> k then x * 10 ^ nat k else x / 10 ^ nat (- k))"

definition decimal_value :: "string \<Rightarrow> rat option" where
  "decimal_value u =
     (let whole = takeWhile js_digit u;
          r = dropWhile js_digit u;
          point = (r \<noteq> [] \<and> hd r = CHR ''.'');
          frac = (if point then takeWhile js_digit (tl r) else []);
          r' = (if point then dropWhile js_digit (tl r) else r)
      in if whole = [] \<and> frac = [] then None
         else map_option (\<lambda>e. scale10 (of_int (digits_value (whole @ frac))) (e - int (length frac)))
                (exponent_value r'))"

definition js_finite :: "rat \<Rightarrow> bool" where
  "js_finite x \<longleftrightarrow> \<bar>x\<bar> < 2 ^ 1024 - 2 ^ 970"

definition js_Number :: "string \<Rightarrow> rat option" where
  "js_Number s =
     (let t = js_trim s;
          v = (if t = [] then Some 0
               else if js_startsWith t ''0x'' \<or> js_startsWith t ''0X'' then radix_value 16 (drop 2 t)
               else if js_startsWith t ''0o'' \<or> js_startsWith t ''0O'' then radix_value 8 (drop 2 t)
               else if js_startsWith t ''0b'' \<or> js_startsWith t ''0B'' then radix_value 2 (drop 2 t)
               else if hd t = CHR ''-'' then map_option uminus (decimal_value (tl t))
               else if hd t = CHR ''+'' then decimal_value (tl t)
               else decimal_value t)
      in case v of Some x \<Rightarrow> (if js_finite x then Some x else None) | None \<Rightarrow> None)"

text \<open>\<open>typeof value !== 'string' || value.trim().length === 0\<close>\<close>

definition blank_field :: "json \<Rightarrow> bool" where
  "blank_field value = (case value of JStr s \<Rightarrow> js_trim s = [] | _ \<Rightarrow> True)"

definition toFiniteNumber :: "json \<Rightarrow> rat option" where
  "toFiniteNumber value =
     (case value of
        JNum n \<Rightarrow> if js_finite (of_int n) then Some (of_int n) else None
      | JStr s \<Rightarrow> if js_trim s \<noteq> [] then js_Number s else None
      | _ \<Rightarrow> None)"

subsection \<open>The validator\<close>

record field_error =
  err_field :: string
  err_message :: string

datatype timestamp_rule = Iso | Numeric

record envelope_options =
  rootErrorMessage :: string
  messageSuffix :: string
  timestampRule :: timestamp_rule
  abortEarly :: bool

definition field_err :: "envelope_options \<Rightarrow> string \<Rightarrow> string \<Rightarrow> field_error" where
  "field_err options name text = \<lparr>err_field = name, err_message = text @ messageSuffix options\<rparr>"

text \<open>The checks in the order of the code, each with whether it fails.\<close>

definition bad_sequence :: "json \<Rightarrow> bool" where
  "bad_sequence value = (case value of JNum n \<Rightarrow> n < 0 | _ \<Rightarrow> True)"

definition timestamp_check ::
  "(string \<Rightarrow> bool) \<Rightarrow> envelope_options \<Rightarrow> json \<Rightarrow> bool \<times> field_error" where
  "timestamp_check date_ok options timestamp =
     (case timestampRule options of
        Iso \<Rightarrow> ((case timestamp of JStr s \<Rightarrow> \<not> date_ok s | _ \<Rightarrow> True),
                field_err options ''timestamp'' ''timestamp must be a valid ISO string'')
      | Numeric \<Rightarrow> (toFiniteNumber timestamp = None,
                field_err options ''timestamp'' ''timestamp must be a valid epoch number or numeric string''))"

definition preamble_checks ::
  "(string \<Rightarrow> bool) \<Rightarrow> envelope_options \<Rightarrow> json \<Rightarrow> (bool \<times> field_error) list" where
  "preamble_checks date_ok options value =
     [(blank_field (get_field value ''contractId''),
         field_err options ''contractId'' ''contractId is required''),
      (blank_field (get_field value ''eventId''),
         field_err options ''eventId'' ''eventId is required''),
      (bad_sequence (get_field value ''sequence''),
         field_err options ''sequence'' ''sequence must be a non-negative integer''),
      timestamp_check date_ok options (get_field value ''timestamp''),
      (\<not> isRecord (get_field value ''payload''),
         field_err options ''payload'' ''payload must be an object'')]"

fun collect_errors :: "bool \<Rightarrow> (bool \<times> 'e) list \<Rightarrow> 'e list" where
  "collect_errors abort [] = []"
| "collect_errors abort ((fails, e) # cs) =
     (if fails then e # (if abort then [] else collect_errors abort cs)
      else collect_errors abort cs)"

definition validateEventEnvelopePreamble ::
  "(string \<Rightarrow> bool) \<Rightarrow> json \<Rightarrow> envelope_options \<Rightarrow> field_error list" where
  "validateEventEnvelopePreamble date_ok value options =
     (if \<not> isRecord value then [\<lparr>err_field = ''event'', err_message = rootErrorMessage options\<rparr>]
      else collect_errors (abortEarly options) (preamble_checks date_ok options value))"

subsection \<open>What it accepts\<close>

lemma collect_all: "collect_errors False cs = map snd (filter fst cs)"
  by (induction "False" cs rule: collect_errors.induct) auto

lemma collect_first: "collect_errors True cs = take 1 (map snd (filter fst cs))"
  by (induction "True" cs rule: collect_errors.induct) auto

lemma collect_empty: "collect_errors abort cs = [] \<longleftrightarrow> list_all (\<lambda>c. \<not> fst c) cs"
  by (induction abort cs rule: collect_errors.induct) auto

definition timestamp_valid :: "(string \<Rightarrow> bool) \<Rightarrow> timestamp_rule \<Rightarrow> json \<Rightarrow> bool" where
  "timestamp_valid date_ok rule t =
     (case rule of
        Iso \<Rightarrow> (\<exists>s. t = JStr s \<and> date_ok s)
      | Numeric \<Rightarrow> toFiniteNumber t \<noteq> None)"

lemma timestamp_check_fst:
  "fst (timestamp_check date_ok options t) \<longleftrightarrow> \<not> timestamp_valid date_ok (timestampRule options) t"
  by (auto simp: timestamp_check_def timestamp_valid_def split: timestamp_rule.splits json.splits)

lemma blank_field_iff: "\<not> blank_field v \<longleftrightarrow> (\<exists>s. v = JStr s \<and> js_trim s \<noteq> [])"
  by (auto simp: blank_field_def split: json.splits)

lemma bad_sequence_iff: "\<not> bad_sequence v \<longleftrightarrow> (\<exists>n\<ge>0. v = JNum n)"
  by (auto simp: bad_sequence_def split: json.splits)

lemma isRecord_iff: "isRecord v \<longleftrightarrow> (\<exists>kvs. v = JObj kvs)"
  by (auto simp: isRecord_def split: json.splits)

text \<open>Acceptance, with the fields it guarantees.\<close>

lemma preamble_accepts_iff:
  "validateEventEnvelopePreamble date_ok value options = [] \<longleftrightarrow>
     isRecord value \<and>
     (\<exists>s. get_field value ''contractId'' = JStr s \<and> js_trim s \<noteq> []) \<and>
     (\<exists>s. get_field value ''eventId'' = JStr s \<and> js_trim s \<noteq> []) \<and>
     (\<exists>n\<ge>0. get_field value ''sequence'' = JNum n) \<and>
     timestamp_valid date_ok (timestampRule options) (get_field value ''timestamp'') \<and>
     isRecord (get_field value ''payload'')"
  unfolding validateEventEnvelopePreamble_def preamble_checks_def
  using timestamp_check_fst [of date_ok options "get_field value ''timestamp''"]
  by (simp add: collect_empty flip: blank_field_iff bad_sequence_iff)

lemma preamble_checks_abort [simp]:
  "preamble_checks date_ok (options\<lparr>abortEarly := b\<rparr>) value = preamble_checks date_ok options value"
  by (cases "timestampRule options") (simp_all add: preamble_checks_def timestamp_check_def field_err_def)

text \<open>Failing fast reports the first of the errors that collecting reports.\<close>

lemma preamble_fail_fast:
  "validateEventEnvelopePreamble date_ok value (options\<lparr>abortEarly := True\<rparr>) =
   take 1 (validateEventEnvelopePreamble date_ok value (options\<lparr>abortEarly := False\<rparr>))"
  by (simp add: validateEventEnvelopePreamble_def collect_all collect_first)

lemma preamble_check_fields:
  "map (\<lambda>c. err_field (snd c)) (preamble_checks date_ok options value) =
   [''contractId'', ''eventId'', ''sequence'', ''timestamp'', ''payload'']"
  by (cases "timestampRule options") (simp_all add: preamble_checks_def timestamp_check_def field_err_def)

lemma preamble_once_per_field:
  "distinct (map err_field (validateEventEnvelopePreamble date_ok value options))"
proof -
  let ?cs = "preamble_checks date_ok options value"
  have "distinct (map (\<lambda>c. err_field (snd c)) ?cs)" by (simp only: preamble_check_fields) simp
  then have all: "distinct (map err_field (collect_errors False ?cs))"
    using distinct_map_filter [of "\<lambda>c. err_field (snd c)" ?cs fst] by (simp add: collect_all comp_def)
  have "distinct (map err_field (collect_errors True ?cs))"
    using distinct_take [OF all, of 1] by (simp add: collect_all collect_first take_map)
  with all show ?thesis
    by (cases "abortEarly options") (simp_all add: validateEventEnvelopePreamble_def)
qed

subsection \<open>Keys of the form \<open>contractId:eventId:sequence\<close>\<close>

definition colon_key :: "string \<Rightarrow> string \<Rightarrow> string \<Rightarrow> string" where
  "colon_key c e s = c @ '':'' @ e @ '':'' @ s"

lemma colon_split:
  assumes "c @ CHR '':'' # r = c' @ CHR '':'' # r'" "CHR '':'' \<notin> set c" "CHR '':'' \<notin> set c'"
  shows "c = c' \<and> r = r'"
  using append_eq_takeWhile [of c "CHR '':'' # r" c' "CHR '':'' # r'" "\<lambda>x. x \<noteq> CHR '':''"] assms
  by auto

lemma colon_key_inj:
  assumes "colon_key c e s = colon_key c' e' s'"
    "CHR '':'' \<notin> set c \<union> set e" "CHR '':'' \<notin> set c' \<union> set e'"
  shows "c = c' \<and> e = e' \<and> s = s'"
  using colon_split [of c "e @ '':'' @ s" c' "e' @ '':'' @ s'"] colon_split [of e s e' s'] assms
  by (simp add: colon_key_def)

end
