(* ===== verification/EventIndexer.thy ===== *)
theory EventIndexer
  imports EventEnvelope JsMap "HOL-Library.Extended_Nat" "HOL-Library.Sublist"
    "HOL-Library.Multiset"
begin

text \<open>
  The indexer of contract events (\<open>contracts/\<close>: \<open>types.ts\<close>, \<open>validation.ts\<close>,
  \<open>dedupe.ts\<close>, \<open>repository.ts\<close>, \<open>processor.ts\<close>, \<open>indexer.ts\<close> and the cursor store of
  \<open>cursor.repository.ts\<close>).  A batch of unknown values is sorted by sequence number,
  each value is validated and stored under its key unless the key is taken, and the
  cursor of the source is set to the largest sequence seen.  The lemmas say exactly
  what a batch stores and counts, and that indexing it again stores nothing.

  The events and cursors are in the in-memory stores, which never fail, so that the
  indexer's \<open>catch\<close> branch is not reached.  \<open>clock\<close> gives the ISO times that
  successive reads of the clock print.
\<close>

subsection \<open>Events and their validation\<close>

record contract_event =
  contractId :: string
  eventId :: string
  sequence :: nat
  timestamp :: string
  event_type :: string
  payload :: json

record persisted_event = contract_event +
  eventKey :: string
  receivedAt :: string

definition EVENT_TYPES :: "string list" where
  "EVENT_TYPES =
     [''CONTRACT_CREATED'', ''CONTRACT_FUNDED'', ''MILESTONE_RELEASED'', ''CONTRACT_COMPLETED'',
      ''CONTRACT_CANCELLED'']"

definition CONTRACT_PREAMBLE_OPTIONS :: envelope_options where
  "CONTRACT_PREAMBLE_OPTIONS =
     \<lparr>rootErrorMessage = ''Payload must be a JSON object'', messageSuffix = [],
      timestampRule = Iso, abortEarly = True\<rparr>"

fun str_of :: "json \<Rightarrow> string" where
  "str_of (JStr s) = s"
| "str_of _ = []"

fun nat_of :: "json \<Rightarrow> nat" where
  "nat_of (JNum n) = nat n"
| "nat_of _ = 0"

definition validateContractEventPayload ::
  "(string \<Rightarrow> bool) \<Rightarrow> json \<Rightarrow> (string, contract_event) result" where
  "validateContractEventPayload date_ok value =
     (case validateEventEnvelopePreamble date_ok value CONTRACT_PREAMBLE_OPTIONS of
        e # es \<Rightarrow> Throw (err_message e)
      | [] \<Rightarrow>
          (case get_field value ''type'' of
             JStr t \<Rightarrow>
               if t \<in> set EVENT_TYPES
               then Ok \<lparr>contractId = js_trim (str_of (get_field value ''contractId'')),
                        eventId = js_trim (str_of (get_field value ''eventId'')),
                        sequence = nat_of (get_field value ''sequence''),
                        timestamp = str_of (get_field value ''timestamp''),
                        event_type = t,
                        payload = get_field value ''payload''\<rparr>
               else Throw ''type is invalid''
           | _ \<Rightarrow> Throw ''type is invalid''))"

definition buildEventKey :: "('a contract_event_scheme) \<Rightarrow> string" where
  "buildEventKey event = contractId event @ '':'' @ eventId event @ '':'' @ show_nat (sequence event)"

subsection \<open>Storing one event\<close>

type_synonym event_repository = "(string, persisted_event) jsmap"

definition hasEventKey :: "event_repository \<Rightarrow> string \<Rightarrow> bool" where
  "hasEventKey repo key = map_has repo key"

definition saveEvent :: "persisted_event \<Rightarrow> event_repository \<Rightarrow> event_repository" where
  "saveEvent event repo = map_set (eventKey event) event repo"

definition listEvents :: "event_repository \<Rightarrow> persisted_event list" where
  "listEvents repo = map_values repo"

datatype ingest_result =
    Accepted string
  | Duplicate string
  | Invalid string

text \<open>\<open>ingest\<close> up to the write, which follows an \<open>await\<close>: either the answer or the event to save.\<close>

datatype ingest_pending = Answer ingest_result | Save persisted_event

definition ingest_check ::
  "(string \<Rightarrow> bool) \<Rightarrow> string \<Rightarrow> json \<Rightarrow> event_repository \<Rightarrow> ingest_pending" where
  "ingest_check date_ok now value repo =
     (case validateContractEventPayload date_ok value of
        Throw reason \<Rightarrow> Answer (Invalid reason)
      | Ok event \<Rightarrow>
          (let key = buildEventKey event
           in if hasEventKey repo key then Answer (Duplicate key)
              else Save (contract_event.extend event \<lparr>eventKey = key, receivedAt = now\<rparr>)))"

definition ingest_save :: "ingest_pending \<Rightarrow> event_repository \<Rightarrow> ingest_result \<times> event_repository" where
  "ingest_save p repo =
     (case p of
        Answer r \<Rightarrow> (r, repo)
      | Save event \<Rightarrow> (Accepted (eventKey event), saveEvent event repo))"

definition ingest ::
  "(string \<Rightarrow> bool) \<Rightarrow> string \<Rightarrow> json \<Rightarrow> event_repository \<Rightarrow> ingest_result \<times> event_repository" where
  "ingest date_ok now value repo = ingest_save (ingest_check date_ok now value repo) repo"

subsection \<open>Cursors\<close>

record indexer_cursor =
  sourceId :: string
  lastSequence :: int
  updatedAt :: string
  metadata :: "json option"

type_synonym cursor_repository = "(string, indexer_cursor) jsmap"

definition getCursor :: "cursor_repository \<Rightarrow> string \<Rightarrow> indexer_cursor option" where
  "getCursor cursors source = map_get cursors source"

definition updateCursor ::
  "string \<Rightarrow> string \<Rightarrow> int \<Rightarrow> json option \<Rightarrow> cursor_repository \<Rightarrow> indexer_cursor \<times> cursor_repository" where
  "updateCursor now source newSequence meta cursors =
     (let cursor = \<lparr>sourceId = source, lastSequence = newSequence, updatedAt = now, metadata = meta\<rparr>
      in (cursor, map_set source cursor cursors))"

definition listCursors :: "cursor_repository \<Rightarrow> indexer_cursor list" where
  "listCursors cursors = map_values cursors"

definition deleteCursor :: "string \<Rightarrow> cursor_repository \<Rightarrow> bool \<times> cursor_repository" where
  "deleteCursor source cursors = (map_has cursors source, map_delete source cursors)"

record resume_result =
  resume_cursor :: "indexer_cursor option"
  resumeFromSequence :: int
  isFreshStart :: bool

definition resumeFromCursor :: "string \<Rightarrow> int option \<Rightarrow> cursor_repository \<Rightarrow> resume_result" where
  "resumeFromCursor source fromSequence cursors =
     (let cursor = getCursor cursors source
      in case fromSequence of
           Some n \<Rightarrow> \<lparr>resume_cursor = cursor, resumeFromSequence = n, isFreshStart = (cursor = None)\<rparr>
         | None \<Rightarrow>
             (case cursor of
                None \<Rightarrow> \<lparr>resume_cursor = None, resumeFromSequence = 0, isFreshStart = True\<rparr>
              | Some c \<Rightarrow> \<lparr>resume_cursor = cursor, resumeFromSequence = lastSequence c + 1,
                           isFreshStart = False\<rparr>))"

subsection \<open>Batches\<close>

text \<open>
  \<open>extractSequence\<close> gives infinity for what has no valid sequence.  The comparison
  function of the sort yields \<open>NaN\<close> for two infinities, which \<open>sort\<close> takes for zero,
  and breaks other ties by position: the order is that of a stable sort.
\<close>

definition extractSequence :: "json \<Rightarrow> enat" where
  "extractSequence event =
     (case get_field event ''sequence'' of
        JNum n \<Rightarrow> if 0 \<le> n then enat (nat n) else \<infinity>
      | _ \<Rightarrow> \<infinity>)"

definition sortEventsBySequence :: "json list \<Rightarrow> json list" where
  "sortEventsBySequence events = sort_key extractSequence events"

definition updateMaxSequence :: "json \<Rightarrow> int \<Rightarrow> int" where
  "updateMaxSequence event currentMax =
     (case extractSequence event of enat n \<Rightarrow> max currentMax (int n) | \<infinity> \<Rightarrow> currentMax)"

record batch_state =
  stored :: event_repository
  processedCount :: nat
  duplicateCount :: nat
  batch_errors :: "string list"
  maxSequence :: int

definition index_event :: "(string \<Rightarrow> bool) \<Rightarrow> string \<Rightarrow> json \<Rightarrow> batch_state \<Rightarrow> batch_state" where
  "index_event date_ok now event st =
     (let (result, repo) = ingest date_ok now event (stored st)
      in case result of
           Accepted key \<Rightarrow>
             st\<lparr>stored := repo, processedCount := processedCount st + 1,
                maxSequence := updateMaxSequence event (maxSequence st)\<rparr>
         | Duplicate key \<Rightarrow>
             st\<lparr>stored := repo, duplicateCount := duplicateCount st + 1,
                maxSequence := updateMaxSequence event (maxSequence st)\<rparr>
         | Invalid reason \<Rightarrow>
             st\<lparr>stored := repo,
                batch_errors := batch_errors st @ [if reason = [] then ''Event validation failed'' else reason]\<rparr>)"

fun index_loop ::
  "(string \<Rightarrow> bool) \<Rightarrow> (nat \<Rightarrow> string) \<Rightarrow> nat \<Rightarrow> json list \<Rightarrow> batch_state \<Rightarrow> batch_state" where
  "index_loop date_ok clock n [] st = st"
| "index_loop date_ok clock n (event # events) st =
     index_loop date_ok clock (Suc n) events (index_event date_ok (clock n) event st)"

record indexer_batch_result =
  res_processed :: nat
  res_duplicates :: nat
  res_errors :: "string list"
  res_cursor :: "indexer_cursor option"

record indexer =
  ix_events :: event_repository
  ix_cursors :: cursor_repository

definition indexBatch ::
  "(string \<Rightarrow> bool) \<Rightarrow> (nat \<Rightarrow> string) \<Rightarrow> string \<Rightarrow> json list \<Rightarrow> indexer \<Rightarrow> indexer_batch_result \<times> indexer" where
  "indexBatch date_ok clock source events ix =
     (let st = index_loop date_ok clock 0 (sortEventsBySequence events)
                 \<lparr>stored = ix_events ix, processedCount = 0, duplicateCount = 0, batch_errors = [],
                  maxSequence = -1\<rparr>;
          result = \<lparr>res_processed = processedCount st, res_duplicates = duplicateCount st,
                    res_errors = batch_errors st, res_cursor = None\<rparr>
      in if 0 \<le> maxSequence st
         then let (cursor, cursors) =
                    updateCursor (clock (length events)) source (maxSequence st) None (ix_cursors ix)
              in (result\<lparr>res_cursor := Some cursor\<rparr>, \<lparr>ix_events = stored st, ix_cursors = cursors\<rparr>)
         else (result, \<lparr>ix_events = stored st, ix_cursors = ix_cursors ix\<rparr>))"

subsection \<open>What one event does\<close>

definition event_of :: "(string \<Rightarrow> bool) \<Rightarrow> json \<Rightarrow> contract_event option" where
  "event_of date_ok value =
     (case validateContractEventPayload date_ok value of Ok event \<Rightarrow> Some event | Throw _ \<Rightarrow> None)"

definition valid_events :: "(string \<Rightarrow> bool) \<Rightarrow> json list \<Rightarrow> contract_event list" where
  "valid_events date_ok values = List.map_filter (event_of date_ok) values"

definition valid_keys :: "(string \<Rightarrow> bool) \<Rightarrow> json list \<Rightarrow> string set" where
  "valid_keys date_ok values = buildEventKey ` set (valid_events date_ok values)"

definition reject_message :: "(string \<Rightarrow> bool) \<Rightarrow> json \<Rightarrow> string option" where
  "reject_message date_ok value =
     (case validateContractEventPayload date_ok value of
        Throw reason \<Rightarrow> Some (if reason = [] then ''Event validation failed'' else reason)
      | Ok event \<Rightarrow> None)"

lemma valid_events_simps [simp]:
  "valid_events date_ok [] = []"
  "valid_events date_ok (v # vs) =
     (case event_of date_ok v of Some e \<Rightarrow> e # valid_events date_ok vs | None \<Rightarrow> valid_events date_ok vs)"
  by (simp_all add: valid_events_def map_filter_simps split: option.splits)

lemma valid_keys_simps [simp]:
  "valid_keys date_ok [] = {}"
  "valid_keys date_ok (v # vs) =
     (case event_of date_ok v of
        Some e \<Rightarrow> insert (buildEventKey e) (valid_keys date_ok vs) | None \<Rightarrow> valid_keys date_ok vs)"
  by (simp_all add: valid_keys_def split: option.splits)

text \<open>An accepted value is an envelope with the fields of the event.\<close>

lemma validate_Ok:
  assumes "validateContractEventPayload date_ok value = Ok event"
  shows "get_field value ''sequence'' = JNum (int (sequence event))"
    and "contractId event \<noteq> []" and "eventId event \<noteq> []"
    and "event_type event \<in> set EVENT_TYPES"
    and "date_ok (timestamp event)" and "isRecord (payload event)"
proof -
  have pre: "validateEventEnvelopePreamble date_ok value CONTRACT_PREAMBLE_OPTIONS = []"
    using assms by (auto simp: validateContractEventPayload_def split: list.splits)
  obtain c e n t where f: "get_field value ''contractId'' = JStr c" "js_trim c \<noteq> []"
      "get_field value ''eventId'' = JStr e" "js_trim e \<noteq> []"
      "get_field value ''sequence'' = JNum n" "0 \<le> n"
      "get_field value ''timestamp'' = JStr t" "date_ok t" "isRecord (get_field value ''payload'')"
    using pre unfolding preamble_accepts_iff
    by (auto simp: CONTRACT_PREAMBLE_OPTIONS_def timestamp_valid_def)
  from assms pre f show "get_field value ''sequence'' = JNum (int (sequence event))"
    "contractId event \<noteq> []" "eventId event \<noteq> []" "event_type event \<in> set EVENT_TYPES"
    "date_ok (timestamp event)" "isRecord (payload event)"
    by (auto simp: validateContractEventPayload_def split: json.splits if_splits)
qed

lemma event_of_Some: "event_of date_ok value = Some event \<longleftrightarrow> validateContractEventPayload date_ok value = Ok event"
  by (auto simp: event_of_def split: sum.splits)

lemma extractSequence_valid:
  "event_of date_ok value = Some event \<Longrightarrow> extractSequence value = enat (sequence event)"
  by (simp add: event_of_Some extractSequence_def validate_Ok(1))

lemma reject_message_None: "reject_message date_ok value = None \<longleftrightarrow> event_of date_ok value \<noteq> None"
  by (auto simp: reject_message_def event_of_def split: sum.splits)

definition persist :: "string \<Rightarrow> contract_event \<Rightarrow> persisted_event" where
  "persist now event = contract_event.extend event \<lparr>eventKey = buildEventKey event, receivedAt = now\<rparr>"

lemma persist_simps [simp]:
  "sequence (persist now event) = sequence event" "eventKey (persist now event) = buildEventKey event"
  "contract_event.truncate (persist now event) = event" "buildEventKey (persist now event) = buildEventKey event"
  by (simp_all add: persist_def contract_event.defs buildEventKey_def)

lemma ingest_cases:
  "ingest date_ok now value repo =
     (case event_of date_ok value of
        None \<Rightarrow> (Invalid (projl (validateContractEventPayload date_ok value)), repo)
      | Some event \<Rightarrow>
          if buildEventKey event \<in> set (map_keys repo) then (Duplicate (buildEventKey event), repo)
          else (Accepted (buildEventKey event), repo @ [(buildEventKey event, persist now event)]))"
  by (auto simp: ingest_def ingest_check_def ingest_save_def event_of_def hasEventKey_def map_has_def
      set_map_keys saveEvent_def persist_def [symmetric] Let_def map_set_fresh split: sum.splits)

lemma index_event_cases:
  "index_event date_ok now value st =
     (case event_of date_ok value of
        None \<Rightarrow> st\<lparr>batch_errors := batch_errors st @ [the (reject_message date_ok value)]\<rparr>
      | Some event \<Rightarrow>
          if buildEventKey event \<in> set (map_keys (stored st))
          then st\<lparr>duplicateCount := duplicateCount st + 1,
                  maxSequence := max (maxSequence st) (int (sequence event))\<rparr>
          else st\<lparr>stored := stored st @ [(buildEventKey event, persist now event)],
                  processedCount := processedCount st + 1,
                  maxSequence := max (maxSequence st) (int (sequence event))\<rparr>)"
  by (auto simp: index_event_def ingest_cases updateMaxSequence_def extractSequence_valid
      split: option.splits) (auto simp: event_of_def reject_message_def split: sum.splits)

subsection \<open>What a batch does\<close>

text \<open>Every stored event carries its key and is stored under it.\<close>

definition well_keyed :: "event_repository \<Rightarrow> bool" where
  "well_keyed repo = list_all (\<lambda>(k, e). eventKey e = k \<and> buildEventKey e = k) repo"

lemma well_keyed_simps [simp]:
  "well_keyed []" "well_keyed (ke # m) \<longleftrightarrow> eventKey (snd ke) = fst ke \<and> buildEventKey (snd ke) = fst ke \<and> well_keyed m"
  by (auto simp: well_keyed_def)

lemma index_loop_stored:
  "\<exists>new. stored (index_loop date_ok clock n es st) = stored st @ new
     \<and> processedCount (index_loop date_ok clock n es st) = processedCount st + length new
     \<and> distinct (map fst new)
     \<and> set (map fst new) = valid_keys date_ok es - set (map_keys (stored st))
     \<and> subseq (map (\<lambda>ke. contract_event.truncate (snd ke)) new) (valid_events date_ok es)
     \<and> well_keyed new"
proof (induction es arbitrary: n st)
  case Nil
  show ?case by (rule exI [of _ "[]"]) simp
next
  case (Cons v es)
  let ?st = "index_event date_ok (clock n) v st"
  obtain new where new: "stored (index_loop date_ok clock (Suc n) es ?st) = stored ?st @ new"
      "processedCount (index_loop date_ok clock (Suc n) es ?st) = processedCount ?st + length new"
      "distinct (map fst new)"
      "set (map fst new) = valid_keys date_ok es - set (map_keys (stored ?st))"
      "subseq (map (\<lambda>ke. contract_event.truncate (snd ke)) new) (valid_events date_ok es)"
      "well_keyed new"
    using Cons.IH by blast
  consider (invalid) "event_of date_ok v = None"
    | (old) e where "event_of date_ok v = Some e" "buildEventKey e \<in> set (map_keys (stored st))"
    | (fresh) e where "event_of date_ok v = Some e" "buildEventKey e \<notin> set (map_keys (stored st))"
    by (cases "event_of date_ok v") auto
  then show ?case
  proof cases
    case invalid
    with new show ?thesis by (intro exI [of _ new]) (simp add: index_event_cases)
  next
    case old
    with new show ?thesis by (intro exI [of _ new]) (auto simp: index_event_cases)
  next
    case fresh
    let ?new = "(buildEventKey e, persist (clock n) e) # new"
    from fresh new have "set (map fst new) =
        valid_keys date_ok es - insert (buildEventKey e) (set (map_keys (stored st)))"
      by (simp add: index_event_cases map_keys_def)
    with fresh new show ?thesis
      by (intro exI [of _ ?new]) (auto simp: index_event_cases)
  qed
qed

lemma index_loop_counts:
  "processedCount (index_loop date_ok clock n es st) + duplicateCount (index_loop date_ok clock n es st) =
   processedCount st + duplicateCount st + length (valid_events date_ok es)"
  by (induction es arbitrary: n st) (auto simp: index_event_cases split: option.splits)

lemma index_loop_errors:
  "batch_errors (index_loop date_ok clock n es st) =
   batch_errors st @ List.map_filter (reject_message date_ok) es"
proof (induction es arbitrary: n st)
  case (Cons v es)
  have "event_of date_ok v = None \<longleftrightarrow> reject_message date_ok v \<noteq> None"
    using reject_message_None [of date_ok v] by auto
  then show ?case
    using Cons by (auto simp: index_event_cases map_filter_simps split: option.splits)
qed (simp add: map_filter_simps)

lemma index_loop_max:
  "maxSequence (index_loop date_ok clock n es st) =
   fold max (map (\<lambda>e. int (sequence e)) (valid_events date_ok es)) (maxSequence st)"
  by (induction es arbitrary: n st) (auto simp: index_event_cases max.commute split: option.splits)

lemma fold_max_Max: "fold max xs (a :: int) = Max (insert a (set xs))"
  by (simp add: Max.set_eq_fold [symmetric] del: Max_insert)

lemma valid_events_length:
  "length (valid_events date_ok es) + length (List.map_filter (reject_message date_ok) es) = length es"
proof (induction es)
  case (Cons v es)
  have "reject_message date_ok v = None \<longleftrightarrow> event_of date_ok v \<noteq> None" by (rule reject_message_None)
  with Cons show ?case by (auto simp: map_filter_simps split: option.splits)
qed (simp add: map_filter_simps)

subsection \<open>Sorting\<close>

lemma mset_map_filter: "mset (List.map_filter f xs) = image_mset the (filter_mset (\<lambda>x. x \<noteq> None) (image_mset f (mset xs)))"
  by (induction xs) (auto simp: map_filter_simps split: option.splits)

lemma mset_sortEvents [simp]: "mset (sortEventsBySequence es) = mset es"
  by (simp add: sortEventsBySequence_def)

lemma length_sortEvents [simp]: "length (sortEventsBySequence es) = length es"
  by (simp add: sortEventsBySequence_def)

lemma map_filter_sortEvents: "mset (List.map_filter f (sortEventsBySequence es)) = mset (List.map_filter f es)"
  by (simp add: mset_map_filter)

lemma valid_keys_sortEvents [simp]: "valid_keys date_ok (sortEventsBySequence es) = valid_keys date_ok es"
  unfolding valid_keys_def valid_events_def using map_filter_sortEvents by (metis set_mset_mset)

lemma set_valid_sortEvents [simp]:
  "set (valid_events date_ok (sortEventsBySequence es)) = set (valid_events date_ok es)"
  "length (valid_events date_ok (sortEventsBySequence es)) = length (valid_events date_ok es)"
  unfolding valid_events_def using map_filter_sortEvents by (metis set_mset_mset, metis size_mset)

lemma sorted_valid_events:
  "sorted (map extractSequence es) \<Longrightarrow> sorted (map sequence (valid_events date_ok es))"
proof (induction es)
  case (Cons v es)
  have "enat (sequence e) \<in> extractSequence ` set es" if "e \<in> set (valid_events date_ok es)" for e
    using that extractSequence_valid [of date_ok _ e]
    by (force simp: valid_events_def List.map_filter_def)
  with Cons show ?case
    by (auto simp: extractSequence_valid split: option.splits) (metis enat_ord_simps(1) imageE)
qed simp

lemma sorted_subseq: "subseq xs ys \<Longrightarrow> sorted ys \<Longrightarrow> sorted xs"
  by (auto simp: subseq_conv_nths sorted_nths)

subsection \<open>Properties\<close>

definition batch_end :: "(string \<Rightarrow> bool) \<Rightarrow> (nat \<Rightarrow> string) \<Rightarrow> json list \<Rightarrow> event_repository \<Rightarrow> batch_state" where
  "batch_end date_ok clock events repo =
     index_loop date_ok clock 0 (sortEventsBySequence events)
       \<lparr>stored = repo, processedCount = 0, duplicateCount = 0, batch_errors = [], maxSequence = -1\<rparr>"

lemma batch_end_max:
  "maxSequence (batch_end date_ok clock events repo) =
   (if valid_events date_ok events = [] then -1
    else Max ((\<lambda>e. int (sequence e)) ` set (valid_events date_ok events)))"
proof -
  let ?S = "(\<lambda>e. int (sequence e)) ` set (valid_events date_ok events)"
  have "maxSequence (batch_end date_ok clock events repo) = Max (insert (-1) ?S)"
    by (simp add: batch_end_def index_loop_max fold_max_Max del: Max_insert)
  moreover have "max (-1) (Max ?S) = Max ?S" if "?S \<noteq> {}"
  proof -
    have "Max ?S \<in> ?S" using that by (intro Max_in) auto
    then show ?thesis by auto
  qed
  ultimately show ?thesis by (cases "valid_events date_ok events = []") auto
qed

lemma indexBatch_fields:
  assumes "indexBatch date_ok clock source events ix = (r, ix')"
  defines "st \<equiv> batch_end date_ok clock events (ix_events ix)"
  shows "ix_events ix' = stored st" "res_processed r = processedCount st"
    "res_duplicates r = duplicateCount st" "res_errors r = batch_errors st"
    and "getCursor (ix_cursors ix') s =
      (if 0 \<le> maxSequence st \<and> s = source
       then Some \<lparr>sourceId = source, lastSequence = maxSequence st, updatedAt = clock (length events),
                  metadata = None\<rparr>
       else getCursor (ix_cursors ix) s)"
  using assms(1) unfolding indexBatch_def batch_end_def [symmetric] st_def
  by (auto simp: Let_def updateCursor_def getCursor_def split: if_splits)

lemma indexBatch_counts:
  assumes "indexBatch date_ok clock source events ix = (r, ix')"
  shows "res_processed r + res_duplicates r = length (valid_events date_ok events)"
    "length (valid_events date_ok events) + length (res_errors r) = length events"
  using valid_events_length [of date_ok "sortEventsBySequence events"]
  by (simp_all add: indexBatch_fields [OF assms] batch_end_def index_loop_counts index_loop_errors)

lemma indexBatch_stored:
  assumes "indexBatch date_ok clock source events ix = (r, ix')"
  shows "\<exists>new. ix_events ix' = ix_events ix @ new \<and> res_processed r = length new \<and> distinct (map fst new)
    \<and> set (map fst new) = valid_keys date_ok events - set (map_keys (ix_events ix))
    \<and> sorted (map (\<lambda>ke. sequence (snd ke)) new) \<and> well_keyed new"
proof -
  let ?es = "sortEventsBySequence events"
  obtain new where new: "ix_events ix' = ix_events ix @ new" "res_processed r = length new"
      "distinct (map fst new)" "set (map fst new) = valid_keys date_ok events - set (map_keys (ix_events ix))"
      "subseq (map (\<lambda>ke. contract_event.truncate (snd ke)) new) (valid_events date_ok ?es)"
      "well_keyed new"
    using index_loop_stored [of date_ok clock 0 ?es] unfolding indexBatch_fields [OF assms] batch_end_def
    by (metis (lifting) batch_state.select_convs(1,2) add_0 valid_keys_sortEvents)
  have "sorted (map sequence (valid_events date_ok ?es))"
    by (rule sorted_valid_events) (simp add: sortEventsBySequence_def)
  with subseq_map [OF new(5), of sequence] have "sorted (map (\<lambda>ke. sequence (snd ke)) new)"
    by (auto simp: comp_def contract_event.defs dest: sorted_subseq)
  with new show ?thesis by blast
qed

text \<open>
  What a batch should store, in terms of the delivered values alone: a value is
  valid when its fields are as required, it stands for the event with these fields,
  and of the valid events in the order of their sequence numbers those are new
  whose key is neither stored nor seen earlier in the batch.
\<close>

definition value_valid :: "(string \<Rightarrow> bool) \<Rightarrow> json \<Rightarrow> bool" where
  "value_valid date_ok v \<longleftrightarrow>
     (\<exists>kvs c i n t ty p. v = JObj kvs \<and>
        get_field v ''contractId'' = JStr c \<and> js_trim c \<noteq> [] \<and> get_field v ''eventId'' = JStr i \<and> js_trim i \<noteq> [] \<and>
        get_field v ''sequence'' = JNum n \<and> 0 \<le> n \<and> get_field v ''timestamp'' = JStr t \<and> date_ok t \<and>
        get_field v ''payload'' = JObj p \<and> get_field v ''type'' = JStr ty \<and>
        ty \<in> {''CONTRACT_CREATED'', ''CONTRACT_FUNDED'', ''MILESTONE_RELEASED'', ''CONTRACT_COMPLETED'', ''CONTRACT_CANCELLED''})"

definition event_fields :: "json \<Rightarrow> contract_event" where
  "event_fields v =
     \<lparr>contractId = js_trim (str_of (get_field v ''contractId'')), eventId = js_trim (str_of (get_field v ''eventId'')),
      sequence = nat_of (get_field v ''sequence''), timestamp = str_of (get_field v ''timestamp''),
      event_type = str_of (get_field v ''type''), payload = get_field v ''payload''\<rparr>"

fun fresh_events :: "string set \<Rightarrow> contract_event list \<Rightarrow> contract_event list" where
  "fresh_events seen [] = []"
| "fresh_events seen (e # es) =
     (let key = contractId e @ '':'' @ eventId e @ '':'' @ show_nat (sequence e)
      in if key \<in> seen then fresh_events seen es else e # fresh_events (insert key seen) es)"

definition stored_at :: "string \<Rightarrow> contract_event \<Rightarrow> string \<times> persisted_event" where
  "stored_at now e =
     (let key = contractId e @ '':'' @ eventId e @ '':'' @ show_nat (sequence e)
      in (key, \<lparr>contractId = contractId e, eventId = eventId e, sequence = sequence e, timestamp = timestamp e,
                event_type = event_type e, payload = payload e, eventKey = key, receivedAt = now\<rparr>))"

lemma stored_at_persist: "stored_at now e = (buildEventKey e, persist now e)"
  by (simp add: stored_at_def persist_def buildEventKey_def contract_event.defs Let_def)

lemma fresh_events_Cons:
  "fresh_events seen (e # es) =
     (if buildEventKey e \<in> seen then fresh_events seen es else e # fresh_events (insert (buildEventKey e) seen) es)"
  by (simp add: buildEventKey_def Let_def)

lemma event_of_spec: "event_of date_ok v = (if value_valid date_ok v then Some (event_fields v) else None)"
proof (cases "validateEventEnvelopePreamble date_ok v CONTRACT_PREAMBLE_OPTIONS = []")
  case True
  then have pre: "(\<exists>kvs. v = JObj kvs) \<and> (\<exists>s. get_field v ''contractId'' = JStr s \<and> js_trim s \<noteq> []) \<and>
      (\<exists>s. get_field v ''eventId'' = JStr s \<and> js_trim s \<noteq> []) \<and> (\<exists>n\<ge>0. get_field v ''sequence'' = JNum n) \<and>
      (\<exists>s. get_field v ''timestamp'' = JStr s \<and> date_ok s) \<and> (\<exists>p. get_field v ''payload'' = JObj p)"
    unfolding preamble_accepts_iff by (simp add: CONTRACT_PREAMBLE_OPTIONS_def timestamp_valid_def isRecord_iff)
  then have "value_valid date_ok v \<longleftrightarrow> (\<exists>ty. get_field v ''type'' = JStr ty \<and> ty \<in> set EVENT_TYPES)"
    unfolding value_valid_def EVENT_TYPES_def by auto
  with True show ?thesis
    by (auto simp: event_of_def validateContractEventPayload_def event_fields_def split: json.splits)
next
  case False
  then have "\<not> value_valid date_ok v"
    unfolding preamble_accepts_iff value_valid_def
    by (auto simp: CONTRACT_PREAMBLE_OPTIONS_def timestamp_valid_def isRecord_iff)
  with False show ?thesis by (simp add: event_of_def validateContractEventPayload_def split: list.split)
qed

lemma valid_events_spec: "valid_events date_ok vs = map event_fields (filter (value_valid date_ok) vs)"
  by (induction vs) (simp_all add: event_of_spec)

lemma insort_map:
  assumes "\<forall>y\<in>insert x (set ys). f y = enat (g (h y))"
  shows "map h (insort_key f x ys) = insort_key g (h x) (map h ys)"
  using assms by (induction ys) auto

lemma sort_map:
  "\<forall>x\<in>set xs. f x = enat (g (h x)) \<Longrightarrow> map h (sort_key f xs) = sort_key g (map h xs)"
proof (induction xs)
  case (Cons x xs)
  then show ?case using insort_map [of x "sort_key f xs" f g h] by simp
qed simp

lemma valid_events_sorted:
  "valid_events date_ok (sortEventsBySequence es) = sort_key sequence (valid_events date_ok es)"
proof -
  have "extractSequence v = enat (sequence (event_fields v))" if "value_valid date_ok v" for v
    using that extractSequence_valid [of date_ok v "event_fields v"] by (simp add: event_of_spec)
  then have "map event_fields (sort_key extractSequence (filter (value_valid date_ok) es)) =
      sort_key sequence (map event_fields (filter (value_valid date_ok) es))"
    by (intro sort_map) simp
  then show ?thesis by (simp add: valid_events_spec sortEventsBySequence_def filter_sort)
qed

lemma index_loop_fresh:
  "\<exists>times. length times = length (fresh_events (set (map_keys (stored st))) (valid_events date_ok es)) \<and>
     set times \<subseteq> range clock \<and>
     stored (index_loop date_ok clock n es st) =
       stored st @ map2 stored_at times (fresh_events (set (map_keys (stored st))) (valid_events date_ok es))"
proof (induction es arbitrary: n st)
  case Nil
  show ?case by (rule exI [of _ "[]"]) simp
next
  case (Cons v es)
  let ?st = "index_event date_ok (clock n) v st"
  obtain times where times: "length times = length (fresh_events (set (map_keys (stored ?st))) (valid_events date_ok es))"
      "set times \<subseteq> range clock"
      "stored (index_loop date_ok clock (Suc n) es ?st) =
         stored ?st @ map2 stored_at times (fresh_events (set (map_keys (stored ?st))) (valid_events date_ok es))"
    using Cons.IH by blast
  show ?case
  proof (cases "\<exists>e. event_of date_ok v = Some e \<and> buildEventKey e \<notin> set (map_keys (stored st))")
    case False
    with times show ?thesis
      by (intro exI [of _ times]) (auto simp: index_event_cases fresh_events_Cons simp del: fresh_events.simps(2) split: option.splits)
  next
    case True
    then obtain e where e: "event_of date_ok v = Some e" "buildEventKey e \<notin> set (map_keys (stored st))" by blast
    with times show ?thesis
      by (intro exI [of _ "clock n # times"])
        (auto simp: index_event_cases fresh_events_Cons stored_at_persist map_keys_def simp del: fresh_events.simps(2))
  qed
qed

lemma indexBatch_exact_store:
  assumes "indexBatch date_ok clock source events ix = (r, ix')"
  defines "new \<equiv> fresh_events (set (map_keys (ix_events ix)))
      (sort_key sequence (map event_fields (filter (value_valid date_ok) events)))"
  shows "\<exists>times. length times = length new \<and> set times \<subseteq> range clock \<and>
      ix_events ix' = ix_events ix @ map2 stored_at times new"
    and "res_processed r = length new"
proof -
  obtain times where times: "length times = length new" "set times \<subseteq> range clock"
      "ix_events ix' = ix_events ix @ map2 stored_at times new"
    using index_loop_fresh [of "\<lparr>stored = ix_events ix, processedCount = 0, duplicateCount = 0, batch_errors = [],
        maxSequence = -1\<rparr>" date_ok "sortEventsBySequence events" clock 0, unfolded valid_events_sorted,
        unfolded valid_events_spec]
    unfolding new_def indexBatch_fields [OF assms(1)] batch_end_def by auto
  then show "\<exists>times. length times = length new \<and> set times \<subseteq> range clock \<and>
      ix_events ix' = ix_events ix @ map2 stored_at times new" by blast
  obtain new' where "ix_events ix' = ix_events ix @ new'" "res_processed r = length new'"
    using indexBatch_stored [OF assms(1)] by blast
  with times show "res_processed r = length new" by simp
qed

text \<open>
  C32: indexing a batch appends to the store exactly the valid events whose key
  (contract, event id and sequence number joined by colons) is new, one per key, in
  the order of their sequence numbers and of delivery among equals, each with all the
  fields of the delivered value, its key and a time read from the clock; it counts
  every value of the batch once, as processed, duplicate or error; and it sets the
  cursor of the source to the largest sequence number of the valid events, if there
  are any, and leaves all other cursors as they were.
\<close>

theorem index_batch_exact:
  assumes "indexBatch date_ok clock source events ix = (r, ix')"
  shows "let accepted = map event_fields (filter (value_valid date_ok) events);
      new = fresh_events (set (map_keys (ix_events ix))) (sort_key sequence accepted)
    in (\<exists>times. length times = length new \<and> set times \<subseteq> range clock \<and>
          ix_events ix' = ix_events ix @ map2 stored_at times new) \<and>
       res_processed r = length new \<and> res_processed r + res_duplicates r = length accepted \<and>
       length accepted + length (res_errors r) = length events \<and>
       map_option lastSequence (getCursor (ix_cursors ix') source) =
         (if accepted = [] then map_option lastSequence (getCursor (ix_cursors ix) source)
          else Some (Max ((\<lambda>e. int (sequence e)) ` set accepted))) \<and>
       (\<forall>s. s \<noteq> source \<longrightarrow> getCursor (ix_cursors ix') s = getCursor (ix_cursors ix) s)"
  unfolding Let_def
proof (intro conjI)
  let ?es = "map event_fields (filter (value_valid date_ok) events)"
  note spec = valid_events_spec [of date_ok events, symmetric]
  have "0 \<le> Max ((\<lambda>e. int (sequence e)) ` set ?es)" if ne: "?es \<noteq> []"
  proof -
    obtain e where "e \<in> set ?es" using ne by (meson last_in_set)
    then have "int (sequence e) \<le> Max ((\<lambda>e. int (sequence e)) ` set ?es)" by (intro Max_ge) auto
    then show ?thesis by linarith
  qed
  then show "map_option lastSequence (getCursor (ix_cursors ix') source) =
      (if ?es = [] then map_option lastSequence (getCursor (ix_cursors ix) source)
       else Some (Max ((\<lambda>e. int (sequence e)) ` set ?es)))"
    unfolding spec by (simp add: indexBatch_fields [OF assms] batch_end_max)
  show "\<forall>s. s \<noteq> source \<longrightarrow> getCursor (ix_cursors ix') s = getCursor (ix_cursors ix) s"
    by (simp add: indexBatch_fields [OF assms])
  show "res_processed r + res_duplicates r = length ?es" "length ?es + length (res_errors r) = length events"
    unfolding spec by (fact indexBatch_counts [OF assms])+
qed (fact indexBatch_exact_store [OF assms])+

definition sample_event :: "string \<Rightarrow> int \<Rightarrow> json" where
  "sample_event name n =
     JObj [(''contractId'', JStr ''c1''), (''eventId'', JStr name), (''sequence'', JNum n),
           (''timestamp'', JStr ''2024-01-01T00:00:00Z''), (''type'', JStr ''CONTRACT_FUNDED''),
           (''payload'', JObj [])]"

definition sample_batch :: "json list" where
  "sample_batch = [sample_event ''b'' 7, JNull, sample_event ''a'' 3, sample_event ''b'' 7]"

definition sample_index :: "json list \<Rightarrow> indexer \<Rightarrow> indexer_batch_result \<times> indexer" where
  "sample_index events = indexBatch (\<lambda>s. s \<noteq> []) (\<lambda>n. ''now'') ''src'' events"

definition empty_indexer :: indexer where
  "empty_indexer = \<lparr>ix_events = map_empty, ix_cursors = map_empty\<rparr>"

lemma sample_batch_run:
  "map_keys (ix_events (snd (sample_index sample_batch empty_indexer))) = [''c1:a:3'', ''c1:b:7'']"
  "res_processed (fst (sample_index sample_batch empty_indexer)) = 2"
  "res_duplicates (fst (sample_index sample_batch empty_indexer)) = 1"
  "length (valid_events (\<lambda>s. s \<noteq> []) sample_batch) = 3"
  by code_simp+

theorem index_batch_exact_witness:
  "ix_events (snd (sample_index sample_batch empty_indexer)) =
     [stored_at ''now'' (event_fields (sample_event ''a'' 3)), stored_at ''now'' (event_fields (sample_event ''b'' 7))]
   \<and> res_processed (fst (sample_index sample_batch empty_indexer)) = 2
   \<and> length (res_errors (fst (sample_index sample_batch empty_indexer))) = 1"
proof -
  let ?a = "event_fields (sample_event ''a'' 3)" and ?b = "event_fields (sample_event ''b'' 7)"
  have "map event_fields (filter (value_valid (\<lambda>s. s \<noteq> [])) sample_batch) = [?b, ?a, ?b]"
    unfolding valid_events_spec [symmetric] by code_simp
  moreover have "fresh_events {} (sort_key sequence [?b, ?a, ?b]) = [?a, ?b]" by code_simp
  moreover have "length sample_batch = 4" "set (map_keys (ix_events empty_indexer)) = {}" "ix_events empty_indexer = []"
    by (simp_all add: sample_batch_def empty_indexer_def map_empty_def map_keys_def)
  moreover have "map2 stored_at times [?a, ?b] = [stored_at ''now'' ?a, stored_at ''now'' ?b]"
    if "length times = Suc (Suc 0)" "set times \<subseteq> {''now''}" for times
    using that by (auto simp: length_Suc_conv)
  ultimately show ?thesis
    using index_batch_exact [of "\<lambda>s. s \<noteq> []" "\<lambda>n. ''now''" "''src''" sample_batch empty_indexer
        "fst (sample_index sample_batch empty_indexer)" "snd (sample_index sample_batch empty_indexer)"]
    by (auto simp: sample_index_def Let_def)
qed

text \<open>Later batches never remove an event.\<close>

definition index_batches ::
  "(string \<Rightarrow> bool) \<Rightarrow> ((nat \<Rightarrow> string) \<times> string \<times> json list) list \<Rightarrow> indexer \<Rightarrow> indexer" where
  "index_batches date_ok batches =
     fold (\<lambda>(clock, source, events) ix. snd (indexBatch date_ok clock source events ix)) batches"

lemma indexBatch_keys:
  "set (map_keys (ix_events (snd (indexBatch date_ok clock source events ix)))) =
   set (map_keys (ix_events ix)) \<union> valid_keys date_ok events"
proof -
  obtain new where "ix_events (snd (indexBatch date_ok clock source events ix)) = ix_events ix @ new"
      "set (map fst new) = valid_keys date_ok events - set (map_keys (ix_events ix))"
    using indexBatch_stored [OF prod.collapse [symmetric]] by blast
  then show ?thesis by (simp add: map_keys_def image_Un)
qed

lemma index_batches_keys:
  "set (map_keys (ix_events ix)) \<subseteq> set (map_keys (ix_events (index_batches date_ok batches ix)))"
proof (induction batches arbitrary: ix)
  case (Cons b batches)
  obtain clock source events where b: "b = (clock, source, events)" by (cases b)
  let ?ix = "snd (indexBatch date_ok clock source events ix)"
  have "set (map_keys (ix_events ix)) \<subseteq> set (map_keys (ix_events ?ix))" by (simp add: indexBatch_keys)
  also have "\<dots> \<subseteq> set (map_keys (ix_events (index_batches date_ok batches ?ix)))" by (rule Cons.IH)
  finally show ?case by (simp add: b index_batches_def)
qed (simp add: index_batches_def)

lemma valid_keys_mono: "set es \<subseteq> set fs \<Longrightarrow> valid_keys date_ok es \<subseteq> valid_keys date_ok fs"
  by (auto simp: valid_keys_def valid_events_def List.map_filter_def)

lemma indexBatch_absorbed:
  assumes "indexBatch date_ok clock source events ix = (r, ix')"
    "valid_keys date_ok events \<subseteq> set (map_keys (ix_events ix))"
  shows "res_processed r = 0" "ix_events ix' = ix_events ix"
proof -
  obtain new where new: "ix_events ix' = ix_events ix @ new" "res_processed r = length new"
      "set (map fst new) = valid_keys date_ok events - set (map_keys (ix_events ix))"
    using indexBatch_stored [OF assms(1)] by blast
  have "set (map fst new) = {}" unfolding new(3) using assms(2) by (simp only: Diff_eq_empty_iff)
  then have "new = []" by simp
  with new show "res_processed r = 0" "ix_events ix' = ix_events ix" by simp_all
qed

text \<open>
  C33: events are stored at most once however often they are delivered.  After a batch
  has been indexed, and any other batches after it, indexing any values of that batch
  again, in any order and for any source, processes none of them, stores nothing and
  reports every valid one as a duplicate.
\<close>

theorem replay_absorbed:
  assumes first: "indexBatch date_ok clock source events ix = (r, ix1)"
    and again: "set replayed \<subseteq> set events"
      "indexBatch date_ok clock' source' replayed (index_batches date_ok batches ix1) = (r', ix2)"
  shows "res_processed r' = 0 \<and> ix_events ix2 = ix_events (index_batches date_ok batches ix1)
    \<and> res_duplicates r' = length (valid_events date_ok replayed)
    \<and> res_duplicates r' + length (res_errors r') = length replayed"
proof -
  have "valid_keys date_ok replayed \<subseteq> valid_keys date_ok events" using again(1) by (rule valid_keys_mono)
  also have "\<dots> \<subseteq> set (map_keys (ix_events ix1))"
    using indexBatch_keys [of date_ok clock source events ix] first by simp
  also have "\<dots> \<subseteq> set (map_keys (ix_events (index_batches date_ok batches ix1)))"
    by (rule index_batches_keys)
  finally have "valid_keys date_ok replayed \<subseteq> set (map_keys (ix_events (index_batches date_ok batches ix1)))" .
  note absorbed = indexBatch_absorbed [OF again(2) this]
  show ?thesis
    using absorbed indexBatch_counts [OF again(2)] by simp
qed

theorem replay_absorbed_witness:
  "res_processed (fst (sample_index [sample_event ''a'' 3, sample_event ''b'' 7]
     (snd (sample_index sample_batch empty_indexer)))) = 0"
  using replay_absorbed [of "\<lambda>s. s \<noteq> []" "\<lambda>n. ''now''" "''src''" sample_batch empty_indexer
      "fst (sample_index sample_batch empty_indexer)" "snd (sample_index sample_batch empty_indexer)"
      "[sample_event ''a'' 3, sample_event ''b'' 7]" "\<lambda>n. ''now''" "''src''" "[]"
      "fst (sample_index [sample_event ''a'' 3, sample_event ''b'' 7]
         (snd (sample_index sample_batch empty_indexer)))"
      "snd (sample_index [sample_event ''a'' 3, sample_event ''b'' 7]
         (snd (sample_index sample_batch empty_indexer)))"]
  by (simp add: sample_index_def sample_batch_def index_batches_def)

subsection \<open>Keys, cursors and concurrency\<close>

text \<open>Without colons in the ids, the key of an event determines its ids and its sequence.\<close>

lemma buildEventKey_colon_key: "buildEventKey e = colon_key (contractId e) (eventId e) (show_nat (sequence e))"
  by (simp add: buildEventKey_def colon_key_def)

lemma buildEventKey_inj:
  assumes "buildEventKey e = buildEventKey f"
    "CHR '':'' \<notin> set (contractId e) \<union> set (eventId e)" "CHR '':'' \<notin> set (contractId f) \<union> set (eventId f)"
  shows "contractId e = contractId f \<and> eventId e = eventId f \<and> sequence e = sequence f"
  using colon_key_inj [OF assms(1) [unfolded buildEventKey_colon_key] assms(2,3)] show_nat_inj by blast

text \<open>
  Nothing forbids colons, and then two different events share a key: the second is
  dropped as a duplicate of the first.
\<close>

definition clash_event :: "string \<Rightarrow> string \<Rightarrow> json" where
  "clash_event c e =
     JObj [(''contractId'', JStr c), (''eventId'', JStr e), (''sequence'', JNum 1),
           (''timestamp'', JStr ''2024-01-01T00:00:00Z''), (''type'', JStr ''CONTRACT_FUNDED''),
           (''payload'', JObj [])]"

lemma distinct_events_dropped:
  "fst (ingest (\<lambda>s. True) ''t'' (clash_event ''a'' ''b:c'')
     (snd (ingest (\<lambda>s. True) ''t'' (clash_event ''a:b'' ''c'') map_empty))) = Duplicate ''a:b:c:1''"
  by code_simp

text \<open>
  A batch of older events, for instance a replay, moves the cursor of its source back,
  and indexing resumes from there.
\<close>

lemma cursor_moves_back:
  "let ix = snd (sample_index [sample_event ''a'' 3] (snd (sample_index [sample_event ''b'' 7] empty_indexer)))
   in resumeFromSequence (resumeFromCursor ''src'' None (ix_cursors ix)) = 4"
  by code_simp

text \<open>
  Two deliveries of one event that both look the key up before either saves are both
  answered as accepted, although one event is stored.
\<close>

lemma concurrent_ingest_both_accepted:
  assumes "event_of date_ok v = Some e" "buildEventKey e \<notin> set (map_keys repo)"
    "p1 = ingest_check date_ok now v repo" "p2 = ingest_check date_ok now' v repo"
  shows "fst (ingest_save p1 repo) = Accepted (buildEventKey e)"
    "fst (ingest_save p2 (snd (ingest_save p1 repo))) = Accepted (buildEventKey e)"
    "map_keys (snd (ingest_save p2 (snd (ingest_save p1 repo)))) = map_keys repo @ [buildEventKey e]"
proof -
  have "p1 = Save (persist now e)" "p2 = Save (persist now' e)" and free: "map_get repo (buildEventKey e) = None"
    using assms by (auto simp: ingest_check_def event_of_Some hasEventKey_def map_has_def
        set_map_keys persist_def)
  then show "fst (ingest_save p1 repo) = Accepted (buildEventKey e)"
    "fst (ingest_save p2 (snd (ingest_save p1 repo))) = Accepted (buildEventKey e)"
    "map_keys (snd (ingest_save p2 (snd (ingest_save p1 repo)))) = map_keys repo @ [buildEventKey e]"
    by (simp_all add: ingest_save_def saveEvent_def map_keys_set)
qed

end
