(* ===== verification/Canonical.thy ===== *)
theory Canonical
  imports EventEnvelope "HOL-Library.Multiset"
begin

text \<open>
  Deduplication keys, canonical text and payload hashes (\<open>utils/deduplication.ts\<close>, and
  the same functions in \<open>events/idempotency.ts\<close>), and the redaction of log data
  (\<open>events/redact.ts\<close>).  The lemmas show that two payloads have the same canonical text
  exactly when they are the same up to the order of object keys, and that a key can be
  parsed back when the ids have no colon.

  \<open>localeCompare\<close> orders strings by the collation keys of the locale, the argument
  \<open>collate\<close>; strings with equal collation keys compare as equal and a stable sort leaves
  them in place.  SHA-256 in hexadecimal is the argument \<open>sha256\<close>.  A payload is a
  \<open>JsonValue\<close>, which has no \<open>undefined\<close>.  Numbers are whole and printed in decimal, as
  JavaScript prints them below \<open>10^21\<close>; beyond that it prints an exponent, which the
  model does not have.
\<close>

subsection \<open>Canonical text\<close>

function canonicalize :: "(string \<Rightarrow> 'k :: linorder) \<Rightarrow> json \<Rightarrow> string" where
  "canonicalize collate JUndef = ''undefined''"
| "canonicalize collate JNull = stringify JNull"
| "canonicalize collate (JBool b) = stringify (JBool b)"
| "canonicalize collate (JNum n) = stringify (JNum n)"
| "canonicalize collate (JStr s) = stringify (JStr s)"
| "canonicalize collate (JArr xs) = ''['' @ join '','' (map (canonicalize collate) xs) @ '']''"
| "canonicalize collate (JObj kvs) =
     ''{'' @ join '','' (map (\<lambda>kv. stringify (JStr (fst kv)) @ '':'' @ canonicalize collate (snd kv))
                           (sort_key (\<lambda>kv. collate (fst kv)) kvs)) @ ''}''"
  by pat_completeness auto
termination
  by (relation "measure (\<lambda>(c, v). size v)") (auto simp: size_snd_less less_Suc_eq_le size_list_estimation')

definition computePayloadHash :: "(string \<Rightarrow> 'k :: linorder) \<Rightarrow> (string \<Rightarrow> string) \<Rightarrow> json \<Rightarrow> string" where
  "computePayloadHash collate sha256 payload = sha256 (canonicalize collate payload)"

definition hashEventPayload :: "(string \<Rightarrow> 'k :: linorder) \<Rightarrow> (string \<Rightarrow> string) \<Rightarrow> json \<Rightarrow> string" where
  "hashEventPayload collate sha256 payload = sha256 (canonicalize collate payload)"

text \<open>\<open>Buffer.from(s, 'hex')\<close> decodes pairs of digits up to the first that is none.\<close>

definition hex_nibble :: "char \<Rightarrow> nat option" where
  "hex_nibble c = radix_digit 16 c"

fun hex_bytes :: "string \<Rightarrow> nat list" where
  "hex_bytes (a # b # r) =
     (case hex_nibble a of
        None \<Rightarrow> []
      | Some x \<Rightarrow> (case hex_nibble b of None \<Rightarrow> [] | Some y \<Rightarrow> (16 * x + y) # hex_bytes r))"
| "hex_bytes _ = []"

text \<open>
  \<open>timingSafeEqual\<close> needs buffers of equal length; the comparison of a buffer with
  itself on the other branch takes time and has no effect.
\<close>

definition comparePayloadHashes :: "string \<Rightarrow> string \<Rightarrow> bool" where
  "comparePayloadHashes actualHash expectedHash =
     (let actualBuffer = hex_bytes actualHash; expectedBuffer = hex_bytes expectedHash
      in if length actualBuffer \<noteq> length expectedBuffer then False
         else actualBuffer = expectedBuffer)"

definition constantTimeEqual :: "string \<Rightarrow> string \<Rightarrow> bool" where
  "constantTimeEqual left right =
     (let leftBuffer = hex_bytes left; rightBuffer = hex_bytes right
      in if length leftBuffer \<noteq> length rightBuffer then False else leftBuffer = rightBuffer)"

definition validatePayloadIntegrity ::
  "(string \<Rightarrow> 'k :: linorder) \<Rightarrow> (string \<Rightarrow> string) \<Rightarrow> json \<Rightarrow> string \<Rightarrow> bool" where
  "validatePayloadIntegrity collate sha256 payload expectedHash =
     comparePayloadHashes (computePayloadHash collate sha256 payload) expectedHash"

subsection \<open>Keys\<close>

definition computeDeduplicationKey :: "string \<Rightarrow> string \<Rightarrow> int \<Rightarrow> string" where
  "computeDeduplicationKey contractId eventId sequence = join '':'' [contractId, eventId, show_int sequence]"

text \<open>\<open>s.split(c)\<close> for a single character.\<close>

fun js_split :: "char \<Rightarrow> string \<Rightarrow> string list" where
  "js_split c [] = [[]]"
| "js_split c (d # s) =
     (if d = c then [] # js_split c s
      else case js_split c s of p # ps \<Rightarrow> (d # p) # ps | [] \<Rightarrow> [[d]])"

record parsed_key =
  pk_contractId :: "string option"
  pk_eventId :: "string option"
  pk_sequence :: "int option"

definition part :: "nat \<Rightarrow> 'a list \<Rightarrow> 'a option" where
  "part i xs = (if i < length xs then Some (xs ! i) else None)"

definition parseDeduplicationKey :: "string \<Rightarrow> parsed_key" where
  "parseDeduplicationKey key =
     (let parts = js_split (CHR '':'') key
      in \<lparr>pk_contractId = part 0 parts, pk_eventId = part 1 parts,
          pk_sequence = Option.bind (part 2 parts) js_parseInt\<rparr>)"

definition areEventsDuplicates :: "string \<times> string \<times> int \<Rightarrow> string \<times> string \<times> int \<Rightarrow> bool" where
  "areEventsDuplicates e1 e2 =
     ((case e1 of (c, i, n) \<Rightarrow> computeDeduplicationKey c i n) =
      (case e2 of (c, i, n) \<Rightarrow> computeDeduplicationKey c i n))"

subsection \<open>Payloads up to the order of keys\<close>

text \<open>Objects are the same when they have the same keys and the same values under them.\<close>

inductive same_json :: "json \<Rightarrow> json \<Rightarrow> bool" where
  same_null: "same_json JNull JNull"
| same_bool: "same_json (JBool b) (JBool b)"
| same_num: "same_json (JNum n) (JNum n)"
| same_str: "same_json (JStr s) (JStr s)"
| same_arr: "list_all2 same_json xs ys \<Longrightarrow> same_json (JArr xs) (JArr ys)"
| same_obj: "dom (map_of a) = dom (map_of b) \<Longrightarrow>
    (\<And>k v w. map_of a k = Some v \<Longrightarrow> map_of b k = Some w \<Longrightarrow> same_json v w) \<Longrightarrow>
    same_json (JObj a) (JObj b)"

inductive_cases same_json_elims [elim!]:
  "same_json JUndef w" "same_json JNull w" "same_json (JBool b) w" "same_json (JNum n) w"
  "same_json (JStr s) w" "same_json (JArr xs) w" "same_json (JObj a) w"

text \<open>Objects of the language have distinct keys.\<close>

function json_wf :: "json \<Rightarrow> bool" where
  "json_wf JUndef = False"
| "json_wf JNull = True"
| "json_wf (JBool b) = True"
| "json_wf (JNum n) = True"
| "json_wf (JStr s) = True"
| "json_wf (JArr xs) = list_all json_wf xs"
| "json_wf (JObj kvs) = (distinct (map fst kvs) \<and> list_all (\<lambda>kv. json_wf (snd kv)) kvs)"
  by pat_completeness auto
termination
  by (relation "measure size") (auto simp: size_snd_less less_Suc_eq_le size_list_estimation')

function json_keys :: "json \<Rightarrow> string set" where
  "json_keys (JArr xs) = \<Union> (json_keys ` set xs)"
| "json_keys (JObj kvs) = fst ` set kvs \<union> \<Union> ((\<lambda>kv. json_keys (snd kv)) ` set kvs)"
| "json_keys JUndef = {}"
| "json_keys JNull = {}"
| "json_keys (JBool b) = {}"
| "json_keys (JNum n) = {}"
| "json_keys (JStr s) = {}"
  by pat_completeness auto
termination
  by (relation "measure size") (auto simp: size_snd_less less_Suc_eq_le size_list_estimation')

text \<open>The normal form whose plain text is the canonical text.\<close>

function sort_keys :: "(string \<Rightarrow> 'k :: linorder) \<Rightarrow> json \<Rightarrow> json" where
  "sort_keys collate (JArr xs) = JArr (map (sort_keys collate) xs)"
| "sort_keys collate (JObj kvs) =
     JObj (sort_key (\<lambda>kv. collate (fst kv)) (map (\<lambda>kv. (fst kv, sort_keys collate (snd kv))) kvs))"
| "sort_keys collate JUndef = JUndef"
| "sort_keys collate JNull = JNull"
| "sort_keys collate (JBool b) = JBool b"
| "sort_keys collate (JNum n) = JNum n"
| "sort_keys collate (JStr s) = JStr s"
  by pat_completeness auto
termination
  by (relation "measure (\<lambda>(c, v). size v)") (auto simp: size_snd_less less_Suc_eq_le size_list_estimation')

lemma insort_key_map: "insort_key f (g x) (map g xs) = map g (insort_key (\<lambda>y. f (g y)) x xs)"
  by (induction xs) auto

lemma sort_key_map: "sort_key f (map g xs) = map g (sort_key (\<lambda>y. f (g y)) xs)"
  by (induction xs) (simp_all add: insort_key_map)

lemma sort_keys_undef [simp]: "sort_keys collate v = JUndef \<longleftrightarrow> v = JUndef"
  by (cases v) simp_all

lemma sort_keys_atom [simp]:
  "JNull = sort_keys collate v \<longleftrightarrow> v = JNull"
  "JBool b = sort_keys collate v \<longleftrightarrow> v = JBool b"
  "JNum n = sort_keys collate v \<longleftrightarrow> v = JNum n"
  "JStr s = sort_keys collate v \<longleftrightarrow> v = JStr s"
  by (cases v; auto)+

lemma json_wf_defined: "json_wf v \<Longrightarrow> json_defined (sort_keys collate v)"
  by (induction v rule: json_wf.induct) (auto simp: list_all_iff)

lemma canonicalize_stringify: "json_wf v \<Longrightarrow> canonicalize collate v = stringify (sort_keys collate v)"
proof (induction v rule: json_wf.induct)
  case (6 xs)
  then have "map (canonicalize collate) xs = map (\<lambda>x. stringify (sort_keys collate x)) xs"
    by (simp add: list_all_iff)
  then show ?case by (simp only: canonicalize.simps sort_keys.simps stringify.simps map_map comp_def)
next
  case (7 kvs)
  let ?s = "sort_key (\<lambda>kv. collate (fst kv))"
  have "filter (\<lambda>kv. snd kv \<noteq> JUndef) (?s (map (\<lambda>kv. (fst kv, sort_keys collate (snd kv))) kvs)) =
      ?s (map (\<lambda>kv. (fst kv, sort_keys collate (snd kv))) kvs)"
    using "7.prems" by (intro filter_True) (auto simp: list_all_iff)
  moreover have "canonicalize collate (snd kv) = stringify (sort_keys collate (snd kv))" if "kv \<in> set kvs" for kv
    using that 7 by (simp add: list_all_iff)
  then have "map (\<lambda>kv. json_quote (fst kv) @ '':'' @ canonicalize collate (snd kv)) (?s kvs) =
      map (\<lambda>kv. json_quote (fst kv) @ '':'' @ stringify (sort_keys collate (snd kv))) (?s kvs)"
    by simp
  ultimately show ?case
    by (simp only: canonicalize.simps sort_keys.simps stringify.simps sort_key_map map_map comp_def
        fst_conv snd_conv)
qed simp_all

lemma map_of_sorted_pairs:
  assumes "distinct (map fst kvs)"
  shows "map_of (sort_key f (map (\<lambda>kv. (fst kv, g (snd kv))) kvs)) k = map_option g (map_of kvs k)"
proof -
  let ?m = "map (\<lambda>kv. (fst kv, g (snd kv))) kvs"
  have fst: "map fst ?m = map fst kvs" by (simp add: comp_def)
  have "distinct (map fst (sort_key f ?m))"
    using assms by (simp add: sort_key_map comp_def distinct_map)
  then have "map_of (sort_key f ?m) = map_of ?m"
    using assms fst by (subst map_of_inject_set) (simp_all add: comp_def)
  moreover have "map_of ?m = map_option g \<circ> map_of kvs"
    using map_of_map [of g kvs] by (simp only: case_prod_unfold)
  ultimately show ?thesis by simp
qed

lemma sorted_pairs_eq_iff:
  assumes "distinct (map fst a)" "distinct (map fst b)" "inj_on f (fst ` set a \<union> fst ` set b)"
  shows "sort_key (\<lambda>kv. f (fst kv)) (map (\<lambda>kv. (fst kv, g (snd kv))) a) =
         sort_key (\<lambda>kv. f (fst kv)) (map (\<lambda>kv. (fst kv, g (snd kv))) b) \<longleftrightarrow>
         map_option g \<circ> map_of a = map_option g \<circ> map_of b" (is "?sa = ?sb \<longleftrightarrow> _")
proof
  assume "?sa = ?sb"
  then have "map_of ?sa = map_of ?sb" by simp
  then show "map_option g \<circ> map_of a = map_option g \<circ> map_of b"
    by (simp add: fun_eq_iff map_of_sorted_pairs assms(1,2))
next
  assume "map_option g \<circ> map_of a = map_option g \<circ> map_of b"
  then have maps: "map_of ?sa = map_of ?sb"
    by (simp add: fun_eq_iff map_of_sorted_pairs assms(1,2))
  have dist: "distinct (map fst ?sa)" "distinct (map fst ?sb)"
    using assms(1,2) by (auto simp: sort_key_map comp_def distinct_map intro: inj_onI dest: inj_onD)
  with maps have sets: "set ?sa = set ?sb" by (simp only: map_of_inject_set)
  have fst: "fst ` set ?sa = fst ` set a" "fst ` set ?sb = fst ` set b" by (simp_all add: image_image)
  have "inj_on f (fst ` (set ?sa \<union> set ?sb))" using assms(3) fst by (simp only: image_Un)
  moreover have "inj_on fst (set ?sa \<union> set ?sb)"
    unfolding sets using dist(2) by (simp add: distinct_map)
  ultimately have inj: "inj_on (\<lambda>kv. f (fst kv)) (set ?sa \<union> set ?sb)"
    using comp_inj_on [of fst _ f] by (simp add: comp_def)
  have "distinct (map (\<lambda>kv. f (fst kv)) ?sa)" "distinct (map (\<lambda>kv. f (fst kv)) ?sb)"
    using dist inj by (simp_all add: distinct_map inj_on_Un)
  with inj sets show "?sa = ?sb" by (intro map_sorted_distinct_set_unique [of "\<lambda>kv. f (fst kv)"]) simp_all
qed

lemma sort_keys_eq_iff:
  assumes "json_wf v" "json_wf w" "inj_on collate (json_keys v \<union> json_keys w)"
  shows "sort_keys collate v = sort_keys collate w \<longleftrightarrow> same_json v w"
  using assms
proof (induction v arbitrary: w rule: json_wf.induct)
  case (6 xs)
  show ?case
  proof (cases w)
    case (JArr ys)
    have "sort_keys collate x = sort_keys collate y \<longleftrightarrow> same_json x y" if "x \<in> set xs" "y \<in> set ys" for x y
    proof -
      have "json_keys x \<union> json_keys y \<subseteq> json_keys (JArr xs) \<union> json_keys w" using that JArr by auto
      with "6.prems"(3) have "inj_on collate (json_keys x \<union> json_keys y)" by (rule inj_on_subset)
      with 6 that JArr show ?thesis by (simp add: list_all_iff)
    qed
    then have "map (sort_keys collate) xs = map (sort_keys collate) ys \<longleftrightarrow> list_all2 same_json xs ys"
      by (auto simp: list_eq_iff_nth_eq list_all2_conv_all_nth)
    then show ?thesis using JArr by (auto intro: same_json.intros)
  qed auto
next
  case (7 a)
  show ?case
  proof (cases w)
    case (JObj b)
    have inj: "inj_on collate (fst ` set a \<union> fst ` set b)"
      using "7.prems"(3) JObj by (auto intro: inj_on_subset)
    have IH: "sort_keys collate x = sort_keys collate y \<longleftrightarrow> same_json x y"
      if "map_of a k = Some x" "map_of b k = Some y" for k x y
    proof -
      have kx: "(k, x) \<in> set a" and ky: "(k, y) \<in> set b" using that by (auto dest: map_of_SomeD)
      have "json_keys x \<union> json_keys y \<subseteq> json_keys (JObj a) \<union> json_keys w" using kx ky JObj by force
      with "7.prems"(3) have "inj_on collate (json_keys x \<union> json_keys y)" by (rule inj_on_subset)
      with 7 kx ky JObj show ?thesis by (force simp: list_all_iff)
    qed
    have "(sort_keys collate (JObj a) = sort_keys collate w) \<longleftrightarrow>
        map_option (sort_keys collate) \<circ> map_of a = map_option (sort_keys collate) \<circ> map_of b"
      using "7.prems" JObj inj by (simp add: sorted_pairs_eq_iff)
    also have "\<dots> \<longleftrightarrow> dom (map_of a) = dom (map_of b) \<and>
        (\<forall>k x y. map_of a k = Some x \<longrightarrow> map_of b k = Some y \<longrightarrow> sort_keys collate x = sort_keys collate y)"
      by (auto simp: fun_eq_iff dom_def set_eq_iff map_option_case split: option.splits)
        (metis not_None_eq)
    also have "\<dots> \<longleftrightarrow> same_json (JObj a) w"
      using IH JObj by (auto intro!: same_json.intros)
    finally show ?thesis .
  qed auto
qed (auto intro: same_json.intros elim: same_json.cases)

subsection \<open>Hashes\<close>

text \<open>What \<open>digest('hex')\<close> of SHA-256 returns: 64 lower-case hexadecimal digits.\<close>

definition hex_char :: "char \<Rightarrow> bool" where
  "hex_char c \<longleftrightarrow> c \<in> set ''0123456789abcdef''"

definition hex_digest :: "string \<Rightarrow> bool" where
  "hex_digest s \<longleftrightarrow> length s = 64 \<and> list_all hex_char s"

lemma hex_char_nibbles:
  "list_all (\<lambda>c. hex_nibble c \<noteq> None) ''0123456789abcdef''"
  "map (\<lambda>c. the (hex_nibble c)) ''0123456789abcdef'' = [0..<16]"
  by code_simp+

lemma hex_nibble_lt: "hex_nibble c = Some n \<Longrightarrow> n < 16"
  unfolding hex_nibble_def radix_digit_def Let_def by (metis option.distinct(1) option.inject)

lemma hex_char_nibble: "hex_char c \<Longrightarrow> \<exists>n<16. hex_nibble c = Some n"
  using hex_char_nibbles(1) hex_nibble_lt unfolding hex_char_def list_all_iff by blast

lemma hex_nibble_inj:
  assumes "hex_char c" "hex_char d" "hex_nibble c = hex_nibble d"
  shows "c = d"
proof -
  have "distinct (map (\<lambda>c. the (hex_nibble c)) ''0123456789abcdef'')"
    unfolding hex_char_nibbles(2) by simp
  then have "inj_on (\<lambda>c. the (hex_nibble c)) (set ''0123456789abcdef'')"
    unfolding distinct_map by blast
  with assms show ?thesis unfolding hex_char_def by (metis inj_onD)
qed

lemma hex_bytes_inj:
  "list_all hex_char s \<Longrightarrow> list_all hex_char t \<Longrightarrow> even (length s) \<Longrightarrow> even (length t) \<Longrightarrow>
   hex_bytes s = hex_bytes t \<Longrightarrow> s = t"
proof (induction s arbitrary: t rule: hex_bytes.induct)
  case (1 a b r)
  obtain x y where xy: "hex_nibble a = Some x" "x < 16" "hex_nibble b = Some y" "y < 16"
    using "1.prems"(1) by (auto dest!: hex_char_nibble)
  show ?case
  proof (cases t rule: hex_bytes.cases)
    case (1 a' b' r')
    obtain x' y' where xy': "hex_nibble a' = Some x'" "x' < 16" "hex_nibble b' = Some y'" "y' < 16"
      using 1 "1.prems"(2) by (auto dest!: hex_char_nibble)
    have eq: "16 * x + y = 16 * x' + y'" "hex_bytes r = hex_bytes r'"
      using "1.prems"(5) 1 xy xy' by simp_all
    have "x = x'" using arg_cong [OF eq(1), of "\<lambda>n. n div 16"] xy(4) xy'(4) by simp
    moreover have "y = y'" using eq(1) calculation by simp
    moreover have "r = r'" using "1.IH" [OF xy(1,3), of r'] "1.prems" 1 eq(2) by simp
    ultimately show ?thesis using 1 xy xy' "1.prems" hex_nibble_inj [of a a'] hex_nibble_inj [of b b'] by simp
  qed (use 1 xy in simp_all)
next
  case "2_1"
  then show ?case
    by (cases t rule: hex_bytes.cases) (auto dest!: hex_char_nibble)
qed simp

lemma comparePayloadHashes_iff:
  "hex_digest s \<Longrightarrow> hex_digest t \<Longrightarrow> comparePayloadHashes s t \<longleftrightarrow> s = t"
  using hex_bytes_inj [of s t] by (auto simp: comparePayloadHashes_def hex_digest_def Let_def)

lemma constantTimeEqual_compare: "constantTimeEqual = comparePayloadHashes"
  by (intro ext) (simp add: constantTimeEqual_def comparePayloadHashes_def)

lemma hashEventPayload_compute: "hashEventPayload = computePayloadHash"
  by (intro ext) (simp add: hashEventPayload_def computePayloadHash_def)

lemma canonicalize_eq_iff:
  assumes "json_wf v" "json_wf w" "inj_on collate (json_keys v \<union> json_keys w)"
  shows "canonicalize collate v = canonicalize collate w \<longleftrightarrow> same_json v w"
  using stringify_inj [OF json_wf_defined json_wf_defined, OF assms(1,2)] sort_keys_eq_iff [OF assms]
  by (auto simp: canonicalize_stringify assms(1,2))

text \<open>
  C34: the payload hashes of two payloads compare as equal exactly when the payloads
  are the same up to the order of object keys, at every depth.  The hypotheses: objects
  have distinct keys, the locale distinguishes the keys that occur, SHA-256 prints 64
  lower-case hexadecimal digits and does not collide on the two canonical texts.
\<close>

theorem payload_hash_order_free:
  assumes "json_wf v" "json_wf w" "inj_on collate (json_keys v \<union> json_keys w)"
    and digest: "\<And>x. hex_digest (sha256 x)"
    and no_collision: "inj_on sha256 {canonicalize collate v, canonicalize collate w}"
  shows "comparePayloadHashes (computePayloadHash collate sha256 v) (computePayloadHash collate sha256 w)
    \<longleftrightarrow> same_json v w"
proof -
  have "comparePayloadHashes (computePayloadHash collate sha256 v) (computePayloadHash collate sha256 w)
      \<longleftrightarrow> sha256 (canonicalize collate v) = sha256 (canonicalize collate w)"
    by (simp add: computePayloadHash_def comparePayloadHashes_iff digest)
  also have "\<dots> \<longleftrightarrow> canonicalize collate v = canonicalize collate w"
    using no_collision by (auto dest: inj_onD)
  finally show ?thesis by (simp add: canonicalize_eq_iff [OF assms(1-3)])
qed

definition sample_collate :: "string \<Rightarrow> nat" where
  "sample_collate s = foldl (\<lambda>n c. 256 * n + of_char c) 0 s"

definition sample_sha :: "string \<Rightarrow> string" where
  "sample_sha s = replicate 64 (if length s < 20 then CHR ''0'' else CHR ''f'')"

definition sample_payload :: json where
  "sample_payload = JObj [(''a'', JNum 1), (''b'', JArr [JBool True, JNull])]"

theorem payload_hash_order_free_witness:
  "comparePayloadHashes (computePayloadHash sample_collate sample_sha sample_payload)
     (computePayloadHash sample_collate sample_sha (JObj [(''b'', JArr [JBool True, JNull]), (''a'', JNum 1)]))
   \<longleftrightarrow> same_json sample_payload (JObj [(''b'', JArr [JBool True, JNull]), (''a'', JNum 1)])"
proof (rule payload_hash_order_free)
  show "inj_on sample_collate (json_keys sample_payload \<union>
      json_keys (JObj [(''b'', JArr [JBool True, JNull]), (''a'', JNum 1)]))"
    by (auto simp: inj_on_def sample_payload_def sample_collate_def)
  show "hex_digest (sample_sha x)" for x
    by (simp add: hex_digest_def sample_sha_def hex_char_def list_all_iff)
  have "canonicalize sample_collate sample_payload =
      canonicalize sample_collate (JObj [(''b'', JArr [JBool True, JNull]), (''a'', JNum 1)])"
    by code_simp
  then show "inj_on sample_sha {canonicalize sample_collate sample_payload,
      canonicalize sample_collate (JObj [(''b'', JArr [JBool True, JNull]), (''a'', JNum 1)])}"
    by simp
qed (simp_all add: sample_payload_def)

subsection \<open>Reading keys back\<close>

lemma js_split_free [simp]: "c \<notin> set s \<Longrightarrow> js_split c s = [s]"
  by (induction s) auto

lemma js_split_part: "c \<notin> set s \<Longrightarrow> js_split c (s @ c # r) = s # js_split c r"
  by (induction s) auto

lemma digits_value_snoc: "digits_value (ds @ [d]) = 10 * digits_value ds + (of_char d - 48)"
  by (simp add: digits_value_def)

lemma digit_chars_js:
  "list_all js_digit ''0123456789''" "map (\<lambda>c. of_char c - 48) ''0123456789'' = map int [0..<10]"
  by code_simp+

lemma digit_value_nth: "n < 10 \<Longrightarrow> of_char (''0123456789'' ! n) - 48 = int n"
  using arg_cong [OF digit_chars_js(2), of "\<lambda>xs. xs ! n"] by (subst (asm) nth_map; simp)

lemma digits_value_show_nat: "digits_value (show_nat n) = int n"
proof (induction n rule: show_nat.induct)
  case (1 n)
  show ?case
  proof (cases "n < 10")
    case True
    then have "digits_value [''0123456789'' ! n] = int n"
      using digit_value_nth [of n] digits_value_snoc [of "[]"] by (simp add: digits_value_def)
    with True show ?thesis by (simp add: show_nat_single)
  next
    case False
    then have "digits_value (show_nat n) = 10 * int (n div 10) + int (n mod 10)"
      using 1 digit_value_nth [of "n mod 10"] by (simp add: show_nat_step digits_value_snoc)
    also have "\<dots> = int (10 * (n div 10) + n mod 10)" by (simp only: of_nat_add of_nat_mult of_nat_numeral)
    finally show ?thesis by simp
  qed
qed

lemma show_nat_js_digit: "list_all js_digit (show_nat n)"
  using show_nat_digits [of n] digit_chars_js(1) unfolding digit_chars_def list_all_iff by blast

lemma js_digit_plain: "js_digit c \<Longrightarrow> \<not> js_space c \<and> c \<noteq> CHR ''-'' \<and> c \<noteq> CHR ''+'' \<and> c \<noteq> CHR '':''"
  by (auto simp: js_digit_def js_space_def)

lemma takeWhile_digits: "list_all P s \<Longrightarrow> takeWhile P s = s"
  by (simp add: list_all_iff)

lemma parseInt_digits:
  assumes "s \<noteq> []" "list_all js_digit s"
  shows "js_parseInt s = Some (digits_value s)" "js_parseInt (CHR ''-'' # s) = Some (- digits_value s)"
proof -
  obtain d ds where s: "s = d # ds" using assms(1) by (cases s) auto
  have digits: "js_digit d" "takeWhile js_digit ds = ds" using assms(2) s by (simp_all add: list_all_iff)
  have "\<not> js_space CHR ''-''" by (simp add: js_space_def)
  then show "js_parseInt s = Some (digits_value s)" "js_parseInt (CHR ''-'' # s) = Some (- digits_value s)"
    using js_digit_plain [OF digits(1)] by (simp_all add: js_parseInt_def Let_def s digits)
qed

lemma parseInt_show_int: "js_parseInt (show_int n) = Some n"
  using parseInt_digits [OF show_nat_nonempty show_nat_js_digit]
  by (simp add: show_int_def digits_value_show_nat)

lemma show_int_no_colon: "CHR '':'' \<notin> set (show_int n)"
  using show_int_chars [of n] by (auto simp: digit_chars_def)

text \<open>
  C35: a deduplication key made from ids without a colon parses back into these ids and
  the sequence, and two such keys are equal exactly when ids and sequence are (for
  sequence numbers in decimal print, below \<open>10^21\<close>).
\<close>

theorem deduplication_key_roundtrip:
  assumes "CHR '':'' \<notin> set c" "CHR '':'' \<notin> set e" "CHR '':'' \<notin> set c'" "CHR '':'' \<notin> set e'"
  shows "parseDeduplicationKey (computeDeduplicationKey c e n) =
      \<lparr>pk_contractId = Some c, pk_eventId = Some e, pk_sequence = Some n\<rparr>
    \<and> (areEventsDuplicates (c, e, n) (c', e', n') \<longleftrightarrow> c = c' \<and> e = e' \<and> n = n')"
proof -
  have parse: "parseDeduplicationKey (computeDeduplicationKey c e n) =
      \<lparr>pk_contractId = Some c, pk_eventId = Some e, pk_sequence = Some n\<rparr>"
    if "CHR '':'' \<notin> set c" "CHR '':'' \<notin> set e" for c e n
    using that by (simp add: parseDeduplicationKey_def computeDeduplicationKey_def js_split_part
        show_int_no_colon part_def parseInt_show_int)
  have "c = c' \<and> e = e' \<and> n = n'" if "computeDeduplicationKey c e n = computeDeduplicationKey c' e' n'"
    using arg_cong [OF that, of parseDeduplicationKey]
    by (simp only: parse assms not_False_eq_True parsed_key.ext_inject option.inject)
  then have "areEventsDuplicates (c, e, n) (c', e', n') \<longleftrightarrow> c = c' \<and> e = e' \<and> n = n'"
    unfolding areEventsDuplicates_def prod.case by blast
  with parse [OF assms(1,2)] show ?thesis by simp
qed

theorem deduplication_key_roundtrip_witness:
  "parseDeduplicationKey (computeDeduplicationKey ''c1'' ''e7'' 42) =
     \<lparr>pk_contractId = Some ''c1'', pk_eventId = Some ''e7'', pk_sequence = Some 42\<rparr>"
  using deduplication_key_roundtrip [of "''c1''" "''e7''" "''c1''" "''e7''" 42 42] by simp

text \<open>
  With a colon in an id parsing fails: the comment says that the key is split at its
  first two colons, but the third part ends at the third colon.
\<close>

lemma colon_key_misparsed:
  "parseDeduplicationKey (computeDeduplicationKey ''a'' ''b:c'' 4) =
     \<lparr>pk_contractId = Some ''a'', pk_eventId = Some ''b'', pk_sequence = None\<rparr>"
  "areEventsDuplicates (''a'', ''b:c'', 4) (''a:b'', ''c'', 4)"
  by code_simp+

text \<open>
  A stored hash with anything after its digits that is no hexadecimal pair still
  compares as equal, although it is not the digest.
\<close>

lemma malformed_hash_accepted:
  assumes "hex_digest s"
  shows "comparePayloadHashes s (s @ ''zz'')"
proof -
  have "hex_bytes (t @ ''zz'') = hex_bytes t" if "list_all hex_char t" "even (length t)" for t
    using that
  proof (induction t rule: hex_bytes.induct)
    case (1 a b r)
    then show ?case by (auto dest!: hex_char_nibble)
  next
    case "2_1"
    show ?case by code_simp
  qed simp
  with assms show ?thesis by (simp add: comparePayloadHashes_def hex_digest_def)
qed

text \<open>
  Keys that the locale does not distinguish stay in the order in which they were set, so
  that the hash depends on that order; with ICU this holds of keys that differ in control
  characters only.
\<close>

lemma ignorable_keys_not_order_free:
  defines "collate \<equiv> \<lambda>s. length (filter (\<lambda>c. 32 \<le> (of_char c :: nat)) s)"
  shows "canonicalize collate (JObj [(''a'', JNum 1), (''a'' @ [CHR 0x01], JNum 2)]) \<noteq>
         canonicalize collate (JObj [(''a'' @ [CHR 0x01], JNum 2), (''a'', JNum 1)])"
  unfolding collate_def by code_simp

end
