(* ===== verification/EventIngestion.thy ===== *)
theory EventIngestion
  imports Canonical JsMap
begin

text \<open>
  Event ingestion: the audit repository and service of
  \<open>repository/eventAuditRepository.ts\<close> and the validating service of
  \<open>events/eventIngestionService.ts\<close>.  An event is validated, its key looked up, and
  either stored as accepted or answered as duplicate or conflict.

  The lookup and the write are separated by an \<open>await\<close>, so that \<open>processEvent\<close> has a
  first part (\<open>event_begin\<close>) and a second part (\<open>event_finish\<close>).  \<open>processBatch\<close> starts
  all events of a chunk before it waits, so that every lookup of the chunk precedes
  every write.  The lemmas show that events processed one at a time are accepted once
  per key, and that a chunk of two does not guarantee this.  The in-memory repository
  never fails, so that the \<open>catch\<close> branch is not reached.  Each event comes with the
  random id and the readings of the clock that its processing uses.
\<close>

subsection \<open>The audit repository\<close>

datatype ev_status = EvAccepted | EvRejected | EvDuplicate

record event_audit =
  ea_id :: string
  ea_deduplicationKey :: string
  ea_contractId :: string
  ea_eventId :: string
  ea_sequence :: int
  ea_status :: ev_status
  ea_reason :: "string option"
  ea_payloadHash :: string
  ea_processedAt :: int
  ea_createdAt :: int
  ea_correlationId :: "string option"

record audit_repo =
  ar_audits :: "(string, event_audit) jsmap"
  ar_contractIdIndex :: "(string, string list) jsmap"
  ar_statusIndex :: "(ev_status, string list) jsmap"

definition new_audit_repo :: audit_repo where
  "new_audit_repo = \<lparr>ar_audits = map_empty, ar_contractIdIndex = map_empty, ar_statusIndex = map_empty\<rparr>"

text \<open>A \<open>Set\<close> in insertion order.\<close>

definition set_add :: "'a \<Rightarrow> 'a list \<Rightarrow> 'a list" where
  "set_add x xs = (if x \<in> set xs then xs else xs @ [x])"

definition index_keys :: "('k, string list) jsmap \<Rightarrow> 'k \<Rightarrow> string list" where
  "index_keys index k = (case map_get index k of Some ks \<Rightarrow> ks | None \<Rightarrow> [])"

definition index_add :: "'k \<Rightarrow> string \<Rightarrow> ('k, string list) jsmap \<Rightarrow> ('k, string list) jsmap" where
  "index_add k key index =
     (let index1 = (if map_has index k then index else map_set k [] index)
      in map_set k (set_add key (index_keys index1 k)) index1)"

definition findByDeduplicationKey :: "audit_repo \<Rightarrow> string \<Rightarrow> event_audit option" where
  "findByDeduplicationKey repo key = map_get (ar_audits repo) key"

definition audit_save :: "event_audit \<Rightarrow> audit_repo \<Rightarrow> audit_repo" where
  "audit_save audit repo =
     \<lparr>ar_audits = map_set (ea_deduplicationKey audit) audit (ar_audits repo),
      ar_contractIdIndex = index_add (ea_contractId audit) (ea_deduplicationKey audit) (ar_contractIdIndex repo),
      ar_statusIndex = index_add (ea_status audit) (ea_deduplicationKey audit) (ar_statusIndex repo)\<rparr>"

definition newest_audits :: "audit_repo \<Rightarrow> string list \<Rightarrow> nat \<Rightarrow> event_audit list" where
  "newest_audits repo keys limit =
     take limit (sort_key (\<lambda>a. - ea_createdAt a) (List.map_filter (map_get (ar_audits repo)) keys))"

definition findByContractId :: "audit_repo \<Rightarrow> string \<Rightarrow> nat \<Rightarrow> event_audit list" where
  "findByContractId repo contractId limit =
     newest_audits repo (index_keys (ar_contractIdIndex repo) contractId) limit"

definition findByStatus :: "audit_repo \<Rightarrow> ev_status \<Rightarrow> nat \<Rightarrow> event_audit list" where
  "findByStatus repo status limit = newest_audits repo (index_keys (ar_statusIndex repo) status) limit"

record event_statistics =
  st_total :: nat
  st_accepted :: nat
  st_rejected :: nat
  st_duplicates :: nat

definition getEventStatistics :: "audit_repo \<Rightarrow> event_statistics" where
  "getEventStatistics repo =
     \<lparr>st_total = map_size (ar_audits repo),
      st_accepted = length (index_keys (ar_statusIndex repo) EvAccepted),
      st_rejected = length (index_keys (ar_statusIndex repo) EvRejected),
      st_duplicates = length (index_keys (ar_statusIndex repo) EvDuplicate)\<rparr>"

subsection \<open>The audit service\<close>

record ingest_event =
  ev_contractId :: string
  ev_eventId :: string
  ev_sequence :: int
  ev_payload :: json

record ingestion_result =
  ir_deduplicationKey :: "string option"
  ir_status :: ev_status
  ir_reason :: "string option"
  ir_processedAt :: int
  ir_statusCode :: "int option"
  ir_code :: "string option"

text \<open>What the service knows when it awaits the lookup and when the lookup has answered.\<close>

record pending_event =
  pe_event :: ingest_event
  pe_key :: string
  pe_processedAt :: int
  pe_payloadHash :: string
  pe_existing :: "event_audit option"

record event_env =
  en_id :: string
  en_begin :: int
  en_finish :: int
  en_correlationId :: "string option"

definition event_key :: "ingest_event \<Rightarrow> string" where
  "event_key event = computeDeduplicationKey (ev_contractId event) (ev_eventId event) (ev_sequence event)"

definition audit_begin ::
  "(string \<Rightarrow> 'k :: linorder) \<Rightarrow> (string \<Rightarrow> string) \<Rightarrow> event_env \<Rightarrow> ingest_event \<Rightarrow> audit_repo \<Rightarrow> pending_event" where
  "audit_begin collate sha256 env event repo =
     \<lparr>pe_event = event, pe_key = event_key event, pe_processedAt = en_begin env,
      pe_payloadHash = computePayloadHash collate sha256 (ev_payload event),
      pe_existing = findByDeduplicationKey repo (event_key event)\<rparr>"

definition non_blank :: "string option \<Rightarrow> string option" where
  "non_blank s = (if s = Some [] then None else s)"

definition audit_record :: "event_env \<Rightarrow> pending_event \<Rightarrow> ev_status \<Rightarrow> string option \<Rightarrow> event_audit" where
  "audit_record env p status reason =
     \<lparr>ea_id = en_id env, ea_deduplicationKey = pe_key p, ea_contractId = ev_contractId (pe_event p),
      ea_eventId = ev_eventId (pe_event p), ea_sequence = ev_sequence (pe_event p), ea_status = status,
      ea_reason = reason, ea_payloadHash = pe_payloadHash p, ea_processedAt = pe_processedAt p,
      ea_createdAt = en_finish env, ea_correlationId = non_blank (en_correlationId env)\<rparr>"

definition ingestion_answer :: "pending_event \<Rightarrow> ev_status \<Rightarrow> string option \<Rightarrow> ingestion_result" where
  "ingestion_answer p status reason =
     \<lparr>ir_deduplicationKey = Some (pe_key p), ir_status = status, ir_reason = reason,
      ir_processedAt = pe_processedAt p, ir_statusCode = None, ir_code = None\<rparr>"

definition CONFLICT_REASON :: string where
  "CONFLICT_REASON = ''Idempotency key was already used with a different event payload.''"

definition audit_finish :: "event_env \<Rightarrow> pending_event \<Rightarrow> audit_repo \<Rightarrow> ingestion_result \<times> audit_repo" where
  "audit_finish env p repo =
     (case pe_existing p of
        Some existing \<Rightarrow>
          if \<not> comparePayloadHashes (pe_payloadHash p) (ea_payloadHash existing)
          then ((ingestion_answer p EvRejected (Some CONFLICT_REASON))
                  \<lparr>ir_statusCode := Some 409, ir_code := Some ''IDEMPOTENCY_PAYLOAD_CONFLICT''\<rparr>, repo)
          else (ingestion_answer p EvDuplicate (Some ''Event with same deduplication key already processed''), repo)
      | None \<Rightarrow> (ingestion_answer p EvAccepted None, audit_save (audit_record env p EvAccepted None) repo))"

definition rejectEvent ::
  "(string \<Rightarrow> 'k :: linorder) \<Rightarrow> (string \<Rightarrow> string) \<Rightarrow> event_env \<Rightarrow> ingest_event \<Rightarrow> string \<Rightarrow> audit_repo
   \<Rightarrow> ingestion_result \<times> audit_repo" where
  "rejectEvent collate sha256 env event reason repo =
     (let p = audit_begin collate sha256 env event repo
      in (ingestion_answer p EvRejected (Some reason),
          audit_save (audit_record env p EvRejected (Some reason)) repo))"

subsection \<open>The ingestion service\<close>

record ingestion_config =
  enableStrictValidation :: bool
  enablePayloadIntegrityCheck :: bool
  maxEventAgeMs :: int
  batchSize :: int

definition INGESTION_PREAMBLE_OPTIONS :: envelope_options where
  "INGESTION_PREAMBLE_OPTIONS =
     \<lparr>rootErrorMessage = ''Event must be a JSON object.'', messageSuffix = ''.'',
      timestampRule = Numeric, abortEarly = False\<rparr>"

definition toTimestampNumber :: "json \<Rightarrow> rat option" where
  "toTimestampNumber value =
     (case value of
        JNum n \<Rightarrow> if js_finite (of_int n) then Some (of_int n) else None
      | JStr s \<Rightarrow> if js_trim s \<noteq> [] then js_Number s else None
      | _ \<Rightarrow> None)"

definition validateContractSpecificPayload :: "string \<Rightarrow> json \<Rightarrow> field_error list" where
  "validateContractSpecificPayload contractType payload =
     (if \<not> isRecord payload then []
      else if contractType = ''talent_contract''
      then (if blank_field (get_field payload ''talentId'')
            then [\<lparr>err_field = ''payload.talentId'',
                   err_message = ''talentId is required for talent_contract events.''\<rparr>] else [])
         @ (if blank_field (get_field payload ''action'')
            then [\<lparr>err_field = ''payload.action'',
                   err_message = ''action is required for talent_contract events.''\<rparr>] else [])
      else [])"

definition validateEvent :: "ingestion_config \<Rightarrow> int \<Rightarrow> string \<Rightarrow> json \<Rightarrow> field_error list" where
  "validateEvent cfg now contractType event =
     (let preambleErrors = validateEventEnvelopePreamble (\<lambda>s. False) event INGESTION_PREAMBLE_OPTIONS
      in preambleErrors @
         (if isRecord event
          then (case toTimestampNumber (get_field event ''timestamp'') of
                  Some timestampNumber \<Rightarrow>
                    if \<not> list_ex (\<lambda>e. err_field e = ''timestamp'') preambleErrors
                       \<and> of_int (maxEventAgeMs cfg) < of_int now - timestampNumber
                    then [\<lparr>err_field = ''timestamp'', err_message = ''Event too old.''\<rparr>] else []
                | None \<Rightarrow> [])
             @ (if enableStrictValidation cfg
                then validateContractSpecificPayload contractType (get_field event ''payload'') else [])
          else []))"

fun num_of :: "json \<Rightarrow> int" where
  "num_of (JNum n) = n"
| "num_of _ = 0"

fun text_of :: "json \<Rightarrow> string" where
  "text_of (JStr s) = s"
| "text_of _ = []"

definition typed_event :: "json \<Rightarrow> ingest_event" where
  "typed_event event =
     \<lparr>ev_contractId = text_of (get_field event ''contractId''), ev_eventId = text_of (get_field event ''eventId''),
      ev_sequence = num_of (get_field event ''sequence''), ev_payload = get_field event ''payload''\<rparr>"

datatype event_progress = Refused ingestion_result | Awaiting pending_event

definition event_begin ::
  "(string \<Rightarrow> 'k :: linorder) \<Rightarrow> (string \<Rightarrow> string) \<Rightarrow> ingestion_config \<Rightarrow> string \<Rightarrow> event_env \<Rightarrow> json
   \<Rightarrow> audit_repo \<Rightarrow> event_progress" where
  "event_begin collate sha256 cfg contractType env event repo =
     (let errors = validateEvent cfg (en_begin env) contractType event
      in if errors \<noteq> []
         then Refused \<lparr>ir_deduplicationKey = None, ir_status = EvRejected,
                ir_reason = Some (''Validation failed: '' @ join ''; '' (map err_message errors)),
                ir_processedAt = en_begin env, ir_statusCode = None, ir_code = None\<rparr>
         else Awaiting (audit_begin collate sha256 env (typed_event event) repo))"

definition integrity_answer :: "ingestion_config \<Rightarrow> ingestion_result \<Rightarrow> ingestion_result" where
  "integrity_answer cfg response =
     (if ir_status response = EvRejected \<and> enablePayloadIntegrityCheck cfg
         \<and> (case ir_reason response of Some r \<Rightarrow> js_includes r ''already used'' | None \<Rightarrow> False)
      then response\<lparr>ir_reason := Some (''Payload integrity check failed: event payload does not match ''
                     @ ''previously processed event.''), ir_statusCode := None\<rparr>
      else response)"

definition event_finish ::
  "ingestion_config \<Rightarrow> event_env \<Rightarrow> event_progress \<Rightarrow> audit_repo \<Rightarrow> ingestion_result \<times> audit_repo" where
  "event_finish cfg env progress repo =
     (case progress of
        Refused r \<Rightarrow> (r, repo)
      | Awaiting p \<Rightarrow> (let (response, repo') = audit_finish env p repo in (integrity_answer cfg response, repo')))"

definition processEvent ::
  "(string \<Rightarrow> 'k :: linorder) \<Rightarrow> (string \<Rightarrow> string) \<Rightarrow> ingestion_config \<Rightarrow> string \<Rightarrow> event_env \<Rightarrow> json
   \<Rightarrow> audit_repo \<Rightarrow> ingestion_result \<times> audit_repo" where
  "processEvent collate sha256 cfg contractType env event repo =
     event_finish cfg env (event_begin collate sha256 cfg contractType env event repo) repo"

text \<open>A chunk: all first parts against the repository as it is, then the second parts in order.\<close>

fun finish_all ::
  "ingestion_config \<Rightarrow> (event_env \<times> event_progress) list \<Rightarrow> audit_repo \<Rightarrow> ingestion_result list \<times> audit_repo" where
  "finish_all cfg [] repo = ([], repo)"
| "finish_all cfg ((env, progress) # ps) repo =
     (let (r, repo1) = event_finish cfg env progress repo; (rs, repo2) = finish_all cfg ps repo1
      in (r # rs, repo2))"

definition process_chunk ::
  "(string \<Rightarrow> 'k :: linorder) \<Rightarrow> (string \<Rightarrow> string) \<Rightarrow> ingestion_config \<Rightarrow> string \<Rightarrow> (event_env \<times> json) list
   \<Rightarrow> audit_repo \<Rightarrow> ingestion_result list \<times> audit_repo" where
  "process_chunk collate sha256 cfg contractType chunk repo =
     finish_all cfg
       (map (\<lambda>(env, event). (env, event_begin collate sha256 cfg contractType env event repo)) chunk) repo"

function process_chunks ::
  "nat \<Rightarrow> (string \<Rightarrow> 'k :: linorder) \<Rightarrow> (string \<Rightarrow> string) \<Rightarrow> ingestion_config \<Rightarrow> string
   \<Rightarrow> (event_env \<times> json) list \<Rightarrow> audit_repo \<Rightarrow> ingestion_result list \<times> audit_repo" where
  "process_chunks step collate sha256 cfg contractType events repo =
     (if events = [] \<or> step = 0 then ([], repo)
      else let (rs, repo1) = process_chunk collate sha256 cfg contractType (take step events) repo;
               (rs', repo2) = process_chunks step collate sha256 cfg contractType (drop step events) repo1
           in (rs @ rs', repo2))"
  by pat_completeness auto
termination
  by (relation "measure (\<lambda>(step, c, s, cfg, t, events, repo). length events)") auto

declare process_chunks.simps [simp del]

definition ingestion_processBatch ::
  "(string \<Rightarrow> 'k :: linorder) \<Rightarrow> (string \<Rightarrow> string) \<Rightarrow> ingestion_config \<Rightarrow> string \<Rightarrow> (event_env \<times> json) list
   \<Rightarrow> audit_repo \<Rightarrow> ingestion_result list \<times> audit_repo" where
  "ingestion_processBatch collate sha256 cfg contractType events repo =
     process_chunks (nat (max 1 (batchSize cfg))) collate sha256 cfg contractType events repo"

subsection \<open>One event\<close>

definition event_hash :: "(string \<Rightarrow> 'k :: linorder) \<Rightarrow> (string \<Rightarrow> string) \<Rightarrow> json \<Rightarrow> string" where
  "event_hash collate sha256 event = computePayloadHash collate sha256 (get_field event ''payload'')"

definition json_key :: "json \<Rightarrow> string" where
  "json_key event = event_key (typed_event event)"

definition event_valid :: "ingestion_config \<Rightarrow> string \<Rightarrow> event_env \<times> json \<Rightarrow> bool" where
  "event_valid cfg contractType ev \<longleftrightarrow> validateEvent cfg (en_begin (fst ev)) contractType (snd ev) = []"

text \<open>The audit that an accepted event should leave, field by field.\<close>

definition accepted_audit ::
  "(string \<Rightarrow> 'k :: linorder) \<Rightarrow> (string \<Rightarrow> string) \<Rightarrow> event_env \<times> json \<Rightarrow> event_audit" where
  "accepted_audit collate sha256 ev =
     (case ev of (env, e) \<Rightarrow>
       \<lparr>ea_id = en_id env, ea_deduplicationKey = json_key e, ea_contractId = text_of (get_field e ''contractId''),
        ea_eventId = text_of (get_field e ''eventId''), ea_sequence = num_of (get_field e ''sequence''),
        ea_status = EvAccepted, ea_reason = None,
        ea_payloadHash = computePayloadHash collate sha256 (get_field e ''payload''),
        ea_processedAt = en_begin env, ea_createdAt = en_finish env,
        ea_correlationId = (if en_correlationId env = Some [] then None else en_correlationId env)\<rparr>)"

definition stored_hash :: "audit_repo \<Rightarrow> string \<Rightarrow> string option" where
  "stored_hash repo key = map_option ea_payloadHash (findByDeduplicationKey repo key)"

lemma integrity_status [simp]: "ir_status (integrity_answer cfg r) = ir_status r"
  by (simp add: integrity_answer_def)

lemma processEvent_invalid:
  assumes "\<not> event_valid cfg t (env, e)"
  shows "ir_status (fst (processEvent collate sha256 cfg t env e repo)) = EvRejected"
    "snd (processEvent collate sha256 cfg t env e repo) = repo"
  using assms by (simp_all add: processEvent_def event_begin_def event_finish_def event_valid_def Let_def)

lemma processEvent_known:
  assumes "event_valid cfg t (env, e)" "stored_hash repo (json_key e) = Some h"
  shows "ir_status (fst (processEvent collate sha256 cfg t env e repo)) =
      (if comparePayloadHashes (event_hash collate sha256 e) h then EvDuplicate else EvRejected)"
    "snd (processEvent collate sha256 cfg t env e repo) = repo"
  using assms
  by (auto simp: processEvent_def event_begin_def event_finish_def event_valid_def audit_begin_def audit_finish_def
      stored_hash_def json_key_def event_hash_def typed_event_def ingestion_answer_def case_prod_unfold)

lemma processEvent_fresh:
  assumes "event_valid cfg t (env, e)" "stored_hash repo (json_key e) = None"
  shows "ir_status (fst (processEvent collate sha256 cfg t env e repo)) = EvAccepted"
    "snd (processEvent collate sha256 cfg t env e repo) = audit_save (accepted_audit collate sha256 (env, e)) repo"
  using assms
  by (auto simp: processEvent_def event_begin_def event_finish_def event_valid_def audit_begin_def audit_finish_def
      stored_hash_def json_key_def event_hash_def typed_event_def ingestion_answer_def audit_record_def
      accepted_audit_def non_blank_def case_prod_unfold)

lemma accepted_audit_sel [simp]:
  "ea_deduplicationKey (accepted_audit collate sha256 (env, e)) = json_key e"
  "ea_payloadHash (accepted_audit collate sha256 (env, e)) = event_hash collate sha256 e"
  "ea_status (accepted_audit collate sha256 (env, e)) = EvAccepted"
  by (simp_all add: accepted_audit_def event_hash_def)

lemma stored_hash_save:
  "stored_hash (audit_save audit repo) k =
   (if k = ea_deduplicationKey audit then Some (ea_payloadHash audit) else stored_hash repo k)"
  by (simp add: stored_hash_def findByDeduplicationKey_def audit_save_def)

lemma stored_hash_process:
  "stored_hash (snd (processEvent collate sha256 cfg t env e repo)) k =
   (case stored_hash repo k of
      Some h \<Rightarrow> Some h
    | None \<Rightarrow> if event_valid cfg t (env, e) \<and> json_key e = k then Some (event_hash collate sha256 e) else None)"
proof (cases "event_valid cfg t (env, e)")
  case valid: True
  show ?thesis
  proof (cases "stored_hash repo (json_key e)")
    case None
    with processEvent_fresh(2) [OF valid None, of collate sha256] valid show ?thesis
      by (auto simp: stored_hash_save split: option.splits)
  next
    case (Some h)
    with valid show ?thesis by (auto simp: processEvent_known split: option.splits)
  qed
qed (simp add: processEvent_invalid split: option.splits)

subsection \<open>Events one at a time\<close>

abbreviation process_seq ::
  "(string \<Rightarrow> 'k :: linorder) \<Rightarrow> (string \<Rightarrow> string) \<Rightarrow> ingestion_config \<Rightarrow> string
   \<Rightarrow> (event_env \<times> json) list \<Rightarrow> audit_repo \<Rightarrow> ingestion_result list \<times> audit_repo" where
  "process_seq \<equiv> process_chunks (Suc 0)"

lemma process_seq_Nil [simp]: "process_seq collate sha256 cfg t [] repo = ([], repo)"
  by (simp add: process_chunks.simps)

lemma process_seq_Cons [simp]:
  "process_seq collate sha256 cfg t ((env, e) # es) repo =
   (let (r, repo1) = processEvent collate sha256 cfg t env e repo;
        (rs, repo2) = process_seq collate sha256 cfg t es repo1
    in (r # rs, repo2))"
  by (subst process_chunks.simps) (simp add: process_chunk_def processEvent_def case_prod_unfold Let_def)

lemma process_seq_length: "length (fst (process_seq collate sha256 cfg t es repo)) = length es"
  by (induction es arbitrary: repo) (auto simp: case_prod_unfold Let_def)

text \<open>The hash under which a key is bound after some events: that of the first valid one.\<close>

definition bound_hash ::
  "(string \<Rightarrow> 'k :: linorder) \<Rightarrow> (string \<Rightarrow> string) \<Rightarrow> ingestion_config \<Rightarrow> string \<Rightarrow> (event_env \<times> json) list
   \<Rightarrow> string \<Rightarrow> string option" where
  "bound_hash collate sha256 cfg t es k =
     map_option (\<lambda>ev. event_hash collate sha256 (snd ev))
       (find (\<lambda>ev. event_valid cfg t ev \<and> json_key (snd ev) = k) es)"

definition prior_hash ::
  "(string \<Rightarrow> 'k :: linorder) \<Rightarrow> (string \<Rightarrow> string) \<Rightarrow> ingestion_config \<Rightarrow> string \<Rightarrow> (event_env \<times> json) list
   \<Rightarrow> audit_repo \<Rightarrow> string \<Rightarrow> string option" where
  "prior_hash collate sha256 cfg t es repo k =
     (case stored_hash repo k of Some h \<Rightarrow> Some h | None \<Rightarrow> bound_hash collate sha256 cfg t es k)"

lemma prior_hash_Nil [simp]: "prior_hash collate sha256 cfg t [] repo k = stored_hash repo k"
  by (simp add: prior_hash_def bound_hash_def split: option.splits)

lemma prior_hash_Cons:
  "prior_hash collate sha256 cfg t ((env, e) # es) repo k =
   prior_hash collate sha256 cfg t es (snd (processEvent collate sha256 cfg t env e repo)) k"
  by (auto simp: prior_hash_def bound_hash_def stored_hash_process split: option.splits)

lemma process_seq_status:
  assumes "j < length es" "event_valid cfg t (es ! j)"
  shows "ir_status (fst (process_seq collate sha256 cfg t es repo) ! j) =
    (case prior_hash collate sha256 cfg t (take j es) repo (json_key (snd (es ! j))) of
       None \<Rightarrow> EvAccepted
     | Some h \<Rightarrow> if comparePayloadHashes (event_hash collate sha256 (snd (es ! j))) h
                then EvDuplicate else EvRejected)"
  using assms
proof (induction es arbitrary: j repo)
  case (Cons ev es)
  obtain env e where ev: "ev = (env, e)" by (cases ev)
  show ?case
  proof (cases j)
    case 0
    with Cons.prems ev show ?thesis
      by (cases "stored_hash repo (json_key e)")
        (simp_all add: case_prod_unfold Let_def processEvent_fresh processEvent_known)
  next
    case (Suc i)
    show ?thesis
      using Cons.IH [of i "snd (processEvent collate sha256 cfg t env e repo)"] Cons.prems
      unfolding Suc ev by (simp add: case_prod_unfold Let_def prior_hash_Cons cong: option.case_cong)
  qed
qed simp

lemma process_seq_invalid:
  assumes "j < length es" "\<not> event_valid cfg t (es ! j)"
  shows "ir_status (fst (process_seq collate sha256 cfg t es repo) ! j) = EvRejected"
  using assms
proof (induction es arbitrary: j repo)
  case (Cons ev es)
  obtain env e where ev: "ev = (env, e)" by (cases ev)
  from Cons ev show ?case
    by (cases j) (simp_all add: case_prod_unfold Let_def processEvent_invalid)
qed simp

subsection \<open>The indexes\<close>

text \<open>
  While events are only accepted, both indexes are exact: the status index lists every
  audit as accepted, and the index of a contract lists its audits, in order.
\<close>

definition repo_exact :: "audit_repo \<Rightarrow> bool" where
  "repo_exact repo \<longleftrightarrow>
     (\<forall>s. index_keys (ar_statusIndex repo) s = (if s = EvAccepted then map_keys (ar_audits repo) else [])) \<and>
     (\<forall>c. index_keys (ar_contractIdIndex repo) c =
           map fst (filter (\<lambda>ka. ea_contractId (snd ka) = c) (ar_audits repo))) \<and>
     map_wf (ar_audits repo)"

lemma index_keys_add:
  "index_keys (index_add k key index) k' = (if k' = k then set_add key (index_keys index k) else index_keys index k')"
  by (auto simp: index_keys_def index_add_def map_has_def Let_def)

lemma repo_exact_new: "repo_exact new_audit_repo"
  by (simp add: repo_exact_def new_audit_repo_def index_keys_def map_keys_def map_empty_def map_get_def)

lemma repo_exact_save:
  assumes "repo_exact repo" "findByDeduplicationKey repo (ea_deduplicationKey audit) = None"
    "ea_status audit = EvAccepted"
  shows "repo_exact (audit_save audit repo)"
proof -
  let ?k = "ea_deduplicationKey audit"
  have free: "map_get (ar_audits repo) ?k = None" using assms(2) by (simp add: findByDeduplicationKey_def)
  then have "?k \<notin> set (map_keys (ar_audits repo))" by (simp add: set_map_keys)
  moreover from this have "?k \<notin> set (map fst (filter (\<lambda>ka. ea_contractId (snd ka) = c) (ar_audits repo)))" for c
    by (auto simp: map_keys_def)
  moreover have "ar_audits (audit_save audit repo) = ar_audits repo @ [(?k, audit)]"
    by (simp add: audit_save_def map_set_fresh free)
  moreover have "map_wf (ar_audits (audit_save audit repo))"
    using assms(1) by (auto simp: audit_save_def repo_exact_def)
  ultimately show ?thesis
    using assms(1,3) by (auto simp: repo_exact_def audit_save_def index_keys_add set_add_def map_keys_def)
qed

lemma processEvent_exact:
  assumes "repo_exact repo"
  shows "repo_exact (snd (processEvent collate sha256 cfg t env e repo))"
    and "ar_audits (snd (processEvent collate sha256 cfg t env e repo)) =
      ar_audits repo @
      (if ir_status (fst (processEvent collate sha256 cfg t env e repo)) = EvAccepted
       then [(json_key e, accepted_audit collate sha256 (env, e))] else [])"
proof -
  consider (invalid) "\<not> event_valid cfg t (env, e)"
    | (known) h where "event_valid cfg t (env, e)" "stored_hash repo (json_key e) = Some h"
    | (fresh) "event_valid cfg t (env, e)" "stored_hash repo (json_key e) = None"
    by (cases "stored_hash repo (json_key e)") auto
  then have "repo_exact (snd (processEvent collate sha256 cfg t env e repo)) \<and>
      ar_audits (snd (processEvent collate sha256 cfg t env e repo)) =
      ar_audits repo @
      (if ir_status (fst (processEvent collate sha256 cfg t env e repo)) = EvAccepted
       then [(json_key e, accepted_audit collate sha256 (env, e))] else [])"
  proof cases
    case fresh
    let ?a = "accepted_audit collate sha256 (env, e)"
    have free: "findByDeduplicationKey repo (ea_deduplicationKey ?a) = None"
      using fresh(2) by (simp add: stored_hash_def)
    then have "ar_audits (audit_save ?a repo) = ar_audits repo @ [(json_key e, ?a)]"
      by (simp add: audit_save_def findByDeduplicationKey_def map_set_fresh)
    with repo_exact_save [OF assms free] show ?thesis
      unfolding processEvent_fresh [OF fresh] by simp
  qed (simp_all add: assms processEvent_invalid processEvent_known)
  then show "repo_exact (snd (processEvent collate sha256 cfg t env e repo))"
    "ar_audits (snd (processEvent collate sha256 cfg t env e repo)) =
      ar_audits repo @
      (if ir_status (fst (processEvent collate sha256 cfg t env e repo)) = EvAccepted
       then [(json_key e, accepted_audit collate sha256 (env, e))] else [])"
    by blast+
qed

definition accepted_count :: "ingestion_result list \<Rightarrow> nat" where
  "accepted_count rs = length (filter (\<lambda>r. ir_status r = EvAccepted) rs)"

text \<open>The events that were answered as accepted, in order.\<close>

definition accepted_events :: "ingestion_result list \<Rightarrow> (event_env \<times> json) list \<Rightarrow> (event_env \<times> json) list" where
  "accepted_events rs es = map snd (filter (\<lambda>(r, ev). ir_status r = EvAccepted) (zip rs es))"

lemma accepted_events_length: "length rs = length es \<Longrightarrow> length (accepted_events rs es) = accepted_count rs"
  by (induction rs es rule: list_induct2) (auto simp: accepted_events_def accepted_count_def)

lemma process_seq_exact:
  assumes "repo_exact repo"
  shows "repo_exact (snd (process_seq collate sha256 cfg t es repo)) \<and>
    map_values (ar_audits (snd (process_seq collate sha256 cfg t es repo))) =
    map_values (ar_audits repo) @
      map (accepted_audit collate sha256) (accepted_events (fst (process_seq collate sha256 cfg t es repo)) es)"
  using assms
proof (induction es arbitrary: repo)
  case (Cons ev es)
  obtain env e where ev: "ev = (env, e)" by (cases ev)
  let ?p = "processEvent collate sha256 cfg t env e repo"
  have "repo_exact (snd ?p)" by (rule processEvent_exact(1) [OF Cons.prems])
  moreover have "ar_audits (snd ?p) = ar_audits repo @
      (if ir_status (fst ?p) = EvAccepted then [(json_key e, accepted_audit collate sha256 (env, e))] else [])"
    by (rule processEvent_exact(2) [OF Cons.prems])
  ultimately show ?case using Cons.IH [of "snd ?p"]
    by (simp add: ev case_prod_unfold Let_def accepted_events_def map_values_def)
qed (simp add: accepted_events_def)

lemma map_filter_get:
  "map_wf m \<Longrightarrow> List.map_filter (map_get m) (map fst (filter P m)) = map snd (filter P m)"
proof -
  assume wf: "map_wf m"
  have "map_get m (fst x) = Some (snd x)" if "x \<in> set m" for x
    using in_set_map_get [OF wf, of "fst x" "snd x"] that by simp
  then have "List.map_filter (map_get m) (map fst xs) = map snd xs" if "set xs \<subseteq> set m" for xs
    using that by (induction xs) (auto simp: map_filter_simps)
  then show ?thesis by simp
qed

lemma findByContractId_exact:
  assumes "repo_exact repo"
  shows "findByContractId repo c limit =
    take limit (sort_key (\<lambda>a. - ea_createdAt a) (filter (\<lambda>a. ea_contractId a = c) (map_values (ar_audits repo))))"
  using assms
  by (simp add: repo_exact_def findByContractId_def newest_audits_def map_filter_get map_values_def filter_map comp_def)

subsection \<open>Properties\<close>

text \<open>
  C36: with batches of size one, on a new repository, an event is accepted exactly when
  it is valid and no earlier valid event has its key; a later one with the same key is
  answered as duplicate when its payload hash is that of the accepted one, and refused
  otherwise.  The statistics count the accepted events, and the history of a contract
  lists the audits of the accepted events of that contract, newest first, each with the
  contract, event id, sequence, key and payload hash of its event.
\<close>

theorem ingestion_accepts_once:
  assumes "batchSize cfg \<le> 1"
    and "ingestion_processBatch collate sha256 cfg t es new_audit_repo = (rs, repo)"
  shows "length rs = length es
    \<and> (\<forall>j<length es. ir_status (rs ! j) =
         (if \<not> event_valid cfg t (es ! j) then EvRejected
          else case bound_hash collate sha256 cfg t (take j es) (json_key (snd (es ! j))) of
                 None \<Rightarrow> EvAccepted
               | Some h \<Rightarrow> if comparePayloadHashes (event_hash collate sha256 (snd (es ! j))) h
                           then EvDuplicate else EvRejected))
    \<and> getEventStatistics repo =
        \<lparr>st_total = accepted_count rs, st_accepted = accepted_count rs, st_rejected = 0, st_duplicates = 0\<rparr>
    \<and> (\<forall>c limit. findByContractId repo c limit =
         take limit (sort_key (\<lambda>a. - ea_createdAt a)
           (filter (\<lambda>a. ea_contractId a = c) (map (accepted_audit collate sha256) (accepted_events rs es)))))"
proof -
  have run: "process_seq collate sha256 cfg t es new_audit_repo = (rs, repo)"
    using assms by (simp add: ingestion_processBatch_def max_absorb1)
  have "stored_hash new_audit_repo k = None" for k
    by (simp add: stored_hash_def findByDeduplicationKey_def new_audit_repo_def)
  then have prior: "prior_hash collate sha256 cfg t xs new_audit_repo k = bound_hash collate sha256 cfg t xs k" for xs k
    by (simp add: prior_hash_def)
  have status: "ir_status (rs ! j) =
       (if \<not> event_valid cfg t (es ! j) then EvRejected
        else case bound_hash collate sha256 cfg t (take j es) (json_key (snd (es ! j))) of
               None \<Rightarrow> EvAccepted
             | Some h \<Rightarrow> if comparePayloadHashes (event_hash collate sha256 (snd (es ! j))) h
                         then EvDuplicate else EvRejected)" if "j < length es" for j
    using process_seq_status [OF that, of cfg t collate sha256 new_audit_repo]
      process_seq_invalid [OF that, of cfg t collate sha256 new_audit_repo]
    by (simp add: run prior)
  have len: "length rs = length es"
    using process_seq_length [of collate sha256 cfg t es new_audit_repo] by (simp add: run)
  have "map_values (ar_audits new_audit_repo) = []"
    by (simp add: new_audit_repo_def map_values_def map_empty_def)
  then have exact: "repo_exact repo"
    and audits: "map_values (ar_audits repo) = map (accepted_audit collate sha256) (accepted_events rs es)"
    using process_seq_exact [OF repo_exact_new, of collate sha256 cfg t es]
    by (simp_all add: run)
  have size: "map_size (ar_audits repo) = accepted_count rs"
    using arg_cong [OF audits, of length] accepted_events_length [OF len] by (simp add: map_size_def map_values_def)
  have "getEventStatistics repo =
      \<lparr>st_total = accepted_count rs, st_accepted = accepted_count rs, st_rejected = 0, st_duplicates = 0\<rparr>"
    using exact size by (simp add: getEventStatistics_def repo_exact_def map_size_keys)
  with len status show ?thesis using findByContractId_exact [OF exact] unfolding audits by blast
qed

definition sample_ingestion :: "int \<Rightarrow> ingestion_config" where
  "sample_ingestion n =
     \<lparr>enableStrictValidation = False, enablePayloadIntegrityCheck = True, maxEventAgeMs = 1000, batchSize = n\<rparr>"

definition sample_env :: event_env where
  "sample_env = \<lparr>en_id = ''audit_1'', en_begin = 1500, en_finish = 1501, en_correlationId = None\<rparr>"

definition sample_ingest :: json where
  "sample_ingest =
     JObj [(''contractId'', JStr ''c1''), (''eventId'', JStr ''e1''), (''sequence'', JNum 1),
           (''timestamp'', JNum 1000), (''payload'', JObj [])]"

lemma js_finite_small: "\<bar>x\<bar> \<le> 1000000 \<Longrightarrow> js_finite x"
  by (simp add: js_finite_def)

lemma sample_event_valid: "event_valid (sample_ingestion n) t (sample_env, sample_ingest)"
proof -
  have "toFiniteNumber (JNum 1000) = Some 1000" "toTimestampNumber (JNum 1000) = Some 1000"
    by (simp_all add: toFiniteNumber_def toTimestampNumber_def js_finite_small)
  moreover have "js_trim ''c1'' \<noteq> []" "js_trim ''e1'' \<noteq> []" by code_simp+
  ultimately show ?thesis
    by (simp add: event_valid_def validateEvent_def sample_ingest_def sample_env_def sample_ingestion_def
        validateEventEnvelopePreamble_def preamble_checks_def INGESTION_PREAMBLE_OPTIONS_def isRecord_def
        blank_field_def bad_sequence_def timestamp_check_def)
qed

theorem ingestion_accepts_once_witness:
  "map ir_status (fst (ingestion_processBatch sample_collate sample_sha (sample_ingestion 1) ''escrow''
     [(sample_env, sample_ingest), (sample_env, sample_ingest)] new_audit_repo)) = [EvAccepted, EvDuplicate] \<and>
   findByContractId (snd (ingestion_processBatch sample_collate sample_sha (sample_ingestion 1) ''escrow''
     [(sample_env, sample_ingest), (sample_env, sample_ingest)] new_audit_repo)) ''c1'' 10 =
     [accepted_audit sample_collate sample_sha (sample_env, sample_ingest)]"
proof -
  let ?es = "[(sample_env, sample_ingest), (sample_env, sample_ingest)]"
  let ?r = "ingestion_processBatch sample_collate sample_sha (sample_ingestion 1) ''escrow'' ?es new_audit_repo"
  note once = ingestion_accepts_once [of "sample_ingestion 1" sample_collate sample_sha "''escrow''" ?es "fst ?r" "snd ?r"]
  have "hex_digest (sample_sha x)" for x by (simp add: hex_digest_def sample_sha_def hex_char_def list_all_iff)
  then have r: "length (fst ?r) = 2" "ir_status (fst ?r ! 0) = EvAccepted" "ir_status (fst ?r ! 1) = EvDuplicate"
    using once
    by (simp_all add: sample_ingestion_def [of 1] All_less_Suc numeral_2_eq_2 bound_hash_def
        sample_event_valid [of 1, unfolded sample_ingestion_def] comparePayloadHashes_iff event_hash_def
        computePayloadHash_def)
  then obtain r0 r1 where rs: "fst ?r = [r0, r1]" "ir_status r0 = EvAccepted" "ir_status r1 = EvDuplicate"
    by (auto simp: length_Suc_conv numeral_2_eq_2)
  then have "accepted_events (fst ?r) ?es = [(sample_env, sample_ingest)]" by (simp add: accepted_events_def)
  moreover have "ea_contractId (accepted_audit sample_collate sample_sha (sample_env, sample_ingest)) = ''c1''"
    by (simp add: accepted_audit_def sample_ingest_def)
  ultimately show ?thesis using once rs by (simp add: sample_ingestion_def)
qed

text \<open>
  In a chunk of two, both copies of an event are looked up before either is saved: both
  are accepted, and one audit is stored.
\<close>

lemma event_begin_sample:
  "event_begin collate sha256 (sample_ingestion n) t sample_env sample_ingest repo =
   Awaiting (audit_begin collate sha256 sample_env (typed_event sample_ingest) repo)"
  using sample_event_valid [of n t] by (simp add: event_begin_def event_valid_def)

lemma chunk_accepts_twice:
  "map ir_status (fst (ingestion_processBatch collate sha256 (sample_ingestion 2) t
     [(sample_env, sample_ingest), (sample_env, sample_ingest)] new_audit_repo)) = [EvAccepted, EvAccepted]"
  by (simp add: ingestion_processBatch_def sample_ingestion_def [of 2] process_chunks.simps [of 2]
      process_chunks.simps [of _ _ _ _ _ "[]"] process_chunk_def
      event_begin_sample [of _ _ 2, unfolded sample_ingestion_def] event_finish_def audit_begin_def audit_finish_def
      findByDeduplicationKey_def new_audit_repo_def ingestion_answer_def case_prod_unfold Let_def)

text \<open>
  Rejecting an accepted event replaces its audit and leaves its key in the index of the
  accepted: the parts of the statistics exceed the total.
\<close>

lemma rejected_counted_twice:
  fixes collate :: "string \<Rightarrow> 'k :: linorder"
  assumes "findByDeduplicationKey repo (event_key event) = None" "repo = new_audit_repo"
    "repo1 = snd (audit_finish env (audit_begin collate sha256 env event repo) repo)"
    "repo2 = snd (rejectEvent collate sha256 env event reason repo1)"
  shows "getEventStatistics repo2 = \<lparr>st_total = 1, st_accepted = 1, st_rejected = 1, st_duplicates = 0\<rparr>"
  unfolding assms(2-4)
  by (simp add: audit_finish_def audit_begin_def findByDeduplicationKey_def new_audit_repo_def rejectEvent_def
      audit_save_def audit_record_def getEventStatistics_def index_keys_add index_keys_def [of map_empty]
      set_add_def Let_def map_size_set) (simp add: map_size_def map_empty_def)

end
