(* ===== verification/Idempotency.thy ===== *)
theory Idempotency
  imports Canonical JsMap
begin

text \<open>
  Idempotent execution of event handlers: the in-memory store with expiry and eviction
  (\<open>db/idempotencyStore.ts\<close>), \<open>runIdempotentEvent\<close> and the layer for replays
  (\<open>events/idempotency.ts\<close>), and the SQLite-backed store (\<open>events/idempotencyStore.ts\<close>).

  \<open>runIdempotentEvent\<close> awaits its handler between the lookup and the write and is split
  there.  The lemmas show for how long and against how many other keys a result is
  kept, and what two interleaved calls do.
\<close>

subsection \<open>The in-memory store\<close>

record 'r idem_record =
  id_payloadHash :: string
  id_result :: 'r
  id_createdAt :: int
  id_expiresAt :: int

record 'r idem_store =
  is_records :: "(string, 'r idem_record) jsmap"
  is_ttlMs :: int
  is_maxSize :: int

definition new_idem_store :: "int option \<Rightarrow> int option \<Rightarrow> 'r idem_store" where
  "new_idem_store ttlMs maxSize =
     \<lparr>is_records = map_empty,
      is_ttlMs = (case ttlMs of Some n \<Rightarrow> n | None \<Rightarrow> 60 * 60 * 1000),
      is_maxSize = (case maxSize of Some n \<Rightarrow> n | None \<Rightarrow> 10000)\<rparr>"

definition idem_get :: "int \<Rightarrow> string \<Rightarrow> 'r idem_store \<Rightarrow> 'r idem_record option \<times> 'r idem_store" where
  "idem_get now key s =
     (case map_get (is_records s) key of
        None \<Rightarrow> (None, s)
      | Some r \<Rightarrow> if id_expiresAt r \<le> now then (None, s\<lparr>is_records := map_delete key (is_records s)\<rparr>)
                  else (Some r, s))"

definition idem_getRaw :: "string \<Rightarrow> 'r idem_store \<Rightarrow> 'r idem_record option" where
  "idem_getRaw key s = map_get (is_records s) key"

definition idem_delete :: "string \<Rightarrow> 'r idem_store \<Rightarrow> 'r idem_store" where
  "idem_delete key s = s\<lparr>is_records := map_delete key (is_records s)\<rparr>"

definition idem_size :: "'r idem_store \<Rightarrow> nat" where
  "idem_size s = map_size (is_records s)"

definition idem_clear :: "'r idem_store \<Rightarrow> 'r idem_store" where
  "idem_clear s = s\<lparr>is_records := map_empty\<rparr>"

definition idem_purgeExpired :: "int \<Rightarrow> 'r idem_store \<Rightarrow> 'r idem_store \<times> nat" where
  "idem_purgeExpired now s =
     (let (m, purged) = map_reap (\<lambda>k r. id_expiresAt r \<le> now) (is_records s)
      in (s\<lparr>is_records := m\<rparr>, purged))"

definition idem_make_room :: "int \<Rightarrow> string \<Rightarrow> 'r idem_store \<Rightarrow> 'r idem_store" where
  "idem_make_room now key s =
     (if is_maxSize s \<le> int (idem_size s) \<and> \<not> map_has (is_records s) key
      then let s1 = fst (idem_purgeExpired now s)
           in if is_maxSize s1 \<le> int (idem_size s1)
              then (case map_keys (is_records s1) of [] \<Rightarrow> s1 | k # _ \<Rightarrow> idem_delete k s1)
              else s1
      else s)"

definition idem_set ::
  "int \<Rightarrow> string \<Rightarrow> string \<Rightarrow> 'r \<Rightarrow> int option \<Rightarrow> int option \<Rightarrow> 'r idem_store \<Rightarrow> 'r idem_store" where
  "idem_set now key payloadHash result createdAt expiresAt s =
     (let s1 = idem_make_room now key s
      in s1\<lparr>is_records := map_set key
              \<lparr>id_payloadHash = payloadHash, id_result = result,
               id_createdAt = (case createdAt of Some c \<Rightarrow> c | None \<Rightarrow> now),
               id_expiresAt = (case expiresAt of Some e \<Rightarrow> e | None \<Rightarrow> now + is_ttlMs s1)\<rparr>
              (is_records s1)\<rparr>)"

subsection \<open>Running a handler once\<close>

datatype idem_error = KeyRequired | IdempotencyConflictError string

record 'r idem_outcome =
  io_result :: 'r
  io_replayed :: bool
  io_payloadHash :: string

text \<open>Before the handler: an answer, or the key and the hash with which the handler runs.\<close>

datatype 'r idem_start =
    Answered "(idem_error, 'r idem_outcome) result"
  | RunHandler string string

definition run_enter ::
  "(string \<Rightarrow> 'k :: linorder) \<Rightarrow> (string \<Rightarrow> string) \<Rightarrow> int \<Rightarrow> string \<Rightarrow> json \<Rightarrow> 'r idem_store
   \<Rightarrow> 'r idem_start \<times> 'r idem_store" where
  "run_enter collate sha256 now key payload s =
     (let normalizedKey = js_trim key; payloadHash = hashEventPayload collate sha256 payload
      in if normalizedKey = [] then (Answered (Throw KeyRequired), s)
         else case idem_getRaw normalizedKey s of
                Some existing \<Rightarrow>
                  if id_expiresAt existing \<le> now
                  then (RunHandler normalizedKey payloadHash, idem_delete normalizedKey s)
                  else if constantTimeEqual (id_payloadHash existing) payloadHash
                  then (Answered (Ok \<lparr>io_result = id_result existing, io_replayed = True,
                                      io_payloadHash = payloadHash\<rparr>), s)
                  else (Answered (Throw (IdempotencyConflictError normalizedKey)), s)
              | None \<Rightarrow> (RunHandler normalizedKey payloadHash, s))"

definition RESULT_TTL :: int where
  "RESULT_TTL = 24 * 60 * 60 * 1000"

definition run_finish ::
  "int \<Rightarrow> string \<Rightarrow> string \<Rightarrow> 'r \<Rightarrow> 'r idem_store \<Rightarrow> 'r idem_outcome \<times> 'r idem_store" where
  "run_finish now key payloadHash result s =
     (\<lparr>io_result = result, io_replayed = False, io_payloadHash = payloadHash\<rparr>,
      idem_set now key payloadHash result (Some now) (Some (now + RESULT_TTL)) s)"

text \<open>The layer that marks replayed events.\<close>

definition isEventProcessed :: "string \<Rightarrow> string list \<Rightarrow> bool" where
  "isEventProcessed eventId processed \<longleftrightarrow> eventId \<in> set processed"

definition markEventProcessed :: "string \<Rightarrow> string list \<Rightarrow> string list" where
  "markEventProcessed eventId processed = (if eventId \<in> set processed then processed else processed @ [eventId])"

subsection \<open>The SQLite store\<close>

record idem_config =
  ic_ttlMs :: int
  ic_gracePeriodMs :: int
  ic_maxRetries :: int
  ic_retryDelayMs :: int
  ic_timestampWindowMs :: int

definition IDEMPOTENCY_DEFAULT_CONFIG :: idem_config where
  "IDEMPOTENCY_DEFAULT_CONFIG =
     \<lparr>ic_ttlMs = 24 * 60 * 60 * 1000, ic_gracePeriodMs = 60 * 1000, ic_maxRetries = 3, ic_retryDelayMs = 10,
      ic_timestampWindowMs = 5 * 60 * 1000\<rparr>"

definition computeIdempotencyKey ::
  "(string \<Rightarrow> string \<Rightarrow> string) \<Rightarrow> string option \<Rightarrow> idem_config \<Rightarrow> string \<Rightarrow> string \<Rightarrow> string \<Rightarrow> int \<Rightarrow> string" where
  "computeIdempotencyKey hmac secret cfg providerId eventType eventId timestamp =
     (let windowedTimestamp = (timestamp div ic_timestampWindowMs cfg) * ic_timestampWindowMs cfg;
          text = providerId @ '':'' @ eventType @ '':'' @ eventId @ '':'' @ show_int windowedTimestamp
      in hmac (case secret of Some k \<Rightarrow> k | None \<Rightarrow> ''default-idempotency-secret'') text)"

record idem_entry =
  ie_idempotencyKey :: string
  ie_providerId :: string
  ie_eventType :: string
  ie_eventId :: string
  ie_responseBody :: string
  ie_createdAt :: int
  ie_expiresAt :: int

type_synonym idem_table = "idem_entry list"

definition sqlstore_get :: "idem_config \<Rightarrow> int \<Rightarrow> string \<Rightarrow> idem_table \<Rightarrow> idem_entry option" where
  "sqlstore_get cfg now key rows =
     find (\<lambda>e. ie_idempotencyKey e = key \<and> now - ic_gracePeriodMs cfg < ie_expiresAt e) rows"

definition sqlstore_insert :: "idem_entry \<Rightarrow> idem_table \<Rightarrow> bool \<times> idem_table" where
  "sqlstore_insert entry rows =
     (if list_ex (\<lambda>e. ie_idempotencyKey e = ie_idempotencyKey entry) rows then (False, rows)
      else (True, rows @ [entry]))"

definition sqlstore_updateResponse :: "string \<Rightarrow> string \<Rightarrow> idem_table \<Rightarrow> idem_table" where
  "sqlstore_updateResponse key body rows =
     map (\<lambda>e. if ie_idempotencyKey e = key then e\<lparr>ie_responseBody := body\<rparr> else e) rows"

definition sqlstore_purgeExpired :: "int \<Rightarrow> idem_table \<Rightarrow> nat \<times> idem_table" where
  "sqlstore_purgeExpired now rows =
     (length (filter (\<lambda>e. ie_expiresAt e \<le> now) rows), filter (\<lambda>e. \<not> ie_expiresAt e \<le> now) rows)"

text \<open>
  \<open>withRetry\<close>: the outcome of each attempt is a function of its number, an error with
  whether its message is that of a busy database.  The result is the answer and the
  delays slept before it.
\<close>

fun busy_retry ::
  "idem_config \<Rightarrow> (nat \<Rightarrow> (bool \<times> 'e, 'a) result) \<Rightarrow> nat \<Rightarrow> nat \<Rightarrow> ('e option, 'a) result \<times> rat list" where
  "busy_retry cfg outcome attempt 0 = (Throw None, [])"
| "busy_retry cfg outcome attempt (Suc left) =
     (case outcome attempt of
        Ok a \<Rightarrow> (Ok a, [])
      | Throw (busy, e) \<Rightarrow>
          if busy \<and> int attempt < ic_maxRetries cfg
          then let (r, ds) = busy_retry cfg outcome (Suc attempt) left
               in (r, of_int (ic_retryDelayMs cfg) * (5 / 2) ^ attempt # ds)
          else (Throw (Some e), []))"

definition sqlstore_withRetry ::
  "idem_config \<Rightarrow> (nat \<Rightarrow> (bool \<times> 'e, 'a) result) \<Rightarrow> ('e option, 'a) result \<times> rat list" where
  "sqlstore_withRetry cfg outcome = busy_retry cfg outcome 0 (nat (ic_maxRetries cfg + 1))"

subsection \<open>How long a result is kept\<close>

text \<open>The record of a key is stored, with at most \<open>n\<close> records behind it.\<close>

definition kept :: "string \<Rightarrow> 'r idem_record \<Rightarrow> nat \<Rightarrow> (string, 'r idem_record) jsmap \<Rightarrow> bool" where
  "kept k r n m \<longleftrightarrow> map_wf m \<and> (\<exists>pre post. m = pre @ (k, r) # post \<and> length post \<le> n)"

lemma kept_get: "kept k r n m \<Longrightarrow> map_get m k = Some r"
  unfolding kept_def using in_set_map_get [of m k r] by auto

lemma kept_filter:
  assumes "kept k r n m" "P (k, r)"
  shows "kept k r n (filter P m)"
proof -
  obtain pre post where m: "m = pre @ (k, r) # post" "length post \<le> n" "map_wf m"
    using assms(1) by (auto simp: kept_def)
  then have "filter P m = filter P pre @ (k, r) # filter P post" "length (filter P post) \<le> n"
    using assms(2) le_trans [OF length_filter_le m(2)] by simp_all
  with m(3) show ?thesis unfolding kept_def by blast
qed

lemma kept_delete: "kept k r n m \<Longrightarrow> k' \<noteq> k \<Longrightarrow> kept k r n (map_delete k' m)"
  unfolding map_delete_def by (rule kept_filter) simp_all

lemma kept_reap:
  assumes "kept k r n m" "\<not> P k r"
  shows "kept k r n (fst (map_reap P m))"
proof -
  have "map_wf m" using assms(1) by (simp add: kept_def)
  then show ?thesis using kept_filter [OF assms(1), of "\<lambda>e. \<not> P (fst e) (snd e)"] assms(2)
    by (simp add: map_reap_eq)
qed

lemma map_set_known: "map_get m k = Some v \<Longrightarrow> length (map_set k w m) = length m"
  unfolding map_get_def by (induction k w m rule: map_set.induct) auto

lemma map_set_split:
  "k' \<noteq> k \<Longrightarrow> map_get (pre @ (k, r) # post) k' = Some v \<Longrightarrow>
   \<exists>pre' post'. map_set k' w (pre @ (k, r) # post) = pre' @ (k, r) # post' \<and> length post' = length post"
proof (induction pre)
  case Nil
  then have "map_get post k' = Some v" by (simp add: map_get_def)
  with Nil show ?case
    by (intro exI [of _ "[]"] exI [of _ "map_set k' w post"]) (simp add: map_set_known)
next
  case (Cons e pre)
  obtain a b where e: "e = (a, b)" by (cases e)
  show ?case
  proof (cases "k' = a")
    case True
    then show ?thesis by (intro exI [of _ "(k', w) # pre"] exI [of _ post]) (simp add: e)
  next
    case False
    then obtain pre' post' where "map_set k' w (pre @ (k, r) # post) = pre' @ (k, r) # post'"
        "length post' = length post"
      using Cons by (auto simp: e map_get_def)
    with False show ?thesis by (intro exI [of _ "e # pre'"] exI [of _ post']) (simp add: e)
  qed
qed

lemma kept_set:
  assumes "kept k r n m" "k' \<noteq> k"
  shows "kept k r (Suc n) (map_set k' w m)"
proof -
  obtain pre post where m: "m = pre @ (k, r) # post" "length post \<le> n" and wf: "map_wf m"
    using assms(1) by (auto simp: kept_def)
  have "\<exists>pre' post'. map_set k' w m = pre' @ (k, r) # post' \<and> length post' \<le> Suc n"
  proof (cases "map_get m k'")
    case None
    then have "map_set k' w m = pre @ (k, r) # (post @ [(k', w)])" using m by (simp add: map_set_fresh)
    with m(2) show ?thesis by fastforce
  next
    case (Some v)
    with map_set_split [OF assms(2)] m show ?thesis by fastforce
  qed
  with wf show ?thesis by (simp add: kept_def)
qed

text \<open>Making room evicts the first record, which is not ours while few follow it.\<close>

lemma kept_make_room:
  assumes "kept k r n (is_records s)" "int n + 1 < is_maxSize s" "now < id_expiresAt r"
  shows "kept k r n (is_records (idem_make_room now key s)) \<and> is_maxSize (idem_make_room now key s) = is_maxSize s"
proof -
  let ?s1 = "fst (idem_purgeExpired now s)"
  have k1: "kept k r n (is_records ?s1)" and max1: "is_maxSize ?s1 = is_maxSize s"
    using kept_reap [OF assms(1), of "\<lambda>k r. id_expiresAt r \<le> now"] assms(3)
    by (simp_all add: idem_purgeExpired_def case_prod_unfold Let_def)
  have "kept k r n (is_records (idem_delete k0 ?s1))"
    if full: "is_maxSize ?s1 \<le> int (idem_size ?s1)" and first: "map_keys (is_records ?s1) = k0 # ks" for k0 ks
  proof -
    obtain pre post where m: "is_records ?s1 = pre @ (k, r) # post" "length post \<le> n" and wf: "map_wf (is_records ?s1)"
      using k1 by (auto simp: kept_def)
    have "length (is_records ?s1) = length pre + 1 + length post" using m(1) by simp
    then have "pre \<noteq> []" using full max1 m(2) assms(2) by (auto simp: idem_size_def map_size_def)
    then have "k0 \<noteq> k" using first wf m(1) by (cases pre) (auto simp: map_keys_def map_wf_def)
    with k1 show ?thesis by (simp add: idem_delete_def kept_delete)
  qed
  with k1 max1 assms(1) show ?thesis
    by (auto simp: idem_make_room_def Let_def idem_delete_def split: list.splits)
qed

lemma make_room_max [simp]: "is_maxSize (idem_make_room now key s) = is_maxSize s"
  by (auto simp: idem_make_room_def idem_purgeExpired_def idem_delete_def Let_def case_prod_unfold split: list.splits)

lemma kept_idem_set:
  assumes "kept k r n (is_records s)" "int n + 1 < is_maxSize s" "now < id_expiresAt r" "key \<noteq> k"
  shows "kept k r (Suc n) (is_records (idem_set now key h x c e s))
    \<and> is_maxSize (idem_set now key h x c e s) = is_maxSize s"
  using kept_set [OF conjunct1 [OF kept_make_room [OF assms(1-3), of key]] assms(4)]
  by (simp add: idem_set_def Let_def)

text \<open>Setting an absent key leaves nothing behind it.\<close>

lemma map_wf_make_room: "map_wf (is_records s) \<Longrightarrow> map_wf (is_records (idem_make_room now key s))"
  by (auto simp: idem_make_room_def idem_purgeExpired_def idem_delete_def Let_def case_prod_unfold split: list.splits)

lemma make_room_absent:
  assumes "map_wf (is_records s)" "map_get (is_records s) key = None"
  shows "map_get (is_records (idem_make_room now key s)) key = None"
  using assms
  by (auto simp: idem_make_room_def idem_purgeExpired_def idem_delete_def Let_def case_prod_unfold map_get_reap
      split: list.splits)

lemma run_finish_kept:
  assumes "map_wf (is_records s)" "map_get (is_records s) key = None"
  shows "kept key \<lparr>id_payloadHash = h, id_result = x, id_createdAt = now, id_expiresAt = now + RESULT_TTL\<rparr> 0
      (is_records (snd (run_finish now key h x s)))"
    and "is_maxSize (snd (run_finish now key h x s)) = is_maxSize s"
proof -
  let ?m = "is_records (idem_make_room now key s)"
  have "map_set key r ?m = ?m @ [(key, r)]" for r
    by (rule map_set_fresh) (rule make_room_absent [OF assms])
  moreover have "map_wf (map_set key r ?m)" for r using map_wf_make_room [OF assms(1)] by simp
  ultimately show "kept key \<lparr>id_payloadHash = h, id_result = x, id_createdAt = now, id_expiresAt = now + RESULT_TTL\<rparr> 0
      (is_records (snd (run_finish now key h x s)))"
    by (auto simp: kept_def run_finish_def idem_set_def Let_def)
qed (simp add: run_finish_def idem_set_def Let_def)

subsection \<open>Properties\<close>

datatype 'r idem_op =
    Enter int string json
  | Finish int string string 'r
  | Sweep int

fun op_time :: "'r idem_op \<Rightarrow> int" where
  "op_time (Enter now key payload) = now"
| "op_time (Finish now key h x) = now"
| "op_time (Sweep now) = now"

fun finishes_key :: "'r idem_op \<Rightarrow> string option" where
  "finishes_key (Finish now key h x) = Some key"
| "finishes_key _ = None"

fun idem_step :: "(string \<Rightarrow> 'k :: linorder) \<Rightarrow> (string \<Rightarrow> string) \<Rightarrow> 'r idem_op \<Rightarrow> 'r idem_store \<Rightarrow> 'r idem_store" where
  "idem_step collate sha256 (Enter now key payload) s = snd (run_enter collate sha256 now key payload s)"
| "idem_step collate sha256 (Finish now key h x) s = snd (run_finish now key h x s)"
| "idem_step collate sha256 (Sweep now) s = fst (idem_purgeExpired now s)"

definition finish_count :: "'r idem_op list \<Rightarrow> nat" where
  "finish_count ops = length (filter (\<lambda>p. finishes_key p \<noteq> None) ops)"

lemma finish_count_simps [simp]:
  "finish_count [] = 0"
  "finish_count (p # ops) = (if finishes_key p = None then finish_count ops else Suc (finish_count ops))"
  by (simp_all add: finish_count_def)

lemma run_enter_kept:
  assumes "kept k r n (is_records s)" "now < id_expiresAt r"
  shows "kept k r n (is_records (snd (run_enter collate sha256 now key payload s)))"
    "is_maxSize (snd (run_enter collate sha256 now key payload s)) = is_maxSize s"
  using assms kept_get [OF assms(1)] kept_delete [OF assms(1), of "js_trim key"]
  by (cases "js_trim key = k"; auto simp: run_enter_def Let_def idem_getRaw_def idem_delete_def split: option.splits)+

lemma idem_steps_kept:
  assumes "kept k r n (is_records s)" "\<forall>p\<in>set ops. op_time p < id_expiresAt r \<and> finishes_key p \<noteq> Some k"
    "int (n + finish_count ops) < is_maxSize s"
  shows "kept k r (n + finish_count ops) (is_records (fold (idem_step collate sha256) ops s))"
  using assms
proof (induction ops arbitrary: n s)
  case (Cons p ops)
  let ?s = "idem_step collate sha256 p s"
  have "kept k r (n + (if finishes_key p = None then 0 else 1)) (is_records ?s) \<and> is_maxSize ?s = is_maxSize s"
  proof (cases p)
    case (Enter now key payload)
    with Cons.prems run_enter_kept [OF Cons.prems(1), of now collate sha256 key payload] show ?thesis by simp
  next
    case (Finish now key h x)
    with Cons.prems kept_idem_set [OF Cons.prems(1), of now key h x "Some now" "Some (now + RESULT_TTL)"]
    show ?thesis by (simp add: run_finish_def)
  next
    case (Sweep now)
    with Cons.prems kept_reap [OF Cons.prems(1), of "\<lambda>k r. id_expiresAt r \<le> now"] show ?thesis
      by (simp add: idem_purgeExpired_def case_prod_unfold Let_def)
  qed
  then show ?case
    using Cons.IH [of "n + (if finishes_key p = None then 0 else 1)" ?s] Cons.prems
    by (auto split: if_splits)
qed simp

text \<open>
  C37: once the handler of a key without a record has finished, the key is bound for 24
  hours.  Whatever else happens meanwhile, provided no other handler of the same key
  finishes (calls that overlap each run theirs, and the last result stays) and fewer than
  \<open>maxSize\<close> handlers of other keys do, a call with the key and an equal payload hash gets
  the stored result without running its handler, and one with another payload hash is
  refused as a conflict.
\<close>

theorem result_replayed:
  assumes fresh: "map_wf (is_records s)" "map_get (is_records s) k = None"
    and key: "js_trim key = k" "k \<noteq> []"
    and others: "\<forall>p\<in>set ops. op_time p < t + RESULT_TTL \<and> finishes_key p \<noteq> Some k"
      "int (finish_count ops) < is_maxSize s" "now < t + RESULT_TTL"
    and s': "s' = fold (idem_step collate sha256) ops (snd (run_finish t k h x s))"
  shows "run_enter collate sha256 now key payload s' =
    (Answered (if constantTimeEqual h (hashEventPayload collate sha256 payload)
               then Ok \<lparr>io_result = x, io_replayed = True,
                        io_payloadHash = hashEventPayload collate sha256 payload\<rparr>
               else Throw (IdempotencyConflictError k)), s')"
proof -
  let ?r = "\<lparr>id_payloadHash = h, id_result = x, id_createdAt = t, id_expiresAt = t + RESULT_TTL\<rparr>"
  have "kept k ?r (finish_count ops) (is_records s')"
    using idem_steps_kept [OF run_finish_kept(1) [OF fresh, of h x t], of ops collate sha256] others
      run_finish_kept(2) [OF fresh, of t h x] s' by simp
  then have "idem_getRaw k s' = Some ?r" by (simp add: idem_getRaw_def kept_get)
  with key others(3) show ?thesis by (simp add: run_enter_def Let_def)
qed

theorem result_replayed_witness:
  "fst (run_enter sample_collate sample_sha 50 '' key '' sample_payload
     (snd (run_finish 20 ''other'' (sample_sha []) 8
       (snd (run_finish 10 ''key'' (hashEventPayload sample_collate sample_sha sample_payload) 7
         (new_idem_store None (Some 2)))))))
   = Answered (Ok \<lparr>io_result = (7 :: int), io_replayed = True,
       io_payloadHash = hashEventPayload sample_collate sample_sha sample_payload\<rparr>)"
proof -
  have trim: "js_trim '' key '' = ''key''" by code_simp
  have "hex_digest (hashEventPayload sample_collate sample_sha sample_payload)"
    by (simp add: hashEventPayload_def hex_digest_def sample_sha_def hex_char_def list_all_iff)
  then have "constantTimeEqual (hashEventPayload sample_collate sample_sha sample_payload)
      (hashEventPayload sample_collate sample_sha sample_payload)"
    by (simp add: constantTimeEqual_compare comparePayloadHashes_iff)
  then show ?thesis
    using result_replayed [of "new_idem_store None (Some 2)" "''key''" "'' key ''"
        "[Finish 20 ''other'' (sample_sha []) 8]" 10 50 _ sample_collate sample_sha
        "hashEventPayload sample_collate sample_sha sample_payload" "7 :: int" sample_payload] trim
    by (simp add: new_idem_store_def RESULT_TTL_def)
qed

text \<open>Two calls that both look up before either handler finishes both run their handler.\<close>

lemma handler_runs_twice:
  assumes "map_get (is_records s) (js_trim key) = None" "js_trim key \<noteq> []"
  shows "fst (run_enter collate sha256 now key payload s) =
      RunHandler (js_trim key) (hashEventPayload collate sha256 payload)"
    "fst (run_enter collate sha256 now' key payload (snd (run_enter collate sha256 now key payload s))) =
      RunHandler (js_trim key) (hashEventPayload collate sha256 payload)"
  using assms by (simp_all add: run_enter_def idem_getRaw_def Let_def)

subsection \<open>The SQLite store\<close>

text \<open>
  An insert succeeds for one caller only, and the inserted entry is found until it
  expires.
\<close>

lemma sqlstore_insert_once:
  assumes "sqlstore_insert e rows = (True, rows')"
  shows "fst (sqlstore_insert e' rows') = (ie_idempotencyKey e' \<noteq> ie_idempotencyKey e \<and> fst (sqlstore_insert e' rows))"
    "now - ic_gracePeriodMs cfg < ie_expiresAt e \<Longrightarrow> sqlstore_get cfg now (ie_idempotencyKey e) rows' = Some e"
proof -
  have e: "\<not> list_ex (\<lambda>f. ie_idempotencyKey f = ie_idempotencyKey e) rows" and rows': "rows' = rows @ [e]"
    using assms by (auto simp: sqlstore_insert_def split: if_splits)
  show "fst (sqlstore_insert e' rows') = (ie_idempotencyKey e' \<noteq> ie_idempotencyKey e \<and> fst (sqlstore_insert e' rows))"
    by (auto simp: sqlstore_insert_def rows')
  assume "now - ic_gracePeriodMs cfg < ie_expiresAt e"
  moreover have "find (\<lambda>f. ie_idempotencyKey f = ie_idempotencyKey e \<and> now - ic_gracePeriodMs cfg < ie_expiresAt f) rows = None"
    using e by (auto simp: find_None_iff list_ex_iff)
  moreover have "find P (xs @ [y]) = (case find P xs of Some z \<Rightarrow> Some z | None \<Rightarrow> if P y then Some y else None)"
    for P and xs :: idem_table and y by (induction xs) auto
  ultimately show "sqlstore_get cfg now (ie_idempotencyKey e) rows' = Some e"
    by (simp add: sqlstore_get_def rows')
qed

text \<open>
  Past the grace period an entry that was not purged is not found and still blocks the
  insert: the event is reported as a duplicate that has no response.
\<close>

lemma expired_entry_blocks:
  assumes "ie_expiresAt e + ic_gracePeriodMs cfg \<le> now"
  shows "sqlstore_get cfg now (ie_idempotencyKey e) [e] = None"
    "sqlstore_insert (e\<lparr>ie_createdAt := now\<rparr>) [e] = (False, [e])"
  using assms by (simp_all add: sqlstore_get_def sqlstore_insert_def)

text \<open>A purge removes entries that the grace period still keeps readable.\<close>

lemma purge_ignores_grace:
  assumes "ie_expiresAt e \<le> now" "now - ic_gracePeriodMs cfg < ie_expiresAt e"
  shows "sqlstore_get cfg now (ie_idempotencyKey e) [e] = Some e"
    "sqlstore_get cfg now (ie_idempotencyKey e) (snd (sqlstore_purgeExpired now [e])) = None"
  using assms by (simp_all add: sqlstore_get_def sqlstore_purgeExpired_def)

text \<open>Retrying: the calls, the delays and the answer.\<close>

lemma busy_retry_delays:
  "snd (sqlstore_withRetry IDEMPOTENCY_DEFAULT_CONFIG (\<lambda>n. Throw (True, e))) = [10, 25, 125 / 2]"
  by (simp add: sqlstore_withRetry_def IDEMPOTENCY_DEFAULT_CONFIG_def eval_nat_numeral)

lemma busy_retry_bound: "length (snd (busy_retry cfg outcome a n)) \<le> n"
  by (induction cfg outcome a n rule: busy_retry.induct)
    (auto simp: case_prod_unfold Let_def split: sum.splits prod.splits)

lemma busy_retry_answer:
  assumes "fst (busy_retry cfg outcome a n) = Ok x"
  shows "\<exists>i<n. outcome (a + i) = Ok x \<and> (\<forall>j<i. \<exists>e. outcome (a + j) = Throw (True, e))"
  using assms
proof (induction n arbitrary: a)
  case (Suc n)
  show ?case
  proof (cases "outcome a")
    case (Inl be)
    obtain b e where be: "be = (b, e)" by (cases be)
    have "b" "fst (busy_retry cfg outcome (Suc a) n) = Ok x"
      using Suc.prems Inl be by (auto simp: case_prod_unfold Let_def split: if_splits)
    with Suc.IH obtain i where i: "i < n" "outcome (Suc a + i) = Ok x" "b"
        "\<forall>j<i. \<exists>e. outcome (Suc a + j) = Throw (True, e)" by blast
    have "\<exists>e. outcome (a + j) = Throw (True, e)" if "j < Suc i" for j
      using that i Inl be by (cases j) auto
    with i show ?thesis by (intro exI [of _ "Suc i"]) auto
  next
    case (Inr y)
    with Suc show ?thesis by (intro exI [of _ 0]) simp
  qed
qed simp

end
