(* ===== verification/Authorization.thy ===== *)
theory Authorization
  imports EventEnvelope
begin

text \<open>
  Authentication and access control: the permission matrix and its evaluation
  (\<open>lib/authorization.ts\<close>, \<open>lib/types.ts\<close>), the middleware that authenticates a request
  and checks a permission (\<open>middleware/authorization.ts\<close>, \<open>middleware/auth.ts\<close>,
  \<open>lib/authHelpers.ts\<close>), and the older role table with its unsigned tokens
  (\<open>auth/roles.ts\<close>, \<open>auth/authorize.ts\<close>, \<open>auth/authenticate.ts\<close>, \<open>auth/middleware.ts\<close>).

  Resources, actions and roles are the strings that reach the code at run time.  The
  routes pass literals as resource and action, none of which is the name of a member of
  \<open>Object.prototype\<close>.  \<open>verify\<close> is \<open>jwt.verify\<close> with the secret and the options of
  \<open>auth/jwtConfig.ts\<close>; \<open>parse_token\<close> decodes base64 and parses JSON.
\<close>

subsection \<open>The permission matrix\<close>

datatype cell = Deny | Allow | Own

definition ALL_ROLES :: "string list" where
  "ALL_ROLES = [''admin'', ''auditor'', ''client'', ''freelancer'']"

definition isValidRole :: "json \<Rightarrow> bool" where
  "isValidRole value = (case value of JStr s \<Rightarrow> s \<in> set ALL_ROLES | _ \<Rightarrow> False)"

definition role_cells :: "cell \<Rightarrow> cell \<Rightarrow> cell \<Rightarrow> cell \<Rightarrow> (string \<times> cell) list" where
  "role_cells admin auditor client freelancer =
     [(''admin'', admin), (''auditor'', auditor), (''client'', client), (''freelancer'', freelancer)]"

type_synonym permission_matrix = "(string \<times> (string \<times> (string \<times> cell) list) list) list"

definition PERMISSION_MATRIX :: permission_matrix where
  "PERMISSION_MATRIX =
    [(''users'',
      [(''create'', role_cells Allow Deny Deny Deny),
       (''read'', role_cells Allow Allow Deny Deny),
       (''update'', role_cells Allow Deny Deny Deny),
       (''delete'', role_cells Allow Deny Deny Deny),
       (''list'', role_cells Allow Allow Deny Deny)]),
     (''jobs'',
      [(''create'', role_cells Allow Deny Allow Deny),
       (''read'', role_cells Allow Allow Allow Allow),
       (''update'', role_cells Allow Deny Own Deny),
       (''delete'', role_cells Allow Deny Own Deny),
       (''list'', role_cells Allow Allow Allow Allow)]),
     (''proposals'',
      [(''create'', role_cells Allow Deny Deny Allow),
       (''read'', role_cells Allow Allow Own Own),
       (''update'', role_cells Allow Deny Deny Own),
       (''delete'', role_cells Allow Deny Deny Own),
       (''list'', role_cells Allow Allow Own Own)]),
     (''contracts'',
      [(''create'', role_cells Allow Deny Allow Deny),
       (''read'', role_cells Allow Allow Own Own),
       (''update'', role_cells Allow Deny Own Own),
       (''delete'', role_cells Allow Deny Deny Deny),
       (''list'', role_cells Allow Allow Own Own)]),
     (''payments'',
      [(''create'', role_cells Allow Deny Allow Deny),
       (''read'', role_cells Allow Allow Own Own),
       (''update'', role_cells Allow Deny Deny Deny),
       (''delete'', role_cells Allow Deny Deny Deny),
       (''list'', role_cells Allow Allow Own Own)]),
     (''reviews'',
      [(''create'', role_cells Allow Deny Allow Allow),
       (''read'', role_cells Allow Allow Allow Allow),
       (''update'', role_cells Allow Deny Own Own),
       (''delete'', role_cells Allow Deny Deny Deny),
       (''list'', role_cells Allow Allow Allow Allow)]),
     (''reports'',
      [(''create'', role_cells Allow Deny Deny Deny),
       (''read'', role_cells Allow Allow Deny Deny),
       (''update'', role_cells Allow Deny Deny Deny),
       (''delete'', role_cells Allow Deny Deny Deny),
       (''list'', role_cells Allow Allow Deny Deny)]),
     (''settings'',
      [(''create'', role_cells Allow Deny Deny Deny),
       (''read'', role_cells Allow Allow Own Own),
       (''update'', role_cells Allow Deny Own Own),
       (''delete'', role_cells Allow Deny Deny Deny),
       (''list'', role_cells Allow Allow Deny Deny)]),
     (''disputes'',
      [(''create'', role_cells Allow Deny Allow Allow),
       (''read'', role_cells Allow Allow Own Own),
       (''update'', role_cells Allow Deny Own Deny),
       (''delete'', role_cells Allow Deny Deny Deny),
       (''list'', role_cells Allow Allow Own Own)]),
     (''health'',
      [(''read'', role_cells Allow Allow Allow Allow)])]"

record user =
  u_id :: json
  u_email :: json
  u_role :: string

record authorization_result =
  granted :: bool
  auth_reason :: string

definition quoted :: "string \<Rightarrow> string" where
  "quoted s = [CHR 0x27] @ s @ [CHR 0x27]"

definition isAuthorized :: "user \<Rightarrow> string \<Rightarrow> string \<Rightarrow> string option \<Rightarrow> authorization_result" where
  "isAuthorized user resource action resourceOwnerId =
     (case map_of PERMISSION_MATRIX resource of
        None \<Rightarrow> \<lparr>granted = False, auth_reason = ''Explicit deny: resource '' @ quoted resource
                   @ '' is not registered in the permission matrix.''\<rparr>
      | Some resourceEntry \<Rightarrow>
          (case map_of resourceEntry action of
             None \<Rightarrow> \<lparr>granted = False, auth_reason = ''Explicit deny: action '' @ quoted action
                        @ '' on resource '' @ quoted resource @ '' is not registered in the permission matrix.''\<rparr>
           | Some actionEntry \<Rightarrow>
               (case map_of actionEntry (u_role user) of
                  None \<Rightarrow> \<lparr>granted = False, auth_reason = ''Explicit deny: role '' @ quoted (u_role user)
                             @ '' is not registered in the permission matrix.''\<rparr>
                | Some Deny \<Rightarrow> \<lparr>granted = False, auth_reason = ''Role '' @ quoted (u_role user) @ '' may not ''
                             @ quoted action @ '' '' @ quoted resource @ ''.''\<rparr>
                | Some Allow \<Rightarrow> \<lparr>granted = True, auth_reason = ''Permission granted.''\<rparr>
                | Some Own \<Rightarrow>
                    if u_role user = ''admin'' then \<lparr>granted = True, auth_reason = ''Admin bypass.''\<rparr>
                    else (case resourceOwnerId of
                            None \<Rightarrow> \<lparr>granted = False, auth_reason = ''Ownership could not be verified.''\<rparr>
                          | Some owner \<Rightarrow>
                              if JStr owner \<noteq> u_id user
                              then \<lparr>granted = False, auth_reason = ''Resource is owned by a different user.''\<rparr>
                              else \<lparr>granted = True, auth_reason = ''Permission granted (owner).''\<rparr>))))"

record permission =
  pm_role :: string
  pm_resource :: string
  pm_action :: string
  pm_ownOnly :: bool

definition FLAT_PERMISSION_LIST :: "permission list" where
  "FLAT_PERMISSION_LIST =
     concat (map (\<lambda>(resource, actions).
       concat (map (\<lambda>(action, roles).
         map (\<lambda>(role, c). \<lparr>pm_role = role, pm_resource = resource, pm_action = action, pm_ownOnly = (c = Own)\<rparr>)
           (filter (\<lambda>(role, c). c \<noteq> Deny) roles)) actions)) PERMISSION_MATRIX)"

subsection \<open>The middleware\<close>

definition extractBearerToken :: "string option \<Rightarrow> string option" where
  "extractBearerToken header =
     (case header of
        None \<Rightarrow> None
      | Some h \<Rightarrow> if h = [] \<or> \<not> js_startsWith h ''Bearer '' then None
                  else let token = drop 7 h in if length token > 0 then Some token else None)"

datatype response = Next user | Status int string

definition sendUnauthorized :: "string \<Rightarrow> response" where
  "sendUnauthorized message = Status 401 message"

definition sendForbidden :: "string \<Rightarrow> response" where
  "sendForbidden message = Status 403 message"

datatype jwt_error = TokenExpiredError | JsonWebTokenError

fun claim_text :: "json \<Rightarrow> string" where
  "claim_text (JStr s) = s"
| "claim_text _ = []"

definition requireAuth :: "(string \<Rightarrow> (jwt_error, json) result) \<Rightarrow> string option \<Rightarrow> response" where
  "requireAuth verify header =
     (case extractBearerToken header of
        None \<Rightarrow> sendUnauthorized ''Missing or malformed Authorization header.''
      | Some token \<Rightarrow>
          (case verify token of
             Throw TokenExpiredError \<Rightarrow> sendUnauthorized ''Token has expired.''
           | Throw JsonWebTokenError \<Rightarrow> sendUnauthorized ''Invalid token.''
           | Ok decoded \<Rightarrow>
               if \<not> js_truthy (get_field decoded ''sub'') \<or> \<not> js_truthy (get_field decoded ''email'')
               then sendUnauthorized ''Token is missing required claims.''
               else if \<not> isValidRole (get_field decoded ''role'')
               then sendUnauthorized ''Token carries an unrecognised role.''
               else Next \<lparr>u_id = get_field decoded ''sub'', u_email = get_field decoded ''email'',
                          u_role = claim_text (get_field decoded ''role'')\<rparr>))"

definition requireRole :: "string list \<Rightarrow> user option \<Rightarrow> response" where
  "requireRole allowedRoles user =
     (case user of
        None \<Rightarrow> sendUnauthorized ''Authentication required.''
      | Some u \<Rightarrow> if u_role u \<notin> set allowedRoles
                  then sendForbidden ''You do not have permission to access this resource.''
                  else Next u)"

text \<open>What the owner resolver of a route answers, where the route has one.\<close>

datatype owner_lookup = NoResolver | ResolverThrows | NoRecord | Owner string

definition requirePermission :: "string \<Rightarrow> string \<Rightarrow> owner_lookup \<Rightarrow> user option \<Rightarrow> response" where
  "requirePermission resource action lookup user =
     (case user of
        None \<Rightarrow> sendUnauthorized ''Authentication required.''
      | Some u \<Rightarrow>
          (case lookup of
             ResolverThrows \<Rightarrow> Status 500 ''Authorization check failed.''
           | NoRecord \<Rightarrow> Status 404 ''Resource not found.''
           | _ \<Rightarrow>
               (let resourceOwnerId = (case lookup of Owner owner \<Rightarrow> Some owner | _ \<Rightarrow> None)
                in if \<not> granted (isAuthorized u resource action resourceOwnerId)
                   then sendForbidden ''You do not have permission to perform this action.''
                   else Next u)))"

text \<open>A protected route: authentication, then the permission.\<close>

definition guarded ::
  "(string \<Rightarrow> (jwt_error, json) result) \<Rightarrow> string option \<Rightarrow> string \<Rightarrow> string \<Rightarrow> owner_lookup \<Rightarrow> response" where
  "guarded verify header resource action lookup =
     (case requireAuth verify header of
        Status n m \<Rightarrow> Status n m
      | Next u \<Rightarrow> requirePermission resource action lookup (Some u))"

definition requireContractAccess :: "user option \<Rightarrow> response" where
  "requireContractAccess = requirePermission ''contracts'' ''update'' NoResolver"

subsection \<open>The older role table\<close>

definition ACCESS_CONTROL_MATRIX :: "(string \<times> (string \<times> string list) list) list" where
  "ACCESS_CONTROL_MATRIX =
    (let all = [''create'', ''read'', ''update'', ''delete''] in
     [(''admin'',
       [(''contracts'', all), (''users'', all), (''reputation'', [''read'', ''update'']), (''disputes'', all),
        (''health'', [''read'']), (''api-keys'', all)]),
      (''auditor'', [(''health'', [''read''])]),
      (''freelancer'',
       [(''contracts'', [''create'', ''read'']), (''users'', [''read'']), (''reputation'', [''read'', ''update'']),
        (''disputes'', [''create'', ''read'']), (''health'', [''read'']), (''api-keys'', all)]),
      (''client'',
       [(''contracts'', [''create'', ''read'', ''update'']), (''users'', [''read'']),
        (''reputation'', [''read'', ''update'']), (''disputes'', [''create'', ''read'']), (''health'', [''read'']),
        (''api-keys'', all)]),
      (''guest'', [(''health'', [''read''])])])"

definition VALID_ROLES :: "string list" where
  "VALID_ROLES = [''admin'', ''auditor'', ''freelancer'', ''client'', ''guest'']"

definition isAllowed :: "string \<Rightarrow> string \<Rightarrow> string \<Rightarrow> bool" where
  "isAllowed role resource action =
     (case map_of ACCESS_CONTROL_MATRIX role of
        None \<Rightarrow> False
      | Some permissions \<Rightarrow>
          (case map_of permissions resource of None \<Rightarrow> False | Some actions \<Rightarrow> action \<in> set actions))"

record token_payload =
  tp_userId :: string
  tp_role :: string

text \<open>Reading a field of \<open>null\<close> throws, and the \<open>catch\<close> answers \<open>null\<close> as well.\<close>

definition decodeToken :: "(string \<Rightarrow> json option) \<Rightarrow> string \<Rightarrow> token_payload option" where
  "decodeToken parse_token token =
     (case parse_token token of
        None \<Rightarrow> None
      | Some parsed \<Rightarrow>
          (case (get_field parsed ''userId'', get_field parsed ''role'') of
             (JStr userId, JStr role) \<Rightarrow>
               if userId = [] \<or> role \<notin> set VALID_ROLES then None
               else Some \<lparr>tp_userId = userId, tp_role = role\<rparr>
           | _ \<Rightarrow> None))"

datatype 'u legacy_response = LegacyNext 'u | LegacyStatus int string

definition authenticateMiddleware :: "(string \<Rightarrow> json option) \<Rightarrow> string option \<Rightarrow> token_payload legacy_response" where
  "authenticateMiddleware parse_token header =
     (case header of
        None \<Rightarrow> LegacyStatus 401 ''Missing or invalid Authorization header''
      | Some h \<Rightarrow>
          if h = [] \<or> \<not> js_startsWith h ''Bearer '' then LegacyStatus 401 ''Missing or invalid Authorization header''
          else (case decodeToken parse_token (drop 7 h) of
                  None \<Rightarrow> LegacyStatus 401 ''Invalid token''
                | Some p \<Rightarrow> LegacyNext p))"

definition legacy_requirePermission ::
  "string \<Rightarrow> string \<Rightarrow> token_payload option \<Rightarrow> token_payload legacy_response" where
  "legacy_requirePermission resource action user =
     (case user of
        None \<Rightarrow> LegacyStatus 401 ''Not authenticated''
      | Some u \<Rightarrow> if \<not> isAllowed (tp_role u) resource action
                  then LegacyStatus 403 ''Forbidden: insufficient permissions''
                  else LegacyNext u)"

subsection \<open>Cells\<close>

definition matrix_cell :: "string \<Rightarrow> string \<Rightarrow> string \<Rightarrow> cell option" where
  "matrix_cell resource action role =
     Option.bind (map_of PERMISSION_MATRIX resource) (\<lambda>e. Option.bind (map_of e action) (\<lambda>r. map_of r role))"

definition matrix_entries :: "(string \<times> string \<times> string \<times> cell) list" where
  "matrix_entries =
     concat (map (\<lambda>(resource, actions).
       concat (map (\<lambda>(action, roles). map (\<lambda>(role, c). (resource, action, role, c)) roles) actions)) PERMISSION_MATRIX)"

lemma concat_map_mem: "x \<in> set (concat (map f xs)) \<longleftrightarrow> (\<exists>y\<in>set xs. x \<in> set (f y))"
  by simp

lemma matrix_cell_entry:
  assumes "matrix_cell resource action role = Some c"
  shows "(resource, action, role, c) \<in> set matrix_entries"
proof -
  obtain e r where e: "(resource, e) \<in> set PERMISSION_MATRIX" and r: "(action, r) \<in> set e" and c: "(role, c) \<in> set r"
    using assms unfolding matrix_cell_def by (auto simp: bind_eq_Some_conv dest!: map_of_SomeD)
  from c have "(resource, action, role, c) \<in> set (map (\<lambda>(role, c). (resource, action, role, c)) r)"
    unfolding set_map by (rule rev_image_eqI) simp
  with r have "(resource, action, role, c) \<in>
      set (concat (map (\<lambda>(action, roles). map (\<lambda>(role, c). (resource, action, role, c)) roles) e))"
    unfolding concat_map_mem by (intro bexI [where x = "(action, r)"]) (simp_all only: prod.case)
  with e show ?thesis unfolding matrix_entries_def concat_map_mem [of _ _ PERMISSION_MATRIX]
    by (intro bexI [where x = "(resource, e)"]) (simp_all only: prod.case)
qed

text \<open>
  The design decisions that the matrix documents: administrators may do everything,
  auditors read, users and reports are for these two, payments are changed by
  administrators only, and nobody else updates or deletes what he does not own.
\<close>

definition cell_policy :: "string \<times> string \<times> string \<times> cell \<Rightarrow> bool" where
  "cell_policy = (\<lambda>(resource, action, role, c).
     role \<in> set ALL_ROLES
     \<and> (role = ''admin'' \<longrightarrow> c = Allow)
     \<and> (role = ''auditor'' \<longrightarrow> c = (if action \<in> {''read'', ''list''} then Allow else Deny))
     \<and> (resource \<in> {''users'', ''reports''} \<and> role \<notin> {''admin'', ''auditor''} \<longrightarrow> c = Deny)
     \<and> (resource = ''payments'' \<and> action \<in> {''update'', ''delete''} \<and> role \<noteq> ''admin'' \<longrightarrow> c = Deny)
     \<and> (action \<in> {''update'', ''delete''} \<and> role \<noteq> ''admin'' \<longrightarrow> c \<noteq> Allow))"

lemma matrix_policy: "list_all cell_policy matrix_entries"
  by code_simp

lemma matrix_cell_policy: "matrix_cell resource action role = Some c \<Longrightarrow> cell_policy (resource, action, role, c)"
  using matrix_policy matrix_cell_entry unfolding list_all_iff by blast

lemma matrix_cell_rules:
  assumes "matrix_cell resource action role = Some c"
  shows "role = ''admin'' \<Longrightarrow> c = Allow"
    "role = ''auditor'' \<Longrightarrow> c \<noteq> Deny \<Longrightarrow> action \<in> {''read'', ''list''}"
    "resource \<in> {''users'', ''reports''} \<Longrightarrow> c \<noteq> Deny \<Longrightarrow> role \<in> {''admin'', ''auditor''}"
    "resource = ''payments'' \<Longrightarrow> action \<in> {''update'', ''delete''} \<Longrightarrow> c \<noteq> Deny \<Longrightarrow> role = ''admin''"
    "action \<in> {''update'', ''delete''} \<Longrightarrow> role \<noteq> ''admin'' \<Longrightarrow> c \<noteq> Allow"
proof -
  have policy: "role = ''admin'' \<longrightarrow> c = Allow"
    "role = ''auditor'' \<longrightarrow> c = (if action \<in> {''read'', ''list''} then Allow else Deny)"
    "resource \<in> {''users'', ''reports''} \<and> role \<notin> {''admin'', ''auditor''} \<longrightarrow> c = Deny"
    "resource = ''payments'' \<and> action \<in> {''update'', ''delete''} \<and> role \<noteq> ''admin'' \<longrightarrow> c = Deny"
    "action \<in> {''update'', ''delete''} \<and> role \<noteq> ''admin'' \<longrightarrow> c \<noteq> Allow"
    using matrix_cell_policy [OF assms] unfolding cell_policy_def prod.case by - (elim conjE, assumption)+
  show "c = Allow" if "role = ''admin''" using policy(1) that by (rule mp)
  show "action \<in> {''read'', ''list''}" if "role = ''auditor''" "c \<noteq> Deny"
    using policy(2) that by (metis (no_types))
  show "role \<in> {''admin'', ''auditor''}" if "resource \<in> {''users'', ''reports''}" "c \<noteq> Deny"
    using policy(3) that by (metis (no_types))
  show "role = ''admin''" if "resource = ''payments''" "action \<in> {''update'', ''delete''}" "c \<noteq> Deny"
    using policy(4) that by (metis (no_types))
  show "c \<noteq> Allow" if "action \<in> {''update'', ''delete''}" "role \<noteq> ''admin''"
    using policy(5) that by (metis (no_types))
qed

lemma granted_iff:
  "granted (isAuthorized u resource action owner) \<longleftrightarrow>
   (case matrix_cell resource action (u_role u) of
      None \<Rightarrow> False
    | Some Deny \<Rightarrow> False
    | Some Allow \<Rightarrow> True
    | Some Own \<Rightarrow> u_role u = ''admin'' \<or> (\<exists>i. owner = Some i \<and> u_id u = JStr i))"
  by (auto simp: isAuthorized_def matrix_cell_def split: option.splits cell.splits)

lemma requireAuth_Next:
  "requireAuth verify header = Next u \<longleftrightarrow>
   (\<exists>token decoded. header = Some (''Bearer '' @ token) \<and> token \<noteq> [] \<and> verify token = Ok decoded
      \<and> js_truthy (get_field decoded ''sub'') \<and> js_truthy (get_field decoded ''email'')
      \<and> u_role u \<in> set ALL_ROLES
      \<and> u = \<lparr>u_id = get_field decoded ''sub'', u_email = get_field decoded ''email'', u_role = u_role u\<rparr>
      \<and> get_field decoded ''role'' = JStr (u_role u))" (is "?L \<longleftrightarrow> ?R")
proof
  assume L: ?L
  then obtain token where token: "extractBearerToken header = Some token"
    by (cases "extractBearerToken header") (auto simp: requireAuth_def sendUnauthorized_def)
  then have header: "header = Some (''Bearer '' @ token)" "token \<noteq> []"
    by (auto simp: extractBearerToken_def js_startsWith_iff Let_def split: option.splits if_splits)
  from L token obtain decoded where dec: "verify token = Ok decoded"
    by (cases "verify token") (auto simp: requireAuth_def sendUnauthorized_def split: jwt_error.splits)
  with L token header show ?R
    by (auto simp: requireAuth_def sendUnauthorized_def isValidRole_def split: if_splits json.splits)
next
  assume ?R
  then obtain token decoded where r: "header = Some (''Bearer '' @ token)" "token \<noteq> []" "verify token = Ok decoded"
      "js_truthy (get_field decoded ''sub'')" "js_truthy (get_field decoded ''email'')" "u_role u \<in> set ALL_ROLES"
      "u = \<lparr>u_id = get_field decoded ''sub'', u_email = get_field decoded ''email'', u_role = u_role u\<rparr>"
      "get_field decoded ''role'' = JStr (u_role u)" by blast
  have "extractBearerToken header = Some token" using r(1,2) by (simp add: extractBearerToken_def)
  with r show ?L by (simp add: requireAuth_def isValidRole_def)
qed

lemma requirePermission_Next:
  "requirePermission resource action lookup (Some u) = Next v \<longleftrightarrow>
   v = u \<and> lookup \<noteq> ResolverThrows \<and> lookup \<noteq> NoRecord
   \<and> granted (isAuthorized u resource action (case lookup of Owner i \<Rightarrow> Some i | _ \<Rightarrow> None))"
  by (cases lookup) (auto simp: requirePermission_def sendForbidden_def)

text \<open>
  C38: a request passes a guarded route only with a token that \<open>jwt.verify\<close> accepts and
  that names a user and one of the four roles.  Then auditors only read and list, users
  and reports are reached by administrators and auditors only, payments are changed by
  administrators only, and everybody else who updates or deletes is the owner of the
  record.  Conversely an administrator's token passes every registered route whose record
  exists.
\<close>

theorem guarded_routes_safe:
  "(guarded verify header resource action lookup = Next u \<longrightarrow>
      (\<exists>token decoded. header = Some (''Bearer '' @ token) \<and> verify token = Ok decoded
         \<and> get_field decoded ''sub'' = u_id u \<and> js_truthy (u_id u)
         \<and> get_field decoded ''role'' = JStr (u_role u) \<and> u_role u \<in> set ALL_ROLES)
      \<and> lookup \<notin> {ResolverThrows, NoRecord}
      \<and> (u_role u = ''auditor'' \<longrightarrow> action \<in> {''read'', ''list''})
      \<and> (resource \<in> {''users'', ''reports''} \<longrightarrow> u_role u \<in> {''admin'', ''auditor''})
      \<and> (resource = ''payments'' \<and> action \<in> {''update'', ''delete''} \<longrightarrow> u_role u = ''admin'')
      \<and> (action \<in> {''update'', ''delete''} \<and> u_role u \<noteq> ''admin'' \<longrightarrow>
           (\<exists>i. lookup = Owner i \<and> u_id u = JStr i)))
   \<and> (requireAuth verify header = Next u \<and> u_role u = ''admin''
        \<and> matrix_cell resource action ''admin'' \<noteq> None \<and> lookup \<notin> {ResolverThrows, NoRecord} \<longrightarrow>
      guarded verify header resource action lookup = Next u)"
proof (intro conjI impI)
  assume "guarded verify header resource action lookup = Next u"
  then have auth: "requireAuth verify header = Next u"
    and perm: "requirePermission resource action lookup (Some u) = Next u"
    by (auto simp: guarded_def requirePermission_Next split: response.splits)
  let ?owner = "case lookup of Owner i \<Rightarrow> Some i | _ \<Rightarrow> None"
  have gr: "granted (isAuthorized u resource action ?owner)" and look: "lookup \<notin> {ResolverThrows, NoRecord}"
    using perm by (auto simp: requirePermission_Next)
  obtain c where c: "matrix_cell resource action (u_role u) = Some c"
    using gr by (auto simp: granted_iff split: option.splits)
  have pass: "c \<noteq> Deny" "c = Own \<Longrightarrow> u_role u = ''admin'' \<or> (\<exists>i. lookup = Owner i \<and> u_id u = JStr i)"
    using gr c by (auto simp: granted_iff split: cell.splits owner_lookup.splits)
  obtain token decoded where "header = Some (''Bearer '' @ token)" "verify token = Ok decoded"
      "js_truthy (get_field decoded ''sub'')" "u_role u \<in> set ALL_ROLES" "u_id u = get_field decoded ''sub''"
      "get_field decoded ''role'' = JStr (u_role u)"
    using auth unfolding requireAuth_Next by (metis user.select_convs(1))
  then show "\<exists>token decoded. header = Some (''Bearer '' @ token) \<and> verify token = Ok decoded
      \<and> get_field decoded ''sub'' = u_id u \<and> js_truthy (u_id u)
      \<and> get_field decoded ''role'' = JStr (u_role u) \<and> u_role u \<in> set ALL_ROLES" by auto
  show "lookup \<notin> {ResolverThrows, NoRecord}" by (rule look)
  note rules = matrix_cell_rules [OF c]
  show "action \<in> {''read'', ''list''}" if "u_role u = ''auditor''"
    using that pass(1) by (rule rules(2))
  show "u_role u \<in> {''admin'', ''auditor''}" if "resource \<in> {''users'', ''reports''}"
    using that pass(1) by (rule rules(3))
  show "u_role u = ''admin''" if "resource = ''payments'' \<and> action \<in> {''update'', ''delete''}"
    using that pass(1) rules(4) by simp
  show "\<exists>i. lookup = Owner i \<and> u_id u = JStr i" if upd: "action \<in> {''update'', ''delete''} \<and> u_role u \<noteq> ''admin''"
  proof -
    have "c \<noteq> Allow" using upd rules(5) by simp
    then have "c = Own" using pass(1) by (cases c) simp_all
    with pass(2) upd show ?thesis by simp
  qed
next
  assume a: "requireAuth verify header = Next u \<and> u_role u = ''admin''
      \<and> matrix_cell resource action ''admin'' \<noteq> None \<and> lookup \<notin> {ResolverThrows, NoRecord}"
  then obtain c where c: "matrix_cell resource action (u_role u) = Some c" by auto
  then have "c = Allow" using matrix_cell_rules(1) [OF c] a by simp
  with a c show "guarded verify header resource action lookup = Next u"
    by (simp add: guarded_def requirePermission_Next granted_iff)
qed

definition sample_claims :: "string \<Rightarrow> json" where
  "sample_claims role = JObj [(''sub'', JStr ''u1''), (''email'', JStr ''u1@example.org''), (''role'', JStr role)]"

definition sample_verify :: "string \<Rightarrow> (jwt_error, json) result" where
  "sample_verify token = (if token = ''t1'' then Ok (sample_claims ''client'') else Throw JsonWebTokenError)"

definition sample_user :: user where
  "sample_user = \<lparr>u_id = JStr ''u1'', u_email = JStr ''u1@example.org'', u_role = ''client''\<rparr>"

lemma sample_guarded: "guarded sample_verify (Some ''Bearer t1'') ''contracts'' ''update'' (Owner ''u1'') = Next sample_user"
  by code_simp

theorem guarded_routes_safe_witness:
  "guarded sample_verify (Some ''Bearer t1'') ''contracts'' ''update'' (Owner ''u1'') = Next sample_user
   \<and> (\<exists>i. Owner ''u1'' = Owner i \<and> u_id sample_user = JStr i)"
proof -
  have "''update'' \<in> {''update'', ''delete''} \<and> u_role sample_user \<noteq> ''admin''" by (simp add: sample_user_def)
  with conjunct1 [OF guarded_routes_safe [of sample_verify "Some ''Bearer t1''" "''contracts''" "''update''" "Owner ''u1''" sample_user]]
    sample_guarded
  show ?thesis by blast
qed

subsection \<open>What the routes do with the matrix\<close>

text \<open>The flat list holds exactly the cells that are not denied.\<close>

lemma flat_list_exact:
  "FLAT_PERMISSION_LIST =
   map (\<lambda>(resource, action, role, c). \<lparr>pm_role = role, pm_resource = resource, pm_action = action, pm_ownOnly = (c = Own)\<rparr>)
     (filter (\<lambda>(resource, action, role, c). c \<noteq> Deny) matrix_entries)"
  by code_simp

text \<open>
  A route whose cell is restricted to owners and that has no resolver refuses everybody
  but administrators and auditors: clients and freelancers can list no contracts and no
  disputes and read no dispute.
\<close>

lemma own_cells:
  "matrix_cell ''contracts'' ''list'' ''client'' = Some Own" "matrix_cell ''contracts'' ''list'' ''freelancer'' = Some Own"
  "matrix_cell ''disputes'' ''list'' ''client'' = Some Own" "matrix_cell ''disputes'' ''list'' ''freelancer'' = Some Own"
  "matrix_cell ''disputes'' ''read'' ''client'' = Some Own" "matrix_cell ''disputes'' ''read'' ''freelancer'' = Some Own"
  "matrix_cell ''contracts'' ''update'' ''client'' = Some Own" "matrix_cell ''contracts'' ''update'' ''freelancer'' = Some Own"
  by code_simp+

lemma own_without_resolver:
  assumes "matrix_cell resource action (u_role u) = Some Own" "u_role u \<noteq> ''admin''"
  shows "requirePermission resource action NoResolver (Some u) =
    Status 403 ''You do not have permission to perform this action.''"
  using assms by (simp add: requirePermission_def granted_iff sendForbidden_def)

lemma list_routes_refuse_owners:
  assumes "u_role u \<in> {''client'', ''freelancer''}"
  shows "requirePermission ''contracts'' ''list'' NoResolver (Some u) =
      Status 403 ''You do not have permission to perform this action.''"
    "requirePermission ''disputes'' ''list'' NoResolver (Some u) =
      Status 403 ''You do not have permission to perform this action.''"
    "requirePermission ''disputes'' ''read'' NoResolver (Some u) =
      Status 403 ''You do not have permission to perform this action.''"
    "requireContractAccess (Some u) = Status 403 ''You do not have permission to perform this action.''"
  unfolding requireContractAccess_def using assms own_cells
  by (auto intro!: own_without_resolver)

text \<open>
  Tokens of the older middleware carry no signature: whoever writes the text of a token
  chooses its role, and an administrator's token passes every route of the API keys.
\<close>

lemma forged_token_accepted:
  assumes "parse_token token = Some (JObj [(''userId'', JStr name), (''role'', JStr ''admin'')])" "name \<noteq> []"
    "action \<in> {''create'', ''read'', ''update'', ''delete''}"
  shows "authenticateMiddleware parse_token (Some (''Bearer '' @ token)) = LegacyNext \<lparr>tp_userId = name, tp_role = ''admin''\<rparr>"
    "legacy_requirePermission ''api-keys'' action (Some \<lparr>tp_userId = name, tp_role = ''admin''\<rparr>) =
      LegacyNext \<lparr>tp_userId = name, tp_role = ''admin''\<rparr>"
  using assms by (auto simp: authenticateMiddleware_def decodeToken_def VALID_ROLES_def legacy_requirePermission_def
      isAllowed_def ACCESS_CONTROL_MATRIX_def Let_def)

text \<open>Both tables deny by default.\<close>

lemma isAllowed_registered: "isAllowed role resource action \<Longrightarrow> role \<in> set VALID_ROLES"
  by (auto simp: isAllowed_def ACCESS_CONTROL_MATRIX_def VALID_ROLES_def Let_def split: option.splits if_splits)

lemma isAuthorized_registered:
  "granted (isAuthorized u resource action owner) \<Longrightarrow> u_role u \<in> set ALL_ROLES"
  using matrix_cell_policy [of resource action "u_role u"]
  by (auto simp: granted_iff cell_policy_def split: option.splits)

end
