(* ===== verification/ApiKeys.thy ===== *)
theory ApiKeys
  imports Authorization Canonical JsMap
begin

text \<open>
  API keys: their cache (\<open>auth/authCache.ts\<close>), creation, validation, rotation and
  deactivation (\<open>auth/apiKeys.ts\<close>) over the key table of \<open>database/index.ts\<close>, the checks
  of scopes (\<open>auth/apiKeyMiddleware.ts\<close>) and the guard of the administrative routes
  (\<open>middleware/adminAuthGuard.ts\<close>).

  \<open>DatabaseService\<close> declares the operations on API keys twice, and the later declarations,
  which work on the JSON database, are the ones in force.  PBKDF2 and SHA-256 in
  hexadecimal are the arguments \<open>pbkdf2\<close> and \<open>sha256\<close>; fresh keys, salts and ids are
  arguments.  \<open>validateApiKey\<close> awaits the database between reading a key and caching it
  and is split there.
\<close>

subsection \<open>Rows and dates\<close>

text \<open>
  Dates are \<open>Date\<close> objects until the process restarts; the database file is then read
  with \<open>JSON.parse\<close>, which leaves them as strings.
\<close>

datatype stored_date = DateObj int | DateText string

text \<open>\<open>new Date() > d\<close>: both operands are converted to numbers, and \<open>NaN\<close> compares as false.\<close>

definition date_passed :: "int \<Rightarrow> stored_date \<Rightarrow> bool" where
  "date_passed now d =
     (case d of
        DateObj t \<Rightarrow> now > t
      | DateText s \<Rightarrow> s \<noteq> [] \<and> (case js_Number s of Some x \<Rightarrow> of_int now > x | None \<Rightarrow> False))"

record api_key =
  ak_id :: string
  ak_name :: string
  ak_key_hash :: string
  ak_key_selector :: "string option"
  ak_scope :: "string list"
  ak_created_by :: string
  ak_created_at :: stored_date
  ak_updated_at :: stored_date
  ak_expires_at :: "stored_date option"
  ak_last_used_at :: "stored_date option"
  ak_is_active :: bool

record api_key_info =
  ki_id :: string
  ki_name :: string
  ki_scope :: "string list"
  ki_createdBy :: string
  ki_createdAt :: stored_date
  ki_expiresAt :: "stored_date option"
  ki_isActive :: bool

definition key_info :: "api_key \<Rightarrow> api_key_info" where
  "key_info k =
     \<lparr>ki_id = ak_id k, ki_name = ak_name k, ki_scope = ak_scope k, ki_createdBy = ak_created_by k,
      ki_createdAt = ak_created_at k, ki_expiresAt = ak_expires_at k, ki_isActive = ak_is_active k\<rparr>"

subsection \<open>The cache\<close>

record auth_entry =
  ce_info :: api_key_info
  ce_expiresAt :: int
  ce_lastAccessed :: int

record auth_cache =
  kc_cache :: "(string, auth_entry) jsmap"
  kc_ttlMs :: int
  kc_maxEntries :: int
  kc_hitCount :: nat
  kc_missCount :: nat

definition new_auth_cache :: "int \<Rightarrow> int \<Rightarrow> auth_cache" where
  "new_auth_cache ttlMs maxEntries =
     \<lparr>kc_cache = map_empty, kc_ttlMs = ttlMs, kc_maxEntries = maxEntries, kc_hitCount = 0, kc_missCount = 0\<rparr>"

definition authcache_get :: "int \<Rightarrow> string \<Rightarrow> auth_cache \<Rightarrow> api_key_info option \<times> auth_cache" where
  "authcache_get now selector c =
     (case map_get (kc_cache c) selector of
        None \<Rightarrow> (None, c\<lparr>kc_missCount := kc_missCount c + 1\<rparr>)
      | Some entry \<Rightarrow>
          if now > ce_expiresAt entry
          then (None, c\<lparr>kc_cache := map_delete selector (kc_cache c), kc_missCount := kc_missCount c + 1\<rparr>)
          else (Some (ce_info entry),
                c\<lparr>kc_cache := map_set selector (entry\<lparr>ce_lastAccessed := now\<rparr>) (kc_cache c),
                  kc_hitCount := kc_hitCount c + 1\<rparr>))"

fun oldest_entry :: "(string, auth_entry) jsmap \<Rightarrow> (string \<times> int) option \<Rightarrow> (string \<times> int) option" where
  "oldest_entry [] best = best"
| "oldest_entry ((selector, entry) # m) best =
     oldest_entry m
       (case best of
          None \<Rightarrow> Some (selector, ce_lastAccessed entry)
        | Some (s, t) \<Rightarrow> if ce_lastAccessed entry < t then Some (selector, ce_lastAccessed entry) else best)"

definition authcache_evictOldest :: "auth_cache \<Rightarrow> auth_cache" where
  "authcache_evictOldest c =
     (case oldest_entry (kc_cache c) None of
        None \<Rightarrow> c
      | Some (selector, t) \<Rightarrow> if selector = [] then c else c\<lparr>kc_cache := map_delete selector (kc_cache c)\<rparr>)"

definition authcache_set :: "int \<Rightarrow> string \<Rightarrow> api_key_info \<Rightarrow> auth_cache \<Rightarrow> auth_cache" where
  "authcache_set now selector info c =
     (let entry = \<lparr>ce_info = info, ce_expiresAt = now + kc_ttlMs c, ce_lastAccessed = now\<rparr>;
          c1 = (if kc_maxEntries c \<le> int (map_size (kc_cache c)) \<and> \<not> map_has (kc_cache c) selector
                then authcache_evictOldest c else c)
      in c1\<lparr>kc_cache := map_set selector entry (kc_cache c1)\<rparr>)"

definition authcache_invalidate :: "string \<Rightarrow> auth_cache \<Rightarrow> auth_cache" where
  "authcache_invalidate selector c = c\<lparr>kc_cache := map_delete selector (kc_cache c)\<rparr>"

definition authcache_invalidateByUserId :: "string \<Rightarrow> auth_cache \<Rightarrow> auth_cache" where
  "authcache_invalidateByUserId userId c =
     (let selectorsToDelete = map fst (filter (\<lambda>(s, e). ki_createdBy (ce_info e) = userId) (kc_cache c))
      in c\<lparr>kc_cache := fold map_delete selectorsToDelete (kc_cache c)\<rparr>)"

definition authcache_clear :: "auth_cache \<Rightarrow> auth_cache" where
  "authcache_clear c = c\<lparr>kc_cache := map_empty\<rparr>"

definition authcache_getStats :: "auth_cache \<Rightarrow> nat \<times> nat \<times> nat" where
  "authcache_getStats c = (map_size (kc_cache c), kc_hitCount c, kc_missCount c)"

definition authcache_cleanupExpired :: "int \<Rightarrow> auth_cache \<Rightarrow> nat \<times> auth_cache" where
  "authcache_cleanupExpired now c =
     (let selectorsToDelete = map fst (filter (\<lambda>(s, e). now > ce_expiresAt e) (kc_cache c))
      in (length selectorsToDelete, c\<lparr>kc_cache := fold map_delete selectorsToDelete (kc_cache c)\<rparr>))"

subsection \<open>The key table\<close>

fun update_first :: "string \<Rightarrow> (api_key \<Rightarrow> api_key) \<Rightarrow> api_key list \<Rightarrow> api_key list" where
  "update_first i f [] = []"
| "update_first i f (k # ks) = (if ak_id k = i then f k # ks else k # update_first i f ks)"

definition db_getApiKeyById :: "string \<Rightarrow> api_key list \<Rightarrow> api_key option" where
  "db_getApiKeyById i ks = find (\<lambda>k. ak_id k = i) ks"

definition db_getApiKeyBySelector :: "string \<Rightarrow> api_key list \<Rightarrow> api_key option" where
  "db_getApiKeyBySelector selector ks = find (\<lambda>k. ak_key_selector k = Some selector \<and> ak_is_active k) ks"

definition db_createApiKey ::
  "string \<Rightarrow> int \<Rightarrow> string \<Rightarrow> string \<Rightarrow> string \<Rightarrow> string list \<Rightarrow> string \<Rightarrow> stored_date option \<Rightarrow> bool \<Rightarrow> api_key list
   \<Rightarrow> api_key \<times> api_key list" where
  "db_createApiKey i now name keyHash keySelector scope createdBy expiresAt isActive ks =
     (let k = \<lparr>ak_id = i, ak_name = name, ak_key_hash = keyHash, ak_key_selector = Some keySelector, ak_scope = scope,
               ak_created_by = createdBy, ak_created_at = DateObj now, ak_updated_at = DateObj now,
               ak_expires_at = expiresAt, ak_last_used_at = None, ak_is_active = isActive\<rparr>
      in (k, ks @ [k]))"

definition db_updateSelector :: "string \<Rightarrow> string \<Rightarrow> int \<Rightarrow> api_key list \<Rightarrow> api_key list" where
  "db_updateSelector i selector now =
     update_first i (\<lambda>k. k\<lparr>ak_key_selector := Some selector, ak_updated_at := DateObj now\<rparr>)"

definition db_updateLastUsed :: "string \<Rightarrow> int \<Rightarrow> api_key list \<Rightarrow> api_key list" where
  "db_updateLastUsed i now =
     update_first i (\<lambda>k. k\<lparr>ak_last_used_at := Some (DateObj now), ak_updated_at := DateObj now\<rparr>)"

definition db_rotateApiKey :: "string \<Rightarrow> string \<Rightarrow> string \<Rightarrow> int \<Rightarrow> api_key list \<Rightarrow> api_key option \<times> api_key list" where
  "db_rotateApiKey i keyHash keySelector now ks =
     (let ks' = update_first i (\<lambda>k. k\<lparr>ak_key_hash := keyHash, ak_key_selector := Some keySelector,
                                      ak_updated_at := DateObj now\<rparr>) ks
      in (db_getApiKeyById i ks', ks'))"

definition db_deactivateApiKey :: "string \<Rightarrow> int \<Rightarrow> api_key list \<Rightarrow> bool \<times> api_key list" where
  "db_deactivateApiKey i now ks =
     (db_getApiKeyById i ks \<noteq> None,
      update_first i (\<lambda>k. k\<lparr>ak_is_active := False, ak_updated_at := DateObj now\<rparr>) ks)"

subsection \<open>Keys and their validation\<close>

definition all_hex :: "nat \<Rightarrow> string \<Rightarrow> bool" where
  "all_hex n s \<longleftrightarrow> length s = n \<and> list_all (\<lambda>c. radix_digit 16 c \<noteq> None) s"

definition verifyApiKey :: "(string \<Rightarrow> string \<Rightarrow> string) \<Rightarrow> string \<Rightarrow> string \<Rightarrow> string \<Rightarrow> bool" where
  "verifyApiKey pbkdf2 apiKey salt hash =
     (if \<not> all_hex 32 salt \<or> \<not> all_hex 128 hash then False
      else let verifyHash = pbkdf2 apiKey salt; hashBuffer = hex_bytes hash; verifyBuffer = hex_bytes verifyHash
           in if length hashBuffer \<noteq> length verifyBuffer then False else hashBuffer = verifyBuffer)"

definition computeKeySelector :: "(string \<Rightarrow> string) \<Rightarrow> string \<Rightarrow> string" where
  "computeKeySelector sha256 apiKey = sha256 apiKey"

definition isValidSaltHashFormat :: "string \<Rightarrow> bool" where
  "isValidSaltHashFormat storedCredential =
     (let trimmed = js_trim storedCredential; parts = js_split (CHR '':'') trimmed
      in if trimmed = [] \<or> CHR '':'' \<notin> set trimmed then False
         else if length parts \<noteq> 2 then False
         else parts ! 0 \<noteq> [] \<and> parts ! 1 \<noteq> [] \<and> all_hex 32 (parts ! 0) \<and> all_hex 128 (parts ! 1))"

definition stored_verifies :: "(string \<Rightarrow> string \<Rightarrow> string) \<Rightarrow> string \<Rightarrow> api_key \<Rightarrow> bool" where
  "stored_verifies pbkdf2 apiKey k =
     (let parts = js_split (CHR '':'') (ak_key_hash k)
      in isValidSaltHashFormat (ak_key_hash k)
         \<and> verifyApiKey pbkdf2 apiKey (parts ! 0) (parts ! 1))"

record key_service =
  ks_keys :: "api_key list"
  ks_cache :: auth_cache

definition createApiKey ::
  "(string \<Rightarrow> string) \<Rightarrow> (string \<Rightarrow> string \<Rightarrow> string) \<Rightarrow> string \<Rightarrow> string \<Rightarrow> string \<Rightarrow> int \<Rightarrow> string \<Rightarrow> string list \<Rightarrow> string
   \<Rightarrow> stored_date option \<Rightarrow> key_service \<Rightarrow> (string \<times> api_key_info) \<times> key_service" where
  "createApiKey sha256 pbkdf2 apiKey salt i now name scope createdBy expiresAt s =
     (let keyHash = salt @ '':'' @ pbkdf2 apiKey salt;
          (k, ks) = db_createApiKey i now name keyHash (computeKeySelector sha256 apiKey) scope createdBy expiresAt True
                      (ks_keys s)
      in ((apiKey, key_info k),
          \<lparr>ks_keys = ks, ks_cache = authcache_invalidateByUserId createdBy (ks_cache s)\<rparr>))"

text \<open>Up to the first write: an answer from the cache, a refusal, or the key that was found.\<close>

datatype key_lookup = Cached api_key_info | NoKey | Candidate api_key

definition no_selector :: "api_key \<Rightarrow> bool" where
  "no_selector k \<longleftrightarrow> ak_key_selector k = None \<or> ak_key_selector k = Some []"

definition validate_lookup ::
  "(string \<Rightarrow> string) \<Rightarrow> (string \<Rightarrow> string \<Rightarrow> string) \<Rightarrow> int \<Rightarrow> string \<Rightarrow> key_service \<Rightarrow> key_lookup \<times> key_service" where
  "validate_lookup sha256 pbkdf2 now apiKey s =
     (let selector = computeKeySelector sha256 apiKey; (cached, c) = authcache_get now selector (ks_cache s);
          s1 = s\<lparr>ks_cache := c\<rparr>
      in case cached of
           Some info \<Rightarrow> (Cached info, s1)
         | None \<Rightarrow>
             (case db_getApiKeyBySelector selector (ks_keys s) of
                Some k \<Rightarrow> (if stored_verifies pbkdf2 apiKey k then Candidate k else NoKey, s1)
              | None \<Rightarrow>
                  (case find (\<lambda>k. no_selector k \<and> ak_is_active k \<and> stored_verifies pbkdf2 apiKey k) (ks_keys s) of
                     Some k \<Rightarrow> (Candidate k, s1)
                   | None \<Rightarrow> (NoKey, s1))))"

definition validate_finish ::
  "(string \<Rightarrow> string) \<Rightarrow> int \<Rightarrow> string \<Rightarrow> api_key \<Rightarrow> key_service \<Rightarrow> api_key_info option \<times> key_service" where
  "validate_finish sha256 now apiKey k s =
     (let selector = computeKeySelector sha256 apiKey;
          ks1 = (if no_selector k then db_updateSelector (ak_id k) selector now (ks_keys s) else ks_keys s);
          ks2 = db_updateLastUsed (ak_id k) now ks1
      in if (case ak_expires_at k of Some d \<Rightarrow> date_passed now d | None \<Rightarrow> False)
         then (None, s\<lparr>ks_keys := snd (db_deactivateApiKey (ak_id k) now ks2)\<rparr>)
         else (Some (key_info k), \<lparr>ks_keys = ks2, ks_cache = authcache_set now selector (key_info k) (ks_cache s)\<rparr>))"

definition validateApiKey ::
  "(string \<Rightarrow> string) \<Rightarrow> (string \<Rightarrow> string \<Rightarrow> string) \<Rightarrow> int \<Rightarrow> string \<Rightarrow> key_service \<Rightarrow> api_key_info option \<times> key_service" where
  "validateApiKey sha256 pbkdf2 now apiKey s =
     (case validate_lookup sha256 pbkdf2 now apiKey s of
        (Cached info, s1) \<Rightarrow> (Some info, s1)
      | (NoKey, s1) \<Rightarrow> (None, s1)
      | (Candidate k, s1) \<Rightarrow> validate_finish sha256 now apiKey k s1)"

definition drop_cached :: "api_key \<Rightarrow> auth_cache \<Rightarrow> auth_cache" where
  "drop_cached k c =
     authcache_invalidateByUserId (ak_created_by k)
       (case ak_key_selector k of
          None \<Rightarrow> c | Some selector \<Rightarrow> if selector = [] then c else authcache_invalidate selector c)"

definition rotateApiKey ::
  "(string \<Rightarrow> string) \<Rightarrow> (string \<Rightarrow> string \<Rightarrow> string) \<Rightarrow> string \<Rightarrow> string \<Rightarrow> int \<Rightarrow> string \<Rightarrow> key_service
   \<Rightarrow> (string \<times> api_key_info) option \<times> key_service" where
  "rotateApiKey sha256 pbkdf2 newApiKey salt now keyId s =
     (case db_getApiKeyById keyId (ks_keys s) of
        None \<Rightarrow> (None, s)
      | Some existingKey \<Rightarrow>
          (case db_rotateApiKey keyId (salt @ '':'' @ pbkdf2 newApiKey salt) (computeKeySelector sha256 newApiKey) now
                  (ks_keys s) of
             (None, ks) \<Rightarrow> (None, s\<lparr>ks_keys := ks\<rparr>)
           | (Some k, ks) \<Rightarrow> (Some (newApiKey, key_info k),
                              \<lparr>ks_keys = ks, ks_cache = drop_cached existingKey (ks_cache s)\<rparr>)))"

definition deactivateApiKey :: "int \<Rightarrow> string \<Rightarrow> key_service \<Rightarrow> bool \<times> key_service" where
  "deactivateApiKey now keyId s =
     (case db_getApiKeyById keyId (ks_keys s) of
        None \<Rightarrow> (False, s)
      | Some existingKey \<Rightarrow>
          (case db_deactivateApiKey keyId now (ks_keys s) of
             (ok, ks) \<Rightarrow> (ok, \<lparr>ks_keys = ks,
                               ks_cache = (if ok then drop_cached existingKey (ks_cache s) else ks_cache s)\<rparr>)))"

subsection \<open>Scopes and the administrative guard\<close>

definition js_endsWith :: "string \<Rightarrow> string \<Rightarrow> bool" where
  "js_endsWith s t = js_startsWith (rev s) (rev t)"

definition scope_matches :: "string \<Rightarrow> string \<Rightarrow> string \<Rightarrow> bool" where
  "scope_matches resource action scope \<longleftrightarrow>
     scope = resource @ '':'' @ action
     \<or> (js_endsWith scope '':*'' \<and> js_startsWith scope (resource @ '':''))
     \<or> (js_startsWith scope ''*:'' \<and> js_endsWith scope ('':'' @ action))
     \<or> scope = ''*''"

definition requireApiKeyScope :: "string \<Rightarrow> string \<Rightarrow> api_key_info option \<Rightarrow> api_key_info legacy_response" where
  "requireApiKeyScope resource action apiKey =
     (case apiKey of
        None \<Rightarrow> LegacyStatus 401 ''Not authenticated with API key''
      | Some info \<Rightarrow> if list_ex (scope_matches resource action) (ki_scope info) then LegacyNext info
                     else LegacyStatus 403 ''Forbidden: insufficient API key scope'')"

text \<open>\<open>validate\<close> is the outcome of \<open>validateApiKey\<close>, which may reject.\<close>

definition authenticateApiKey ::
  "(string \<Rightarrow> (unit, api_key_info option) result) \<Rightarrow> string option \<Rightarrow> api_key_info legacy_response" where
  "authenticateApiKey validate header =
     (case header of
        None \<Rightarrow> LegacyStatus 401 ''Missing X-API-Key header''
      | Some key \<Rightarrow>
          if key = [] then LegacyStatus 401 ''Missing X-API-Key header''
          else (case validate key of
                  Throw _ \<Rightarrow> LegacyStatus 500 ''Internal server error''
                | Ok None \<Rightarrow> LegacyStatus 401 ''Invalid API key''
                | Ok (Some info) \<Rightarrow> LegacyNext info))"

datatype either_auth = ByToken "token_payload legacy_response" | ByKey "api_key_info legacy_response" | NoCredentials

definition authenticateEither ::
  "(string \<Rightarrow> json option) \<Rightarrow> (string \<Rightarrow> (unit, api_key_info option) result) \<Rightarrow> string option \<Rightarrow> string option
   \<Rightarrow> either_auth" where
  "authenticateEither parse_token validate authHeader apiKey =
     (if (case authHeader of Some h \<Rightarrow> js_startsWith h ''Bearer '' | None \<Rightarrow> False)
      then ByToken (authenticateMiddleware parse_token authHeader)
      else if (case apiKey of Some k \<Rightarrow> k \<noteq> [] | None \<Rightarrow> False)
      then ByKey (authenticateApiKey validate apiKey)
      else NoCredentials)"

definition ADMIN_ROLES :: "string list" where
  "ADMIN_ROLES = [''admin'', ''superadmin'']"

definition REQUIRED_ADMIN_SCOPES :: "string list" where
  "REQUIRED_ADMIN_SCOPES = [''deploy:*'', ''*'', ''jobs:admin'', ''jobs:*'']"

record admin_user =
  au_id :: json
  au_email :: json
  au_role :: string
  au_authMethod :: string

definition validateAdminJwt :: "(string \<Rightarrow> (jwt_error, json) result) \<Rightarrow> string \<Rightarrow> admin_user option" where
  "validateAdminJwt verify token =
     (case verify token of
        Throw _ \<Rightarrow> None
      | Ok decoded \<Rightarrow>
          if \<not> js_truthy (get_field decoded ''sub'') \<or> \<not> js_truthy (get_field decoded ''email'') then None
          else (case get_field decoded ''role'' of
                  JStr role \<Rightarrow>
                    if role \<notin> set ADMIN_ROLES then None
                    else Some \<lparr>au_id = get_field decoded ''sub'', au_email = get_field decoded ''email'', au_role = role,
                               au_authMethod = ''jwt''\<rparr>
                | _ \<Rightarrow> None))"

definition hasAdminScope :: "api_key_info \<Rightarrow> bool" where
  "hasAdminScope info = list_ex (\<lambda>scope. scope \<in> set REQUIRED_ADMIN_SCOPES) (ki_scope info)"

text \<open>
  A header that is just \<open>Bearer\<close> and a space gives the token \<open>null\<close>, which \<open>jwt.verify\<close>
  refuses.
\<close>

definition adminAuthGuard ::
  "(string \<Rightarrow> (jwt_error, json) result) \<Rightarrow> (string \<Rightarrow> (unit, api_key_info option) result) \<Rightarrow> string option \<Rightarrow> string option
   \<Rightarrow> admin_user legacy_response" where
  "adminAuthGuard verify validate authHeader apiKeyHeader =
     (if (case authHeader of Some h \<Rightarrow> js_startsWith h ''Bearer '' | None \<Rightarrow> False)
      then (case extractBearerToken authHeader of
              None \<Rightarrow> LegacyStatus 401 ''Invalid or expired JWT token.''
            | Some token \<Rightarrow>
                if token = ''demo-admin-token''
                then LegacyNext \<lparr>au_id = JStr ''admin-user-id'', au_email = JStr ''admin@talenttrust.com'',
                                 au_role = ''admin'', au_authMethod = ''jwt''\<rparr>
                else if token = ''demo-user-token'' then LegacyStatus 403 ''Admin role required.''
                else (case validateAdminJwt verify token of
                        Some u \<Rightarrow> LegacyNext u
                      | None \<Rightarrow> LegacyStatus 401 ''Invalid or expired JWT token.''))
      else if (case apiKeyHeader of Some k \<Rightarrow> k \<noteq> [] | None \<Rightarrow> False)
      then (case validate (the apiKeyHeader) of
              Throw _ \<Rightarrow> LegacyStatus 401 ''Invalid API key.''
            | Ok None \<Rightarrow> LegacyStatus 401 ''Invalid API key.''
            | Ok (Some info) \<Rightarrow>
                if hasAdminScope info
                then LegacyNext \<lparr>au_id = JStr (ki_createdBy info), au_email = JStr (ki_name info), au_role = ''admin'',
                                 au_authMethod = ''api-key''\<rparr>
                else LegacyStatus 403 ''API key does not have admin scope.'')
      else LegacyStatus 401 ''Authentication required. Provide Bearer JWT or X-API-Key.'')"

subsection \<open>The cache agrees with the table\<close>

lemma update_first_ids:
  "(\<And>k. ak_id (f k) = ak_id k) \<Longrightarrow> map ak_id (update_first i f ks) = map ak_id ks"
  by (induction ks) auto

lemma update_first_mem:
  "distinct (map ak_id ks) \<Longrightarrow> k \<in> set ks \<Longrightarrow> (if ak_id k = i then f k else k) \<in> set (update_first i f ks)"
  by (induction ks) (auto split: if_splits, metis image_eqI)

lemma find_mem: "find P xs = Some x \<Longrightarrow> x \<in> set xs \<and> P x"
  by (auto simp: find_Some_iff)

text \<open>The row that stands behind a cached selector.\<close>

definition backs :: "string \<Rightarrow> api_key_info \<Rightarrow> api_key \<Rightarrow> bool" where
  "backs selector info k \<longleftrightarrow> selector \<noteq> [] \<and> ak_key_selector k = Some selector \<and> ak_is_active k
     \<and> ak_id k = ki_id info \<and> ak_created_by k = ki_createdBy info"

definition cache_backed :: "api_key list \<Rightarrow> (string, auth_entry) jsmap \<Rightarrow> bool" where
  "cache_backed ks m \<longleftrightarrow> (\<forall>selector e. map_get m selector = Some e \<longrightarrow> (\<exists>k\<in>set ks. backs selector (ce_info e) k))"

definition keys_ok :: "key_service \<Rightarrow> bool" where
  "keys_ok s \<longleftrightarrow> distinct (map ak_id (ks_keys s)) \<and> map_wf (kc_cache (ks_cache s))
     \<and> cache_backed (ks_keys s) (kc_cache (ks_cache s))"

lemma cache_backedD:
  "cache_backed ks m \<Longrightarrow> map_get m selector = Some e \<Longrightarrow> \<exists>k\<in>set ks. backs selector (ce_info e) k"
  by (simp add: cache_backed_def)

lemma cache_backed_sub:
  assumes "cache_backed ks m" "\<And>s e. map_get m' s = Some e \<Longrightarrow> \<exists>e'. map_get m s = Some e' \<and> ce_info e' = ce_info e"
  shows "cache_backed ks m'"
  unfolding cache_backed_def
proof (intro allI impI)
  fix s e assume "map_get m' s = Some e"
  then obtain e' where "map_get m s = Some e'" "ce_info e' = ce_info e" using assms(2) by blast
  with cache_backedD [OF assms(1)] show "\<exists>k\<in>set ks. backs s (ce_info e) k" by metis
qed

lemma cache_backed_delete: "cache_backed ks m \<Longrightarrow> cache_backed ks (map_delete s m)"
  by (erule cache_backed_sub) (auto split: if_splits)

lemma cache_backed_fold_delete: "cache_backed ks m \<Longrightarrow> cache_backed ks (fold map_delete ss m)"
  by (erule cache_backed_sub) (auto split: if_splits)

lemma authcache_get_cases:
  "authcache_get now selector c = (r, c') \<Longrightarrow>
   (case r of
      Some info \<Rightarrow> \<exists>e. map_get (kc_cache c) selector = Some e \<and> ce_info e = info
    | None \<Rightarrow> map_get (kc_cache c') selector = None)
   \<and> (\<forall>s e. map_get (kc_cache c') s = Some e \<longrightarrow> (\<exists>e'. map_get (kc_cache c) s = Some e' \<and> ce_info e' = ce_info e))
   \<and> (map_wf (kc_cache c) \<longrightarrow> map_wf (kc_cache c'))"
  by (auto simp: authcache_get_def split: option.splits if_splits)

lemma cache_backed_set:
  assumes "cache_backed ks m" "k \<in> set ks" "backs selector info k"
  shows "cache_backed ks (map_set selector \<lparr>ce_info = info, ce_expiresAt = x, ce_lastAccessed = y\<rparr> m)"
  using assms by (auto simp: cache_backed_def)

lemma authcache_set_backed:
  assumes "cache_backed ks (kc_cache c)" "k \<in> set ks" "backs selector info k"
  shows "cache_backed ks (kc_cache (authcache_set now selector info c))"
proof -
  let ?c1 = "if kc_maxEntries c \<le> int (map_size (kc_cache c)) \<and> \<not> map_has (kc_cache c) selector
    then authcache_evictOldest c else c"
  have "cache_backed ks (kc_cache ?c1)"
    using assms(1) by (auto simp: authcache_evictOldest_def cache_backed_delete split: option.splits)
  from cache_backed_set [OF this assms(2,3)] show ?thesis by (simp add: authcache_set_def Let_def)
qed

lemma authcache_set_wf: "map_wf (kc_cache c) \<Longrightarrow> map_wf (kc_cache (authcache_set now selector info c))"
  by (auto simp: authcache_set_def authcache_evictOldest_def Let_def split: option.splits)

text \<open>Changing one row keeps the cache backed when its entries are dropped or the row still backs them.\<close>

lemma cache_backed_update:
  assumes "cache_backed ks m" "distinct (map ak_id ks)"
    "\<And>s e k. map_get m s = Some e \<Longrightarrow> k \<in> set ks \<Longrightarrow> ak_id k = i \<Longrightarrow> backs s (ce_info e) k \<Longrightarrow> backs s (ce_info e) (f k)"
  shows "cache_backed (update_first i f ks) m"
  unfolding cache_backed_def
proof (intro allI impI)
  fix s e assume s: "map_get m s = Some e"
  then obtain k where k: "k \<in> set ks" "backs s (ce_info e) k" using cache_backedD [OF assms(1)] by blast
  have "(if ak_id k = i then f k else k) \<in> set (update_first i f ks)" by (rule update_first_mem [OF assms(2) k(1)])
  with assms(3) [OF s k(1) _ k(2)] k(2) show "\<exists>k\<in>set (update_first i f ks). backs s (ce_info e) k"
    by (cases "ak_id k = i") auto
qed

text \<open>Dropping the entries of a key's creator leaves none that the key backs.\<close>

lemma map_get_mem: "map_wf m \<Longrightarrow> (s, e) \<in> set m \<longleftrightarrow> map_get m s = Some e"
  by (blast intro: in_set_map_get map_get_in_set)

lemma map_get_invalidateByUserId:
  assumes "map_wf (kc_cache c)"
  shows "map_get (kc_cache (authcache_invalidateByUserId u c)) s = Some e \<longleftrightarrow>
    map_get (kc_cache c) s = Some e \<and> ki_createdBy (ce_info e) \<noteq> u"
proof -
  have "s \<in> set (map fst (filter (\<lambda>(s, e). ki_createdBy (ce_info e) = u) (kc_cache c))) \<longleftrightarrow>
      (\<exists>e. map_get (kc_cache c) s = Some e \<and> ki_createdBy (ce_info e) = u)"
    unfolding map_get_mem [OF assms, symmetric] by (auto intro: rev_image_eqI)
  then show ?thesis by (auto simp: authcache_invalidateByUserId_def Let_def)
qed

lemma drop_cached_wf: "map_wf (kc_cache c) \<Longrightarrow> map_wf (kc_cache (drop_cached k c))"
  by (auto simp: drop_cached_def authcache_invalidateByUserId_def authcache_invalidate_def Let_def split: option.splits)

lemma drop_cached_get:
  assumes "map_wf (kc_cache c)" "map_get (kc_cache (drop_cached k c)) s = Some e"
  shows "map_get (kc_cache c) s = Some e" "ki_createdBy (ce_info e) \<noteq> ak_created_by k"
proof -
  let ?c = "case ak_key_selector k of
      None \<Rightarrow> c | Some selector \<Rightarrow> if selector = [] then c else authcache_invalidate selector c"
  have "map_wf (kc_cache ?c)" using assms(1) by (auto simp: authcache_invalidate_def split: option.splits)
  with assms(2) have "map_get (kc_cache ?c) s = Some e" "ki_createdBy (ce_info e) \<noteq> ak_created_by k"
    unfolding drop_cached_def by (simp_all add: map_get_invalidateByUserId)
  then show "map_get (kc_cache c) s = Some e" "ki_createdBy (ce_info e) \<noteq> ak_created_by k"
    by (auto simp: authcache_invalidate_def split: option.splits if_splits)
qed

subsection \<open>Operations\<close>

lemma validate_lookup_Candidate:
  assumes "validate_lookup sha256 pbkdf2 now apiKey s = (Candidate k, s1)" "keys_ok s"
  shows "k \<in> set (ks_keys s)" "ak_is_active k" "stored_verifies pbkdf2 apiKey k"
    "ak_key_selector k = Some (computeKeySelector sha256 apiKey) \<or> no_selector k"
    "ks_keys s1 = ks_keys s" "keys_ok s1"
    "map_get (kc_cache (ks_cache s1)) (computeKeySelector sha256 apiKey) = None"
proof -
  obtain r c where g: "authcache_get now (computeKeySelector sha256 apiKey) (ks_cache s) = (r, c)"
    by (cases "authcache_get now (computeKeySelector sha256 apiKey) (ks_cache s)")
  have r: "r = None" and s1: "s1 = s\<lparr>ks_cache := c\<rparr>"
    and k: "(db_getApiKeyBySelector (computeKeySelector sha256 apiKey) (ks_keys s) = Some k \<and> stored_verifies pbkdf2 apiKey k)
      \<or> find (\<lambda>k. no_selector k \<and> ak_is_active k \<and> stored_verifies pbkdf2 apiKey k) (ks_keys s) = Some k"
    using assms(1) g by (auto simp: validate_lookup_def Let_def split: option.splits if_splits)
  from k show "k \<in> set (ks_keys s)" "ak_is_active k" "stored_verifies pbkdf2 apiKey k"
    "ak_key_selector k = Some (computeKeySelector sha256 apiKey) \<or> no_selector k"
    by (auto simp: db_getApiKeyBySelector_def dest!: find_mem)
  note c = authcache_get_cases [OF g]
  show "ks_keys s1 = ks_keys s" by (simp add: s1)
  show "map_get (kc_cache (ks_cache s1)) (computeKeySelector sha256 apiKey) = None"
    using c r by (simp add: s1)
  show "keys_ok s1"
    using assms(2) c cache_backed_sub [of "ks_keys s" "kc_cache (ks_cache s)" "kc_cache c"]
    by (auto simp: keys_ok_def s1)
qed

lemma validate_lookup_other:
  assumes "validate_lookup sha256 pbkdf2 now apiKey s = (r, s1)" "keys_ok s"
  shows "keys_ok s1" "r = Cached info \<Longrightarrow> \<exists>k\<in>set (ks_keys s). backs (computeKeySelector sha256 apiKey) info k"
proof -
  obtain q c where g: "authcache_get now (computeKeySelector sha256 apiKey) (ks_cache s) = (q, c)"
    by (cases "authcache_get now (computeKeySelector sha256 apiKey) (ks_cache s)")
  note c = authcache_get_cases [OF g]
  have s1: "s1 = s\<lparr>ks_cache := c\<rparr>" and q: "r = Cached info \<Longrightarrow> q = Some info"
    using assms(1) g by (auto simp: validate_lookup_def Let_def split: option.splits if_splits)
  show "keys_ok s1"
    using assms(2) c cache_backed_sub [of "ks_keys s" "kc_cache (ks_cache s)" "kc_cache c"]
    by (auto simp: keys_ok_def s1)
  assume "r = Cached info"
  then obtain e where "map_get (kc_cache (ks_cache s)) (computeKeySelector sha256 apiKey) = Some e" "ce_info e = info"
    using q c by auto
  then show "\<exists>k\<in>set (ks_keys s). backs (computeKeySelector sha256 apiKey) info k"
    using assms(2) cache_backedD unfolding keys_ok_def by blast
qed

text \<open>The two updates of a validated row are one.\<close>

definition touch :: "bool \<Rightarrow> string \<Rightarrow> int \<Rightarrow> api_key \<Rightarrow> api_key" where
  "touch fill selector now k =
     (let k1 = (if fill then k\<lparr>ak_key_selector := Some selector, ak_updated_at := DateObj now\<rparr> else k)
      in k1\<lparr>ak_last_used_at := Some (DateObj now), ak_updated_at := DateObj now\<rparr>)"

lemma touch_simps [simp]:
  "ak_id (touch fill selector now k) = ak_id k" "ak_is_active (touch fill selector now k) = ak_is_active k"
  "ak_created_by (touch fill selector now k) = ak_created_by k"
  "ak_key_selector (touch fill selector now k) = (if fill then Some selector else ak_key_selector k)"
  by (simp_all add: touch_def)

lemma update_first_comp:
  "(\<And>k. ak_id (g k) = ak_id k) \<Longrightarrow> update_first i f (update_first i g ks) = update_first i (\<lambda>k. f (g k)) ks"
  by (induction ks) auto

lemma touch_eq:
  "db_updateLastUsed i now (if fill then db_updateSelector i selector now ks else ks) =
   update_first i (touch fill selector now) ks"
  by (simp add: db_updateLastUsed_def db_updateSelector_def update_first_comp touch_def [abs_def])

lemma id_unique:
  "distinct (map ak_id ks) \<Longrightarrow> k \<in> set ks \<Longrightarrow> k' \<in> set ks \<Longrightarrow> ak_id k = ak_id k' \<Longrightarrow> k = k'"
  by (auto simp: distinct_map dest: inj_onD)

lemma touch_keeps_backed:
  assumes "cache_backed ks m" "distinct (map ak_id ks)" "k \<in> set ks"
  shows "cache_backed (update_first (ak_id k) (touch (no_selector k) selector now) ks) m"
proof (rule cache_backed_update [OF assms(1,2)])
  fix s e k'
  assume "k' \<in> set ks" "ak_id k' = ak_id k" "backs s (ce_info e) k'"
  moreover from this have "k' = k" using id_unique [OF assms(2)] assms(3) by blast
  ultimately show "backs s (ce_info e) (touch (no_selector k) selector now k')"
    by (auto simp: backs_def no_selector_def)
qed

lemma touch_backs:
  assumes "distinct (map ak_id ks)" "k \<in> set ks" "ak_key_selector k = Some selector \<or> no_selector k" "selector \<noteq> []"
    "ak_is_active k"
  shows "\<exists>k'\<in>set (update_first (ak_id k) (touch (no_selector k) selector now) ks). backs selector (key_info k) k'"
proof (rule bexI)
  show "touch (no_selector k) selector now k \<in> set (update_first (ak_id k) (touch (no_selector k) selector now) ks)"
    using update_first_mem [OF assms(1,2), of "ak_id k"] by simp
  show "backs selector (key_info k) (touch (no_selector k) selector now k)"
    using assms(3-5) by (auto simp: backs_def key_info_def)
qed

text \<open>An expired key is switched off; no cached entry rests on it, since its own was not there.\<close>

lemma expire_keeps_backed:
  assumes "cache_backed ks m" "distinct (map ak_id ks)" "k \<in> set ks"
    "ak_key_selector k = Some selector \<or> no_selector k" "map_get m selector = None"
  shows "cache_backed (update_first (ak_id k) f ks) m"
proof (rule cache_backed_update [OF assms(1,2)])
  fix s e k'
  assume a: "map_get m s = Some e" "k' \<in> set ks" "ak_id k' = ak_id k" "backs s (ce_info e) k'"
  then have "k' = k" using id_unique [OF assms(2)] assms(3) by blast
  with a(4) assms(4) have "s = selector" by (auto simp: backs_def no_selector_def)
  with a(1) assms(5) show "backs s (ce_info e) (f k')" by simp
qed

lemma validate_finish_ok:
  assumes "keys_ok s" "k \<in> set (ks_keys s)" "ak_is_active k" "computeKeySelector sha256 apiKey \<noteq> []"
    "ak_key_selector k = Some (computeKeySelector sha256 apiKey) \<or> no_selector k"
    "map_get (kc_cache (ks_cache s)) (computeKeySelector sha256 apiKey) = None"
  shows "keys_ok (snd (validate_finish sha256 now apiKey k s))"
proof -
  let ?sel = "computeKeySelector sha256 apiKey"
  let ?ks = "update_first (ak_id k) (touch (no_selector k) ?sel now) (ks_keys s)"
  have ok: "distinct (map ak_id (ks_keys s))" "map_wf (kc_cache (ks_cache s))"
    "cache_backed (ks_keys s) (kc_cache (ks_cache s))"
    using assms(1) by (simp_all add: keys_ok_def)
  have dist: "distinct (map ak_id ?ks)" using ok(1) by (simp add: update_first_ids)
  have exp: "snd (db_deactivateApiKey (ak_id k) now ?ks) = update_first (ak_id k)
      (\<lambda>r. (touch (no_selector k) ?sel now r)\<lparr>ak_is_active := False, ak_updated_at := DateObj now\<rparr>) (ks_keys s)"
    by (simp add: db_deactivateApiKey_def update_first_comp)
  obtain k' where "k' \<in> set ?ks" "backs ?sel (key_info k) k'"
    using touch_backs [OF ok(1) assms(2,5,4,3)] by blast
  then have "cache_backed ?ks (kc_cache (authcache_set now ?sel (key_info k) (ks_cache s)))"
    using authcache_set_backed [OF touch_keeps_backed [OF ok(3,1) assms(2)]] by blast
  moreover have "cache_backed (snd (db_deactivateApiKey (ak_id k) now ?ks)) (kc_cache (ks_cache s))"
    unfolding exp by (rule expire_keeps_backed [OF ok(3,1) assms(2,5,6)])
  moreover have "distinct (map ak_id (snd (db_deactivateApiKey (ak_id k) now ?ks)))"
    unfolding exp using ok(1) by (simp add: update_first_ids)
  ultimately show ?thesis
    unfolding validate_finish_def Let_def touch_eq
    using dist ok(2) authcache_set_wf by (auto simp: keys_ok_def)
qed

lemma validateApiKey_ok:
  assumes "keys_ok s" "computeKeySelector sha256 apiKey \<noteq> []"
  shows "keys_ok (snd (validateApiKey sha256 pbkdf2 now apiKey s))"
proof -
  obtain r s1 where l: "validate_lookup sha256 pbkdf2 now apiKey s = (r, s1)"
    by (cases "validate_lookup sha256 pbkdf2 now apiKey s")
  show ?thesis
  proof (cases r)
    case (Candidate k)
    note c = validate_lookup_Candidate [OF l [unfolded Candidate] assms(1)]
    have "keys_ok (snd (validate_finish sha256 now apiKey k s1))"
      by (rule validate_finish_ok) (use c assms(2) in simp_all)
    with l Candidate show ?thesis by (simp add: validateApiKey_def)
  qed (insert validate_lookup_other(1) [OF l assms(1)] l, simp_all add: validateApiKey_def)
qed

text \<open>Whoever is let in stands on an active row with the selector of his key, or on a row without one.\<close>

lemma validateApiKey_row:
  assumes "keys_ok s" "fst (validateApiKey sha256 pbkdf2 now apiKey s) = Some info"
  shows "\<exists>k\<in>set (ks_keys s). ak_is_active k \<and> ak_id k = ki_id info \<and>
    (ak_key_selector k = Some (computeKeySelector sha256 apiKey) \<or> no_selector k \<and> stored_verifies pbkdf2 apiKey k)"
proof -
  obtain r s1 where l: "validate_lookup sha256 pbkdf2 now apiKey s = (r, s1)"
    by (cases "validate_lookup sha256 pbkdf2 now apiKey s")
  show ?thesis
  proof (cases r)
    case (Cached i)
    then have "i = info" using assms(2) l by (simp add: validateApiKey_def)
    with validate_lookup_other(2) [OF l assms(1)] Cached show ?thesis by (auto simp: backs_def)
  next
    case NoKey
    then show ?thesis using assms(2) l by (simp add: validateApiKey_def)
  next
    case (Candidate k)
    note c = validate_lookup_Candidate [OF l [unfolded Candidate] assms(1)]
    have "info = key_info k"
      using assms(2) l Candidate by (auto simp: validateApiKey_def validate_finish_def Let_def split: if_splits)
    with c show ?thesis by (auto simp: key_info_def)
  qed
qed

lemma db_getApiKeyById_update:
  "(\<And>k. ak_id (f k) = ak_id k) \<Longrightarrow> db_getApiKeyById i (update_first j f ks) =
     (if i = j then map_option f (db_getApiKeyById i ks) else db_getApiKeyById i ks)"
  by (induction ks) (auto simp: db_getApiKeyById_def)

lemma db_getApiKeyById_mem: "db_getApiKeyById i ks = Some k \<Longrightarrow> k \<in> set ks \<and> ak_id k = i"
  unfolding db_getApiKeyById_def by (drule find_mem) simp

lemma drop_cached_backed:
  assumes "cache_backed ks (kc_cache c)" "map_wf (kc_cache c)" "distinct (map ak_id ks)"
    "db_getApiKeyById i ks = Some k"
  shows "cache_backed (update_first i f ks) (kc_cache (drop_cached k c))"
proof (rule cache_backed_update [OF _ assms(3)])
  show "cache_backed ks (kc_cache (drop_cached k c))"
    by (rule cache_backed_sub [OF assms(1)]) (use drop_cached_get(1) [OF assms(2)] in blast)
next
  fix s e k'
  assume a: "map_get (kc_cache (drop_cached k c)) s = Some e" "k' \<in> set ks" "ak_id k' = i" "backs s (ce_info e) k'"
  have "k' = k" using id_unique [OF assms(3)] db_getApiKeyById_mem [OF assms(4)] a(2,3) by simp
  with a(4) drop_cached_get(2) [OF assms(2) a(1)] show "backs s (ce_info e) (f k')" by (simp add: backs_def)
qed

lemma rotateApiKey_ok: "keys_ok s \<Longrightarrow> keys_ok (snd (rotateApiKey sha256 pbkdf2 new salt now i s))"
  using drop_cached_backed [of "ks_keys s" "ks_cache s" i] drop_cached_wf [of "ks_cache s"]
  by (auto simp: rotateApiKey_def db_rotateApiKey_def keys_ok_def Let_def update_first_ids db_getApiKeyById_update
      split: option.splits prod.splits)

lemma deactivateApiKey_ok: "keys_ok s \<Longrightarrow> keys_ok (snd (deactivateApiKey now i s))"
  using drop_cached_backed [of "ks_keys s" "ks_cache s" i] drop_cached_wf [of "ks_cache s"]
  by (auto simp: deactivateApiKey_def db_deactivateApiKey_def keys_ok_def update_first_ids
      split: option.splits prod.splits)

lemma createApiKey_ok:
  assumes "keys_ok s" "i \<notin> ak_id ` set (ks_keys s)"
  shows "keys_ok (snd (createApiKey sha256 pbkdf2 apiKey salt i now name scope createdBy expires s))"
proof -
  have "cache_backed (ks_keys s @ [k]) m" if "cache_backed (ks_keys s) m" for k m
    using that by (auto simp: cache_backed_def)
  moreover have "cache_backed (ks_keys s) (kc_cache (authcache_invalidateByUserId createdBy (ks_cache s)))"
    using assms(1) by (simp add: keys_ok_def authcache_invalidateByUserId_def Let_def cache_backed_fold_delete)
  ultimately show ?thesis
    using assms
    by (auto simp: createApiKey_def db_createApiKey_def keys_ok_def Let_def authcache_invalidateByUserId_def image_iff)
qed

subsection \<open>Revocation\<close>

text \<open>
  The calls of the key service; the ids of new keys are random UUIDs, which are not in
  use.
\<close>

datatype key_op =
    KCreate string string string int string "string list" string "stored_date option"
  | KValidate int string
  | KRotate string string int string
  | KDeactivate int string
  | KCleanup int
  | KClear

fun key_handle :: "(string \<Rightarrow> string) \<Rightarrow> (string \<Rightarrow> string \<Rightarrow> string) \<Rightarrow> key_op \<Rightarrow> key_service \<Rightarrow> key_service" where
  "key_handle sha256 pbkdf2 (KCreate apiKey salt i now name scope createdBy expiresAt) s =
     (if i \<in> ak_id ` set (ks_keys s) then s
      else snd (createApiKey sha256 pbkdf2 apiKey salt i now name scope createdBy expiresAt s))"
| "key_handle sha256 pbkdf2 (KValidate now apiKey) s = snd (validateApiKey sha256 pbkdf2 now apiKey s)"
| "key_handle sha256 pbkdf2 (KRotate new salt now i) s = snd (rotateApiKey sha256 pbkdf2 new salt now i s)"
| "key_handle sha256 pbkdf2 (KDeactivate now i) s = snd (deactivateApiKey now i s)"
| "key_handle sha256 pbkdf2 (KCleanup now) s = s\<lparr>ks_cache := snd (authcache_cleanupExpired now (ks_cache s))\<rparr>"
| "key_handle sha256 pbkdf2 KClear s = s\<lparr>ks_cache := authcache_clear (ks_cache s)\<rparr>"

lemma key_handle_ok:
  assumes "\<And>x. hex_digest (sha256 x)" "keys_ok s"
  shows "keys_ok (key_handle sha256 pbkdf2 p s)"
proof (cases p)
  case (KValidate now apiKey)
  have "sha256 apiKey \<noteq> []" using assms(1) [of apiKey] by (auto simp: hex_digest_def)
  with validateApiKey_ok [OF assms(2)] KValidate show ?thesis by (simp add: computeKeySelector_def)
next
  case (KCleanup now)
  with assms(2) show ?thesis
    by (simp add: keys_ok_def authcache_cleanupExpired_def Let_def cache_backed_fold_delete)
next
  case KClear
  with assms(2) show ?thesis by (simp add: keys_ok_def authcache_clear_def cache_backed_def)
qed (simp_all add: assms(2) createApiKey_ok rotateApiKey_ok deactivateApiKey_ok)

text \<open>What an operation does to the row of a key.\<close>

lemma validate_row_step:
  assumes "keys_ok s" "db_getApiKeyById i (ks_keys s) = Some k"
  shows "\<exists>k'. db_getApiKeyById i (ks_keys (snd (validateApiKey sha256 pbkdf2 now apiKey s))) = Some k'
    \<and> (ak_is_active k' \<longrightarrow> ak_is_active k) \<and> (\<not> no_selector k \<longrightarrow> ak_key_selector k' = ak_key_selector k)"
proof -
  obtain r s1 where l: "validate_lookup sha256 pbkdf2 now apiKey s = (r, s1)"
    by (cases "validate_lookup sha256 pbkdf2 now apiKey s")
  show ?thesis
  proof (cases r)
    case (Candidate c)
    note c = validate_lookup_Candidate [OF l [unfolded Candidate] assms(1)]
    have same: "c = k" if "ak_id c = i"
      using id_unique [of "ks_keys s" c k] c(1) db_getApiKeyById_mem [OF assms(2)] assms(1) that
      by (simp add: keys_ok_def)
    let ?t = "touch (no_selector c) (computeKeySelector sha256 apiKey) now"
    have "ks_keys (snd (validateApiKey sha256 pbkdf2 now apiKey s)) \<in>
        {update_first (ak_id c) ?t (ks_keys s),
         update_first (ak_id c) (\<lambda>r. (?t r)\<lparr>ak_is_active := False, ak_updated_at := DateObj now\<rparr>) (ks_keys s)}"
      using l Candidate c(5)
      by (auto simp: validateApiKey_def validate_finish_def Let_def touch_eq db_deactivateApiKey_def update_first_comp)
    with assms(2) same show ?thesis
      by (auto simp: db_getApiKeyById_update)
  next
    case (Cached info)
    then show ?thesis using l assms(2) by (auto simp: validateApiKey_def validate_lookup_def Let_def
        split: option.splits prod.splits if_splits)
  next
    case NoKey
    then show ?thesis using l assms(2) by (auto simp: validateApiKey_def validate_lookup_def Let_def
        split: option.splits prod.splits if_splits)
  qed
qed

fun rotates :: "key_op \<Rightarrow> string \<Rightarrow> bool" where
  "rotates (KRotate new salt now i) j \<longleftrightarrow> i = j"
| "rotates _ j \<longleftrightarrow> False"

lemma key_row_step:
  assumes "keys_ok s" "db_getApiKeyById i (ks_keys s) = Some k"
  shows "\<exists>k'. db_getApiKeyById i (ks_keys (key_handle sha256 pbkdf2 p s)) = Some k'
    \<and> (ak_is_active k' \<longrightarrow> ak_is_active k)
    \<and> (\<not> rotates p i \<and> \<not> no_selector k \<longrightarrow> ak_key_selector k' = ak_key_selector k)"
proof (cases p)
  case (KCreate apiKey salt j now name scope createdBy expiresAt)
  have "find P (xs @ [y]) = Some x" if "find P xs = Some x" for P :: "api_key \<Rightarrow> bool" and xs y x
    using that by (rule find_append_Some)
  with KCreate assms(2) show ?thesis
    by (auto simp: createApiKey_def db_createApiKey_def Let_def db_getApiKeyById_def)
next
  case (KValidate now apiKey)
  with validate_row_step [OF assms] show ?thesis by simp
next
  case (KRotate new salt now j)
  with assms(2) show ?thesis
    by (auto simp: rotateApiKey_def db_rotateApiKey_def Let_def db_getApiKeyById_update split: option.splits prod.splits)
next
  case (KDeactivate now j)
  with assms(2) show ?thesis
    by (auto simp: deactivateApiKey_def db_deactivateApiKey_def db_getApiKeyById_update split: option.splits prod.splits)
qed (simp_all add: assms(2))

interpretation key_sys: handler_system "key_handle sha256 pbkdf2" "\<lambda>s. (\<forall>x. hex_digest (sha256 x)) \<and> keys_ok s"
  for sha256 pbkdf2
  by unfold_locales (blast intro: key_handle_ok)

definition row_inactive :: "string \<Rightarrow> key_service \<Rightarrow> bool" where
  "row_inactive i s \<longleftrightarrow> (\<exists>k. db_getApiKeyById i (ks_keys s) = Some k \<and> \<not> ak_is_active k)"

definition row_selector :: "string \<Rightarrow> string \<Rightarrow> key_service \<Rightarrow> bool" where
  "row_selector i selector s \<longleftrightarrow>
     (\<exists>k. db_getApiKeyById i (ks_keys s) = Some k \<and> ak_key_selector k = Some selector \<and> selector \<noteq> [])"

interpretation revoked_sys: handler_system "key_handle sha256 pbkdf2"
  "\<lambda>s. (\<forall>x. hex_digest (sha256 x)) \<and> keys_ok s \<and> row_inactive i s"
  for sha256 pbkdf2 i
proof unfold_locales
  fix s e
  assume a: "(\<forall>x. hex_digest (sha256 x)) \<and> keys_ok s \<and> row_inactive i s"
  then obtain k where "db_getApiKeyById i (ks_keys s) = Some k" "\<not> ak_is_active k" by (auto simp: row_inactive_def)
  with a key_row_step [of s i k sha256 pbkdf2 e] have "row_inactive i (key_handle sha256 pbkdf2 e s)"
    by (auto simp: row_inactive_def)
  with a key_handle_ok show "(\<forall>x. hex_digest (sha256 x)) \<and> keys_ok (key_handle sha256 pbkdf2 e s)
    \<and> row_inactive i (key_handle sha256 pbkdf2 e s)" by blast
qed

interpretation rotated_sys: handler_system "\<lambda>p s. if rotates p i then s else key_handle sha256 pbkdf2 p s"
  "\<lambda>s. (\<forall>x. hex_digest (sha256 x)) \<and> keys_ok s \<and> row_selector i selector s"
  for sha256 pbkdf2 i selector
proof unfold_locales
  fix s e
  assume a: "(\<forall>x. hex_digest (sha256 x)) \<and> keys_ok s \<and> row_selector i selector s"
  then obtain k where k: "db_getApiKeyById i (ks_keys s) = Some k" "ak_key_selector k = Some selector" "selector \<noteq> []"
    by (auto simp: row_selector_def)
  have "row_selector i selector (key_handle sha256 pbkdf2 e s)" if "\<not> rotates e i"
    using a k that key_row_step [of s i k sha256 pbkdf2 e] by (auto simp: row_selector_def no_selector_def)
  with a key_handle_ok show "(\<forall>x. hex_digest (sha256 x)) \<and> keys_ok (if rotates e i then s else key_handle sha256 pbkdf2 e s)
    \<and> row_selector i selector (if rotates e i then s else key_handle sha256 pbkdf2 e s)" by auto
qed

definition key_start :: "api_key list \<Rightarrow> int \<Rightarrow> int \<Rightarrow> key_service" where
  "key_start rows ttlMs maxEntries = \<lparr>ks_keys = rows, ks_cache = new_auth_cache ttlMs maxEntries\<rparr>"

lemma key_start_ok: "distinct (map ak_id rows) \<Longrightarrow> keys_ok (key_start rows ttlMs maxEntries)"
  by (simp add: keys_ok_def key_start_def new_auth_cache_def cache_backed_def)

lemma validate_inactive:
  assumes "keys_ok s" "row_inactive i s" "fst (validateApiKey sha256 pbkdf2 now apiKey s) = Some info"
  shows "ki_id info \<noteq> i"
proof
  assume i: "ki_id info = i"
  obtain k where k: "k \<in> set (ks_keys s)" "ak_is_active k" "ak_id k = i"
    using validateApiKey_row [OF assms(1,3)] i by blast
  obtain k' where "k' \<in> set (ks_keys s)" "ak_id k' = i" "\<not> ak_is_active k'"
    using assms(2) db_getApiKeyById_mem by (auto simp: row_inactive_def)
  with k id_unique [of "ks_keys s" k k'] assms(1) show False by (auto simp: keys_ok_def)
qed

lemma validate_selector:
  assumes "keys_ok s" "row_selector i selector s" "fst (validateApiKey sha256 pbkdf2 now apiKey s) = Some info"
    "ki_id info = i"
  shows "computeKeySelector sha256 apiKey = selector"
proof -
  obtain k where k: "k \<in> set (ks_keys s)" "ak_id k = i"
      "ak_key_selector k = Some (computeKeySelector sha256 apiKey) \<or> no_selector k"
    using validateApiKey_row [OF assms(1,3)] assms(4) by blast
  obtain k' where k': "k' \<in> set (ks_keys s)" "ak_id k' = i" "ak_key_selector k' = Some selector" "selector \<noteq> []"
    using assms(2) db_getApiKeyById_mem by (auto simp: row_selector_def)
  have "k = k'" using id_unique [of "ks_keys s" k k'] k k' assms(1) by (simp add: keys_ok_def)
  with k(3) k'(3,4) show ?thesis by (auto simp: no_selector_def)
qed

text \<open>
  C39: revocation takes effect at once and for good, although validations are cached.
  From any table with distinct ids and after any calls: once a key has been deactivated,
  no later validation answers with that key; and once it has been rotated, until it is
  rotated again, only an API key with the selector of the new one is answered with it.
  Validations are not interrupted by other calls here; SHA-256 prints 64 hexadecimal
  digits.
\<close>

theorem revoked_keys_refused:
  assumes digest: "\<And>x. hex_digest (sha256 x)"
    and table: "distinct (map ak_id rows)"
    and s: "s = fold (key_handle sha256 pbkdf2) earlier (key_start rows ttlMs maxEntries)"
    and later: "fst (validateApiKey sha256 pbkdf2 now apiKey (fold (key_handle sha256 pbkdf2) ops s1)) = Some info"
  shows "(deactivateApiKey t i s = (True, s1) \<longrightarrow> ki_id info \<noteq> i)
    \<and> (rotateApiKey sha256 pbkdf2 new salt t i s = (Some (new, new_info), s1)
         \<and> (\<forall>p\<in>set ops. \<not> rotates p i) \<and> ki_id info = i
       \<longrightarrow> computeKeySelector sha256 apiKey = computeKeySelector sha256 new)"
proof (intro conjI impI)
  have ok: "keys_ok s"
    using key_sys.run_inv [of sha256 "key_start rows ttlMs maxEntries" pbkdf2 earlier] key_start_ok [OF table] digest
    by (simp add: s)
  let ?s' = "fold (key_handle sha256 pbkdf2) ops s1"
  show "ki_id info \<noteq> i" if d: "deactivateApiKey t i s = (True, s1)"
  proof -
    have "row_inactive i s1"
      using d by (auto simp: deactivateApiKey_def row_inactive_def db_deactivateApiKey_def db_getApiKeyById_update
          split: option.splits)
    moreover have "keys_ok s1" using deactivateApiKey_ok [OF ok, of t i] d by simp
    ultimately have "keys_ok ?s' \<and> row_inactive i ?s'"
      using revoked_sys.run_inv [of sha256 s1 i pbkdf2 ops] digest by blast
    then show ?thesis using validate_inactive [OF _ _ later] by blast
  qed
  show "computeKeySelector sha256 apiKey = computeKeySelector sha256 new"
    if r: "rotateApiKey sha256 pbkdf2 new salt t i s = (Some (new, new_info), s1)
         \<and> (\<forall>p\<in>set ops. \<not> rotates p i) \<and> ki_id info = i"
  proof -
    have "sha256 new \<noteq> []" using digest [of new] by (auto simp: hex_digest_def)
    then have "row_selector i (computeKeySelector sha256 new) s1"
      using r by (auto simp: rotateApiKey_def row_selector_def db_rotateApiKey_def Let_def db_getApiKeyById_update
          computeKeySelector_def split: option.splits prod.splits)
    moreover have "keys_ok s1" using rotateApiKey_ok [OF ok, of sha256 pbkdf2 new salt t i] r by simp
    moreover have "fold (\<lambda>p s. if rotates p i then s else key_handle sha256 pbkdf2 p s) ops s1 = ?s'"
      using r by (intro fold_cong) auto
    ultimately have "keys_ok ?s' \<and> row_selector i (computeKeySelector sha256 new) ?s'"
      using rotated_sys.run_inv [of sha256 s1 i "computeKeySelector sha256 new" pbkdf2 ops] digest by simp
    then show ?thesis using validate_selector [OF _ _ later] r by blast
  qed
qed

definition sample_pbkdf2 :: "string \<Rightarrow> string \<Rightarrow> string" where
  "sample_pbkdf2 apiKey salt = replicate 128 (if length apiKey < 20 then CHR ''1'' else CHR ''2'')"

definition sample_create :: "string \<Rightarrow> string \<Rightarrow> key_op" where
  "sample_create apiKey i = KCreate apiKey (replicate 32 (CHR ''a'')) i 10 ''key'' [''contracts:read''] ''u1'' None"

definition sample_keys :: key_service where
  "sample_keys = fold (key_handle sample_sha sample_pbkdf2)
     [sample_create ''short'' ''k1'', sample_create ''a much longer api key'' ''k2''] (key_start [] 1000 10)"

definition sample_revoked :: key_service where
  "sample_revoked = snd (deactivateApiKey 20 ''k1'' sample_keys)"

lemma sample_keys_run:
  "fst (deactivateApiKey 20 ''k1'' sample_keys)"
  "map_option ki_id (fst (validateApiKey sample_sha sample_pbkdf2 30 ''a much longer api key'' sample_revoked)) = Some ''k2''"
  by code_simp+

theorem revoked_keys_refused_witness:
  "\<exists>info. fst (validateApiKey sample_sha sample_pbkdf2 30 ''a much longer api key'' sample_revoked) = Some info
     \<and> ki_id info \<noteq> ''k1''"
proof -
  obtain info where info: "fst (validateApiKey sample_sha sample_pbkdf2 30 ''a much longer api key'' sample_revoked) = Some info"
    using sample_keys_run(2) by auto
  have digest: "hex_digest (sample_sha x)" for x
    by (simp add: hex_digest_def sample_sha_def hex_char_def list_all_iff)
  have "deactivateApiKey 20 ''k1'' sample_keys = (True, sample_revoked)"
    using sample_keys_run(1) by (simp add: sample_revoked_def prod_eq_iff)
  then show ?thesis
    using revoked_keys_refused [where ?sha256.0 = sample_sha and ?pbkdf2.0 = sample_pbkdf2 and rows = "[]" and s = sample_keys
        and earlier = "[sample_create ''short'' ''k1'', sample_create ''a much longer api key'' ''k2'']"
        and ttlMs = 1000 and maxEntries = 10 and now = 30 and apiKey = "''a much longer api key''" and ops = "[]"
        and ?s1.0 = sample_revoked and info = info and t = 20 and i = "''k1''"] info digest
    by (simp add: sample_keys_def)
qed

subsection \<open>What the cache and the guards let through\<close>

text \<open>A cached answer is given until its time to live is over, also when the key has expired meanwhile.\<close>

lemma expired_key_cached:
  assumes "map_get (kc_cache (ks_cache s)) (computeKeySelector sha256 apiKey) = Some e" "now \<le> ce_expiresAt e"
    "ki_expiresAt (ce_info e) = Some (DateObj d)" "d < now"
  shows "fst (validateApiKey sha256 pbkdf2 now apiKey s) = Some (ce_info e)"
  using assms by (simp add: validateApiKey_def validate_lookup_def authcache_get_def Let_def)

text \<open>
  A validation that found its key before the key was deactivated, and goes on after it,
  caches the key again.  (The row that the lookup returned and the row of the table are
  one object, so that the cached \<open>isActive\<close> may already be false; nothing reads it.)
\<close>

lemma deactivated_key_cached_again:
  assumes "validate_lookup sha256 pbkdf2 now apiKey s = (Candidate k, s1)" "ak_expires_at k = None"
    "deactivateApiKey t (ak_id k) s1 = (True, s2)" "validate_finish sha256 now' apiKey k s2 = (r, s3)"
    "now'' \<le> now' + kc_ttlMs (ks_cache s2)"
  shows "fst (validateApiKey sha256 pbkdf2 now'' apiKey s3) = Some (key_info k)"
proof -
  have "map_get (kc_cache (ks_cache s3)) (computeKeySelector sha256 apiKey) =
      Some \<lparr>ce_info = key_info k, ce_expiresAt = now' + kc_ttlMs (ks_cache s2), ce_lastAccessed = now'\<rparr>"
    using assms(2,4) by (auto simp: validate_finish_def Let_def authcache_set_def)
  with assms(5) show ?thesis by (simp add: validateApiKey_def validate_lookup_def authcache_get_def Let_def)
qed

text \<open>A date that was read back from the database file is text, and text never passes.\<close>

lemma reloaded_key_never_expires: "\<not> date_passed now (DateText ''2020-01-01T00:00:00.000Z'')"
proof -
  have "js_Number ''2020-01-01T00:00:00.000Z'' = None" by code_simp
  then show ?thesis by (simp add: date_passed_def)
qed

text \<open>The wildcard for actions is also seen at the end of a longer scope.\<close>

lemma nested_scope_matches: "scope_matches ''contracts'' ''delete'' ''contracts:archive:*''"
  by code_simp

text \<open>The administrative guard lets a fixed token in, whatever the environment.\<close>

lemma demo_token_is_admin:
  "adminAuthGuard verify validate (Some ''Bearer demo-admin-token'') key =
   LegacyNext \<lparr>au_id = JStr ''admin-user-id'', au_email = JStr ''admin@talenttrust.com'', au_role = ''admin'',
     au_authMethod = ''jwt''\<rparr>"
  by (simp add: adminAuthGuard_def extractBearerToken_def)

text \<open>Apart from it, the guard asks for an administrator's token or a key with an administrative scope.\<close>

lemma adminAuthGuard_passes:
  assumes "adminAuthGuard verify validate header key = LegacyNext u" "header \<noteq> Some ''Bearer demo-admin-token''"
  shows "(\<exists>token. header = Some (''Bearer '' @ token) \<and> validateAdminJwt verify token = Some u \<and> au_role u \<in> set ADMIN_ROLES)
    \<or> (\<exists>k info. key = Some k \<and> validate k = Ok (Some info) \<and> hasAdminScope info \<and> au_role u = ''admin'')"
proof (cases "case header of Some h \<Rightarrow> js_startsWith h ''Bearer '' | None \<Rightarrow> False")
  case True
  then obtain token where header: "header = Some (''Bearer '' @ token)"
    by (auto simp: js_startsWith_iff split: option.splits)
  with assms have "validateAdminJwt verify token = Some u"
    by (auto simp: adminAuthGuard_def extractBearerToken_def Let_def split: if_splits option.splits)
  moreover from this have "au_role u \<in> set ADMIN_ROLES"
    by (auto simp: validateAdminJwt_def split: sum.splits if_splits json.splits)
  ultimately show ?thesis using header by blast
next
  case False
  with assms(1) show ?thesis
    by (auto simp: adminAuthGuard_def split: option.splits if_splits sum.splits)
qed

subsection \<open>The bound of the cache\<close>

lemma oldest_entry_mem:
  "oldest_entry m best = Some (s, t) \<Longrightarrow> best = Some (s, t) \<or> s \<in> fst ` set m"
proof (induction m best rule: oldest_entry.induct)
  case (2 selector entry m best)
  then show ?case by (cases best) (auto split: if_splits)
qed simp

lemma oldest_entry_some: "m \<noteq> [] \<or> best \<noteq> None \<Longrightarrow> oldest_entry m best \<noteq> None"
  by (induction m best rule: oldest_entry.induct) (auto split: option.splits)

lemma map_size_delete_mem: "k \<in> fst ` set m \<Longrightarrow> map_size (map_delete k m) < map_size m"
proof -
  assume "k \<in> fst ` set m"
  then obtain v where "(k, v) \<in> set m" by force
  then show ?thesis unfolding map_size_def map_delete_def
    by (rule length_filter_less) simp
qed

text \<open>A cache whose selectors are not empty stays within its bound.\<close>

lemma authcache_bounded:
  assumes "int (map_size (kc_cache c)) \<le> kc_maxEntries c" "0 < kc_maxEntries c" "[] \<notin> fst ` set (kc_cache c)"
  shows "int (map_size (kc_cache (authcache_set now selector info c))) \<le> kc_maxEntries c"
proof (cases "kc_maxEntries c \<le> int (map_size (kc_cache c)) \<and> \<not> map_has (kc_cache c) selector")
  case True
  then have "kc_cache c \<noteq> []" using assms(2) by (auto simp: map_size_def)
  then obtain s t where st: "oldest_entry (kc_cache c) None = Some (s, t)"
    using oldest_entry_some [of "kc_cache c" None] by auto
  then have mem: "s \<in> fst ` set (kc_cache c)" using oldest_entry_mem by fastforce
  with assms(3) have "s \<noteq> []" by (metis)
  with st have "kc_cache (authcache_evictOldest c) = map_delete s (kc_cache c)" by (simp add: authcache_evictOldest_def)
  with map_size_delete_mem [OF mem] True assms(1) show ?thesis
    by (simp add: authcache_set_def Let_def map_size_set)
next
  case False
  with assms(1) show ?thesis by (auto simp: authcache_set_def Let_def map_size_set map_has_def)
qed

end
