(* ===== verification/Retry.thy ===== *)
theory Retry
  imports Canonical CircuitBreaker
begin

text \<open>
  Retries with exponential back-off (\<open>utils/retry.ts\<close>) and the client of the Stellar RPC
  that is built on them (\<open>rpc/stellarConfig.ts\<close>, \<open>rpc/stellarClient.ts\<close>).

  What the retried function answers at its \<open>n\<close>-th call, the random numbers and the clock
  are arguments; \<open>withRetry\<close> returns its answer and the pauses it made.  A delay of
  \<open>Infinity\<close> is \<^const>\<open>None\<close>.  The lemmas give the exact answer of \<open>withRetry\<close>, the number of
  calls, and bounds of the pauses; for the client they show which errors are retried and
  that a call is one outcome for the circuit breaker.
\<close>

subsection \<open>Delays\<close>

definition js_min :: "rat \<Rightarrow> rat option \<Rightarrow> rat" where
  "js_min x bound = (case bound of None \<Rightarrow> x | Some b \<Rightarrow> min x b)"

definition calculateDelay :: "rat \<Rightarrow> int \<Rightarrow> rat \<Rightarrow> rat option \<Rightarrow> bool \<Rightarrow> rat" where
  "calculateDelay random attempt baseDelayMs maxDelayMs jitter =
     (let exponential = js_min (baseDelayMs * 2 powi attempt) maxDelayMs
      in if jitter then exponential * (1 / 2 + random * (1 / 2)) else exponential)"

definition parseRetryAfter :: "(string \<Rightarrow> int option) \<Rightarrow> int \<Rightarrow> string option \<Rightarrow> int \<Rightarrow> int option" where
  "parseRetryAfter date_parse now headerValue maxRetryAfterMs =
     (case headerValue of
        None \<Rightarrow> None
      | Some h \<Rightarrow>
          if h = [] then None
          else let trimmed = js_trim h; delta = js_parseInt trimmed
               in if (case delta of Some d \<Rightarrow> 0 \<le> d \<and> show_int d = trimmed | None \<Rightarrow> False)
                  then Some (min (the delta * 1000) maxRetryAfterMs)
                  else (case date_parse trimmed of
                          Some parsed \<Rightarrow> let diff = parsed - now
                                         in if diff > 0 then Some (min diff maxRetryAfterMs) else Some 0
                        | None \<Rightarrow> None))"

subsection \<open>The loop\<close>

record 'e retry_options =
  ro_maxAttempts :: "rat option"
  ro_baseDelayMs :: "rat option"
  ro_maxDelayMs :: "rat option"
  ro_jitter :: "bool option"
  ro_isRetryable :: "('e \<Rightarrow> bool) option"
  ro_maxRetryAfterMs :: "int option"
  ro_retryAfterHeader :: "string option"

record 'e retry_settings =
  rs_maxAttempts :: rat
  rs_baseDelayMs :: rat
  rs_maxDelayMs :: rat
  rs_jitter :: bool
  rs_isRetryable :: "'e \<Rightarrow> bool"
  rs_maxRetryAfterMs :: int
  rs_retryAfterHeader :: "string option"

definition DEFAULT_OPTIONS :: "'e retry_settings" where
  "DEFAULT_OPTIONS =
     \<lparr>rs_maxAttempts = 3, rs_baseDelayMs = 200, rs_maxDelayMs = 5000, rs_jitter = True, rs_isRetryable = (\<lambda>_. True),
      rs_maxRetryAfterMs = 60000, rs_retryAfterHeader = None\<rparr>"

text \<open>\<open>{ ...DEFAULT_OPTIONS, ...options }\<close> for options that are present or absent.\<close>

definition with_defaults :: "'e retry_options \<Rightarrow> 'e retry_settings" where
  "with_defaults o' =
     \<lparr>rs_maxAttempts = or_default (rs_maxAttempts (DEFAULT_OPTIONS :: 'e retry_settings)) (ro_maxAttempts o'),
      rs_baseDelayMs = or_default (rs_baseDelayMs (DEFAULT_OPTIONS :: 'e retry_settings)) (ro_baseDelayMs o'),
      rs_maxDelayMs = or_default (rs_maxDelayMs (DEFAULT_OPTIONS :: 'e retry_settings)) (ro_maxDelayMs o'),
      rs_jitter = or_default (rs_jitter (DEFAULT_OPTIONS :: 'e retry_settings)) (ro_jitter o'),
      rs_isRetryable = or_default (rs_isRetryable DEFAULT_OPTIONS) (ro_isRetryable o'),
      rs_maxRetryAfterMs = or_default (rs_maxRetryAfterMs (DEFAULT_OPTIONS :: 'e retry_settings)) (ro_maxRetryAfterMs o'),
      rs_retryAfterHeader = ro_retryAfterHeader o'\<rparr>"

text \<open>The random numbers, the clock and the parser of dates that the pauses depend on.\<close>

record retry_env =
  re_random :: "nat \<Rightarrow> rat"
  re_now :: "nat \<Rightarrow> int"
  re_date_parse :: "string \<Rightarrow> int option"

definition retry_delay :: "retry_env \<Rightarrow> 'e retry_settings \<Rightarrow> nat \<Rightarrow> rat" where
  "retry_delay env opts attempt =
     (case parseRetryAfter (re_date_parse env) (re_now env attempt) (rs_retryAfterHeader opts) (rs_maxRetryAfterMs opts) of
        Some retryAfterMs \<Rightarrow> of_int retryAfterMs
      | None \<Rightarrow> calculateDelay (re_random env attempt) (int attempt) (rs_baseDelayMs opts) (Some (rs_maxDelayMs opts))
                  (rs_jitter opts))"

text \<open>The error is \<^const>\<open>None\<close> where the source throws \<open>undefined\<close>.\<close>

function retry_loop ::
  "retry_env \<Rightarrow> 'e retry_settings \<Rightarrow> (nat \<Rightarrow> ('e, 'a) result) \<Rightarrow> nat \<Rightarrow> 'e option \<Rightarrow> ('e option, 'a) result \<times> rat list" where
  "retry_loop env opts fn attempt lastError =
     (if of_nat attempt < rs_maxAttempts opts
      then (case fn attempt of
              Ok v \<Rightarrow> (Ok v, [])
            | Throw error \<Rightarrow>
                if of_nat attempt = rs_maxAttempts opts - 1 \<or> \<not> rs_isRetryable opts error
                then (Throw (Some error), [])
                else let (answer, delays) = retry_loop env opts fn (Suc attempt) (Some error)
                     in (answer, retry_delay env opts attempt # delays))
      else (Throw lastError, []))"
  by pat_completeness auto

lemma attempts_left: "of_nat a < (m :: rat) \<Longrightarrow> nat \<lceil>m - of_nat (Suc a)\<rceil> < nat \<lceil>m - of_nat a\<rceil>"
proof -
  assume a: "of_nat a < m"
  have "m - of_nat (Suc a) = (m - of_nat a) - of_int 1" by simp
  then have "\<lceil>m - of_nat (Suc a)\<rceil> = \<lceil>m - of_nat a\<rceil> - 1" by (simp only: ceiling_diff_of_int)
  moreover have "0 < \<lceil>m - of_nat a\<rceil>" using a by simp
  ultimately show ?thesis by simp
qed

termination retry_loop
  by (relation "measure (\<lambda>(env, opts, fn, attempt, lastError). nat \<lceil>rs_maxAttempts opts - of_nat attempt\<rceil>)")
    (simp_all only: wf_measure in_measure prod.case attempts_left)

declare retry_loop.simps [simp del]

definition withRetry ::
  "retry_env \<Rightarrow> (nat \<Rightarrow> ('e, 'a) result) \<Rightarrow> 'e retry_options \<Rightarrow> ('e option, 'a) result \<times> rat list" where
  "withRetry env fn options = retry_loop env (with_defaults options) fn 0 None"

subsection \<open>What the loop answers\<close>

text \<open>The calls before the \<open>k\<close>-th, from the \<open>a\<close>-th on, failed in a way that is retried.\<close>

definition retried :: "'e retry_settings \<Rightarrow> (nat \<Rightarrow> ('e, 'a) result) \<Rightarrow> nat \<Rightarrow> nat \<Rightarrow> bool" where
  "retried opts fn a k \<longleftrightarrow> (\<forall>j\<in>{a..<k}. case fn j of Ok v \<Rightarrow> False | Throw e \<Rightarrow> rs_isRetryable opts e)"

lemma retried_refl [simp]: "retried opts fn a a"
  by (simp add: retried_def)

lemma retried_step: "retried opts fn (Suc a) k \<Longrightarrow> fn a = Throw e \<Longrightarrow> rs_isRetryable opts e \<Longrightarrow> retried opts fn a k"
  unfolding retried_def by (metis (mono_tags, lifting) Suc_leI atLeastLessThan_iff le_neq_implies_less old.sum.simps(5))

lemma integral_last:
  assumes "of_nat a < (m :: rat)" "m \<in> \<int>" "m \<le> of_nat (Suc a)"
  shows "of_nat a = m - 1"
proof -
  obtain z where z: "m = of_int z" using assms(2) by (auto elim: Ints_cases)
  then have "of_int (int a) < (of_int z :: rat)" "of_int z \<le> (of_int (int a + 1) :: rat)" using assms by simp_all
  then have "z = int a + 1" by (simp only: of_int_less_iff of_int_le_iff)
  then show ?thesis by (simp add: z)
qed

text \<open>
  The loop ends with the call \<open>k\<close>: the first that succeeds, that fails for good, or that is
  the last one allowed.
\<close>

lemma retry_loop_exact:
  assumes "of_nat a < rs_maxAttempts opts"
  obtains k where "a \<le> k" "of_nat k < rs_maxAttempts opts" "retried opts fn a k"
    "rs_maxAttempts opts \<in> \<int> \<Longrightarrow> length (snd (retry_loop env opts fn a l)) = k - a"
    "fst (retry_loop env opts fn a l) = (case fn k of Ok v \<Rightarrow> Ok v | Throw e \<Rightarrow> Throw (Some e))"
    "case fn k of Ok v \<Rightarrow> True | Throw e \<Rightarrow> \<not> rs_isRetryable opts e \<or> rs_maxAttempts opts \<le> of_nat (Suc k)"
  using assms
proof (induction env opts fn a l arbitrary: thesis rule: retry_loop.induct)
  case (1 env opts fn a l)
  show ?case
  proof (cases "fn a")
    case (Inr v)
    then show ?thesis using 1(2) [of a] 1(3) by (simp add: retry_loop.simps [of env opts fn a])
  next
    case (Inl e)
    consider "of_nat a = rs_maxAttempts opts - 1 \<or> \<not> rs_isRetryable opts e"
      | "rs_isRetryable opts e" "of_nat a \<noteq> rs_maxAttempts opts - 1" "of_nat (Suc a) < rs_maxAttempts opts"
      | "rs_isRetryable opts e" "of_nat a \<noteq> rs_maxAttempts opts - 1" "rs_maxAttempts opts \<le> of_nat (Suc a)"
      by linarith
    then show ?thesis
    proof cases
      case 1
      then show ?thesis using "1.prems"(1) [of a] "1.prems"(2) Inl
        by (auto simp: retry_loop.simps [of env opts fn a])
    next
      case 2
      obtain k where k: "Suc a \<le> k" "of_nat k < rs_maxAttempts opts" "retried opts fn (Suc a) k"
        "rs_maxAttempts opts \<in> \<int> \<Longrightarrow> length (snd (retry_loop env opts fn (Suc a) (Some e))) = k - Suc a"
        "fst (retry_loop env opts fn (Suc a) (Some e)) = (case fn k of Ok v \<Rightarrow> Ok v | Throw e \<Rightarrow> Throw (Some e))"
        "case fn k of Ok v \<Rightarrow> True | Throw e \<Rightarrow> \<not> rs_isRetryable opts e \<or> rs_maxAttempts opts \<le> of_nat (Suc k)"
        using "1.IH" [OF "1.prems"(2) Inl] 2 by metis
      moreover have "retry_loop env opts fn a l =
          (fst (retry_loop env opts fn (Suc a) (Some e)),
           retry_delay env opts a # snd (retry_loop env opts fn (Suc a) (Some e)))"
        using "1.prems"(2) Inl 2 by (simp add: retry_loop.simps [of env opts fn a] split_beta)
      ultimately show ?thesis
        using "1.prems"(1) [of k] retried_step [OF k(3) Inl 2(1)] by simp
    next
      case 3
      then have "retry_loop env opts fn (Suc a) (Some e) = (Throw (Some e), [])"
        by (simp add: retry_loop.simps [of env opts fn "Suc a"])
      moreover have "rs_maxAttempts opts \<notin> \<int>"
        using integral_last [OF "1.prems"(2)] 3 by blast
      ultimately show ?thesis using "1.prems"(1) [of a] "1.prems"(2) Inl 3
        by (simp add: retry_loop.simps [of env opts fn a])
    qed
  qed
qed

lemma retry_no_attempts: "rs_maxAttempts opts \<le> 0 \<Longrightarrow> retry_loop env opts fn 0 None = (Throw None, [])"
  by (simp add: retry_loop.simps [of env opts fn 0])

subsection \<open>How long the loop pauses\<close>

text \<open>Jitter shortens the exponential delay by at most half.\<close>

lemma calculateDelay_bounds:
  assumes "0 \<le> baseDelayMs" "case maxDelayMs of None \<Rightarrow> True | Some m \<Rightarrow> 0 \<le> m" "0 \<le> random" "random \<le> 1"
  shows "js_min (baseDelayMs * 2 powi attempt) maxDelayMs / 2 \<le> calculateDelay random attempt baseDelayMs maxDelayMs jitter"
    and "calculateDelay random attempt baseDelayMs maxDelayMs jitter \<le> js_min (baseDelayMs * 2 powi attempt) maxDelayMs"
    and "0 \<le> calculateDelay random attempt baseDelayMs maxDelayMs jitter"
proof -
  let ?x = "js_min (baseDelayMs * 2 powi attempt) maxDelayMs"
  have x: "0 \<le> ?x" using assms(1,2) by (auto simp: js_min_def split: option.splits)
  have f: "1 / 2 \<le> 1 / 2 + random * (1 / 2)" "1 / 2 + random * (1 / 2) \<le> 1" using assms(3,4) by simp_all
  show lo: "?x / 2 \<le> calculateDelay random attempt baseDelayMs maxDelayMs jitter"
    using x mult_left_mono [OF f(1) x] by (auto simp: calculateDelay_def Let_def)
  show "calculateDelay random attempt baseDelayMs maxDelayMs jitter \<le> ?x"
    using mult_left_mono [OF f(2) x] by (auto simp: calculateDelay_def Let_def)
  show "0 \<le> calculateDelay random attempt baseDelayMs maxDelayMs jitter" using lo x by linarith
qed

lemma parseRetryAfter_bounds:
  assumes "parseRetryAfter date_parse now h m = Some d" "0 \<le> m"
  shows "0 \<le> d" "d \<le> m"
  using assms by (auto simp: parseRetryAfter_def Let_def split: option.splits if_splits)

lemma js_trim_show_int [simp]: "js_trim (show_int n) = show_int n"
proof -
  have sp: "\<not> js_space c" if "c \<in> set (show_int n)" for c
  proof -
    have "js_digit c \<or> c = CHR ''-''"
      using that show_nat_js_digit by (auto simp: show_int_def list_all_iff split: if_splits)
    then show ?thesis by (auto simp: js_digit_def js_space_def)
  qed
  then have "dropWhile js_space (show_int n) = show_int n" "dropWhile js_space (rev (show_int n)) = rev (show_int n)"
    by (metis dropWhile_eq_self_iff hd_in_set) (metis sp dropWhile_eq_self_iff hd_in_set set_rev)
  then show ?thesis by (simp add: js_trim_def)
qed

text \<open>A header in seconds is read as written.\<close>

lemma parseRetryAfter_seconds: "0 \<le> n \<Longrightarrow> parseRetryAfter date_parse now (Some (show_int n)) m = Some (min (n * 1000) m)"
  using show_int_nonempty [of n] by (simp add: parseRetryAfter_def Let_def parseInt_show_int)

lemma retry_delay_bounds:
  assumes "0 \<le> rs_baseDelayMs opts" "0 \<le> rs_maxDelayMs opts" "0 \<le> rs_maxRetryAfterMs opts"
    "0 \<le> re_random env a" "re_random env a \<le> 1"
  shows "0 \<le> retry_delay env opts a" "retry_delay env opts a \<le> max (rs_maxDelayMs opts) (of_int (rs_maxRetryAfterMs opts))"
proof -
  let ?d = "calculateDelay (re_random env a) (int a) (rs_baseDelayMs opts) (Some (rs_maxDelayMs opts)) (rs_jitter opts)"
  have d: "0 \<le> ?d" "?d \<le> js_min (rs_baseDelayMs opts * 2 powi int a) (Some (rs_maxDelayMs opts))"
    using calculateDelay_bounds [of "rs_baseDelayMs opts" "Some (rs_maxDelayMs opts)" "re_random env a" "int a" "rs_jitter opts"]
      assms by simp_all
  then have "?d \<le> rs_maxDelayMs opts" by (simp add: js_min_def)
  then show "0 \<le> retry_delay env opts a" "retry_delay env opts a \<le> max (rs_maxDelayMs opts) (of_int (rs_maxRetryAfterMs opts))"
    using d(1) parseRetryAfter_bounds [OF _ assms(3)]
    by (auto simp: retry_delay_def le_max_iff_disj split: option.splits)
qed

lemma retry_loop_delays:
  assumes "0 \<le> rs_baseDelayMs opts" "0 \<le> rs_maxDelayMs opts" "0 \<le> rs_maxRetryAfterMs opts"
    "\<And>n. 0 \<le> re_random env n" "\<And>n. re_random env n \<le> 1" "d \<in> set (snd (retry_loop env opts fn a l))"
  shows "0 \<le> d \<and> d \<le> max (rs_maxDelayMs opts) (of_int (rs_maxRetryAfterMs opts))"
  using assms
proof (induction env opts fn a l rule: retry_loop.induct)
  case (1 env opts fn a l)
  then show ?case
    using retry_delay_bounds [OF "1.prems"(1-5), of a]
    by (auto simp: retry_loop.simps [of env opts fn a] split_beta split: if_splits sum.splits)
qed

subsection \<open>The client of the Stellar RPC\<close>

record stellar_config =
  sc_timeoutMs :: int
  sc_maxRetries :: int
  sc_retryBaseDelayMs :: int
  sc_retryMaxDelayMs :: int

definition DEFAULT_STELLAR_RPC_CONFIG :: stellar_config where
  "DEFAULT_STELLAR_RPC_CONFIG =
     \<lparr>sc_timeoutMs = 5000, sc_maxRetries = 3, sc_retryBaseDelayMs = 200, sc_retryMaxDelayMs = 2000\<rparr>"

text \<open>
  One variable of the schema: the default, \<open>parseInt\<close>, and the range.  The result holds the
  issues and the number; \<open>NaN\<close> is no number for the schema.  The check across variables
  runs when all of them are numbers, also when one is out of range.
\<close>

definition env_integer :: "string \<Rightarrow> int \<Rightarrow> int \<Rightarrow> string \<Rightarrow> int \<Rightarrow> string option \<Rightarrow> string list \<times> int option" where
  "env_integer name lo hi lower fallback value =
     (case js_parseInt (or_default (show_int fallback) value) of
        None \<Rightarrow> ([name @ '': Expected number, received nan''], None)
      | Some n \<Rightarrow> ((if n < lo then [name @ '': '' @ name @ '' must be '' @ lower] else [])
                   @ (if hi < n then [name @ '': '' @ name @ '' must be <= '' @ show_int hi] else []),
                   Some n))"

definition loadStellarRpcConfig :: "(string \<Rightarrow> string option) \<Rightarrow> (string list, stellar_config) result" where
  "loadStellarRpcConfig env =
     (let (i1, timeout) = env_integer ''STELLAR_RPC_TIMEOUT_MS'' 1 120000 ''> 0''
            (sc_timeoutMs DEFAULT_STELLAR_RPC_CONFIG) (env ''STELLAR_RPC_TIMEOUT_MS'');
          (i2, retries) = env_integer ''STELLAR_RPC_MAX_RETRIES'' 0 10 ''>= 0''
            (sc_maxRetries DEFAULT_STELLAR_RPC_CONFIG) (env ''STELLAR_RPC_MAX_RETRIES'');
          (i3, base) = env_integer ''STELLAR_RPC_RETRY_BASE_DELAY_MS'' 0 60000 ''>= 0''
            (sc_retryBaseDelayMs DEFAULT_STELLAR_RPC_CONFIG) (env ''STELLAR_RPC_RETRY_BASE_DELAY_MS'');
          (i4, cap) = env_integer ''STELLAR_RPC_RETRY_MAX_DELAY_MS'' 0 60000 ''>= 0''
            (sc_retryMaxDelayMs DEFAULT_STELLAR_RPC_CONFIG) (env ''STELLAR_RPC_RETRY_MAX_DELAY_MS'')
      in case (timeout, retries, base, cap) of
           (Some t, Some r, Some b, Some m) \<Rightarrow>
             (let issues = i1 @ i2 @ i3 @ i4 @
                (if m < b
                 then [''STELLAR_RPC_RETRY_MAX_DELAY_MS: STELLAR_RPC_RETRY_MAX_DELAY_MS must be >= STELLAR_RPC_RETRY_BASE_DELAY_MS'']
                 else [])
              in if issues \<noteq> [] then Throw issues
                 else Ok \<lparr>sc_timeoutMs = t, sc_maxRetries = r, sc_retryBaseDelayMs = b, sc_retryMaxDelayMs = m\<rparr>)
         | _ \<Rightarrow> Throw (i1 @ i2 @ i3 @ i4))"

record rpc_response =
  rpc_data :: json
  rpc_status :: int

datatype stellar_error =
    StellarTimeoutError int string
  | StellarRpcError int json
  | StellarJsonParseError string
  | NamedError string string

definition isRetryableError :: "stellar_error \<Rightarrow> bool" where
  "isRetryableError err =
     (case err of
        StellarTimeoutError t u \<Rightarrow> True
      | StellarRpcError status d \<Rightarrow>
          if status = 429 then True else if 500 \<le> status \<and> status < 600 then True else False
      | StellarJsonParseError m \<Rightarrow> False
      | NamedError name m \<Rightarrow> name \<noteq> ''SyntaxError'' \<and> name \<noteq> ''StellarJsonParseError'')"

definition wrapJsonParseError :: "string option \<Rightarrow> stellar_error" where
  "wrapJsonParseError original =
     (case original of
        Some message \<Rightarrow> StellarJsonParseError (''Stellar RPC returned non-JSON body: '' @ message)
      | None \<Rightarrow> StellarJsonParseError ''Stellar RPC returned non-JSON body'')"

text \<open>
  What one \<open>fetch\<close> does: it rejects with an error, or it answers with a status and a body
  that is JSON or fails to parse (with the message of the error, if it is one).  The flag
  tells whether the timer had fired when the attempt failed.
\<close>

datatype fetch_outcome = Rejected stellar_error | Answered int "(string option, json) result"

definition performFetchAttempt :: "string \<Rightarrow> int \<Rightarrow> bool \<Rightarrow> fetch_outcome \<Rightarrow> (stellar_error, rpc_response) result" where
  "performFetchAttempt url timeoutMs aborted outcome =
     (let attempt = (case outcome of
          Rejected err \<Rightarrow> Throw err
        | Answered status (Throw parseErr) \<Rightarrow> Throw (wrapJsonParseError parseErr)
        | Answered status (Ok d) \<Rightarrow>
            if \<not> (200 \<le> status \<and> status \<le> 299) then Throw (StellarRpcError status d)
            else Ok \<lparr>rpc_data = d, rpc_status = status\<rparr>)
      in case attempt of
           Ok r \<Rightarrow> Ok r
         | Throw err \<Rightarrow> if aborted then Throw (StellarTimeoutError timeoutMs url) else Throw err)"

record transport_options =
  to_timeoutMs :: int
  to_maxAttempts :: int
  to_baseDelayMs :: int
  to_maxDelayMs :: int

definition createStellarTransport ::
  "retry_env \<Rightarrow> transport_options \<Rightarrow> string \<Rightarrow> (nat \<Rightarrow> bool \<times> fetch_outcome)
   \<Rightarrow> (stellar_error option, rpc_response) result \<times> rat list" where
  "createStellarTransport env options url fetches =
     withRetry env (\<lambda>n. performFetchAttempt url (to_timeoutMs options) (fst (fetches n)) (snd (fetches n)))
       \<lparr>ro_maxAttempts = Some (of_int (to_maxAttempts options)), ro_baseDelayMs = Some (of_int (to_baseDelayMs options)),
        ro_maxDelayMs = Some (of_int (to_maxDelayMs options)), ro_jitter = Some True,
        ro_isRetryable = Some isRetryableError, ro_maxRetryAfterMs = None, ro_retryAfterHeader = None\<rparr>"

definition loadDefaultTransportOptions :: "(string \<Rightarrow> string option) \<Rightarrow> (string list, transport_options) result" where
  "loadDefaultTransportOptions env =
     (case loadStellarRpcConfig env of
        Throw e \<Rightarrow> Throw e
      | Ok cfg \<Rightarrow> Ok \<lparr>to_timeoutMs = sc_timeoutMs cfg, to_maxAttempts = sc_maxRetries cfg + 1,
                       to_baseDelayMs = sc_retryBaseDelayMs cfg, to_maxDelayMs = sc_retryMaxDelayMs cfg\<rparr>)"

definition new_stellar_breaker :: circuit_breaker where
  "new_stellar_breaker =
     new_breaker \<lparr>bo_name = Some ''stellar-rpc'', bo_failureThreshold = Some 5, bo_successThreshold = Some 1,
                  bo_timeout = Some 30000\<rparr>"

definition stellar_call ::
  "ms \<Rightarrow> ms \<Rightarrow> retry_env \<Rightarrow> transport_options \<Rightarrow> string \<Rightarrow> (nat \<Rightarrow> bool \<times> fetch_outcome) \<Rightarrow> circuit_breaker
   \<Rightarrow> (circuit_error + stellar_error option, rpc_response) result \<times> circuit_breaker" where
  "stellar_call now later env options rpcUrl fetches b =
     breaker_execute now later (fst (createStellarTransport env options rpcUrl fetches)) b"

lemma env_integer_ok: "env_integer name lo hi lower fallback value = ([], Some n) \<Longrightarrow> lo \<le> n \<and> n \<le> hi"
  by (auto simp: env_integer_def split: option.splits if_splits)

text \<open>A configuration that loads is within the documented ranges.\<close>

lemma loadStellarRpcConfig_ok:
  assumes "loadStellarRpcConfig env = Ok cfg"
  shows "0 < sc_timeoutMs cfg \<and> sc_timeoutMs cfg \<le> 120000 \<and> 0 \<le> sc_maxRetries cfg \<and> sc_maxRetries cfg \<le> 10
    \<and> 0 \<le> sc_retryBaseDelayMs cfg \<and> sc_retryBaseDelayMs cfg \<le> sc_retryMaxDelayMs cfg \<and> sc_retryMaxDelayMs cfg \<le> 60000"
proof -
  obtain i1 t i2 r i3 b i4 m where e:
    "env_integer ''STELLAR_RPC_TIMEOUT_MS'' 1 120000 ''> 0''
       (sc_timeoutMs DEFAULT_STELLAR_RPC_CONFIG) (env ''STELLAR_RPC_TIMEOUT_MS'') = (i1, t)"
    "env_integer ''STELLAR_RPC_MAX_RETRIES'' 0 10 ''>= 0''
       (sc_maxRetries DEFAULT_STELLAR_RPC_CONFIG) (env ''STELLAR_RPC_MAX_RETRIES'') = (i2, r)"
    "env_integer ''STELLAR_RPC_RETRY_BASE_DELAY_MS'' 0 60000 ''>= 0''
       (sc_retryBaseDelayMs DEFAULT_STELLAR_RPC_CONFIG) (env ''STELLAR_RPC_RETRY_BASE_DELAY_MS'') = (i3, b)"
    "env_integer ''STELLAR_RPC_RETRY_MAX_DELAY_MS'' 0 60000 ''>= 0''
       (sc_retryMaxDelayMs DEFAULT_STELLAR_RPC_CONFIG) (env ''STELLAR_RPC_RETRY_MAX_DELAY_MS'') = (i4, m)"
    by (metis surj_pair)
  have "\<exists>t' r' b' m'. t = Some t' \<and> r = Some r' \<and> b = Some b' \<and> m = Some m'
      \<and> i1 = [] \<and> i2 = [] \<and> i3 = [] \<and> i4 = [] \<and> b' \<le> m'
      \<and> cfg = \<lparr>sc_timeoutMs = t', sc_maxRetries = r', sc_retryBaseDelayMs = b', sc_retryMaxDelayMs = m'\<rparr>"
    using assms unfolding loadStellarRpcConfig_def e Let_def prod.case
    by (auto split: option.splits if_splits)
  then show ?thesis using env_integer_ok e by fastforce
qed

text \<open>\<open>parseInt\<close> reads a prefix: a value that is no integer is accepted.\<close>

lemma config_accepts_suffix: "env_integer name 0 10 lower fallback (Some ''2.9x'') = ([], Some 2)"
proof -
  have "js_parseInt ''2.9x'' = Some 2" by code_simp
  then show ?thesis by (simp add: env_integer_def or_default_def)
qed

text \<open>A call makes at most one request more than \<open>maxRetries\<close>; an error of the caller is not retried.\<close>

lemma transport_exact:
  assumes "loadDefaultTransportOptions vars = Ok options"
  obtains k where "int k < to_maxAttempts options" "to_maxAttempts options \<le> 11"
    "length (snd (createStellarTransport env options url fetches)) = k"
    "fst (createStellarTransport env options url fetches) =
       (case performFetchAttempt url (to_timeoutMs options) (fst (fetches k)) (snd (fetches k)) of
          Ok r \<Rightarrow> Ok r | Throw e \<Rightarrow> Throw (Some e))"
    "\<And>j. j < k \<Longrightarrow> \<exists>e. performFetchAttempt url (to_timeoutMs options) (fst (fetches j)) (snd (fetches j)) = Throw e
                    \<and> isRetryableError e"
proof -
  obtain cfg where cfg: "loadStellarRpcConfig vars = Ok cfg" "to_maxAttempts options = sc_maxRetries cfg + 1"
    using assms by (auto simp: loadDefaultTransportOptions_def split: sum.splits)
  note range = loadStellarRpcConfig_ok [OF cfg(1)]
  let ?fn = "\<lambda>n. performFetchAttempt url (to_timeoutMs options) (fst (fetches n)) (snd (fetches n))"
  let ?opts = "with_defaults
       \<lparr>ro_maxAttempts = Some (of_int (to_maxAttempts options)), ro_baseDelayMs = Some (of_int (to_baseDelayMs options)),
        ro_maxDelayMs = Some (of_int (to_maxDelayMs options)), ro_jitter = Some True,
        ro_isRetryable = Some isRetryableError, ro_maxRetryAfterMs = None, ro_retryAfterHeader = None\<rparr>"
  have sel: "rs_maxAttempts ?opts = of_int (to_maxAttempts options)" "rs_isRetryable ?opts = isRetryableError"
    by (simp_all add: with_defaults_def or_default_def)
  have pos: "of_nat 0 < rs_maxAttempts ?opts" using cfg(2) range sel(1) by simp
  obtain k where k: "of_nat k < rs_maxAttempts ?opts" "retried ?opts ?fn 0 k"
    "rs_maxAttempts ?opts \<in> \<int> \<Longrightarrow> length (snd (retry_loop env ?opts ?fn 0 None)) = k - 0"
    "fst (retry_loop env ?opts ?fn 0 None) = (case ?fn k of Ok v \<Rightarrow> Ok v | Throw e \<Rightarrow> Throw (Some e))"
    by (rule retry_loop_exact [OF pos, of ?fn env None]) blast
  show thesis
  proof (rule that [of k])
    have "of_int (int k) < (of_int (to_maxAttempts options) :: rat)" using k(1) sel(1) by simp
    then show "int k < to_maxAttempts options" by (simp only: of_int_less_iff)
    show "to_maxAttempts options \<le> 11" using cfg(2) range by simp
    show "length (snd (createStellarTransport env options url fetches)) = k"
      using k(3) sel(1) by (simp add: createStellarTransport_def withRetry_def)
    show "fst (createStellarTransport env options url fetches) = (case ?fn k of Ok r \<Rightarrow> Ok r | Throw e \<Rightarrow> Throw (Some e))"
      using k(4) by (simp add: createStellarTransport_def withRetry_def)
    show "\<exists>e. ?fn j = Throw e \<and> isRetryableError e" if "j < k" for j
      using k(2) that sel(2) by (cases "?fn j") (auto simp: retried_def split: sum.splits)
  qed
qed

text \<open>
  The breaker counts one failure for a call that fails, however many requests it made, and
  none for a call that succeeds in the end.
\<close>

lemma stellar_call_counts_once:
  assumes "cb_state b = CLOSED"
  shows "cb_failureCount (snd (stellar_call now later env options url fetches b)) =
    (case fst (createStellarTransport env options url fetches) of
       Ok r \<Rightarrow> 0 | Throw e \<Rightarrow> cb_failureCount b + 1)"
  using assms by (auto simp: stellar_call_def breaker_execute_def breaker_defs split: sum.splits)

end
