(* ===== verification/TransactionPoller.thy ===== *)
theory TransactionPoller
  imports Retry JsMap "HOL-Library.Multiset"
begin

text \<open>
  The poller of blockchain transactions (\<open>services/TransactionPoller.ts\<close>) over the
  in-memory transaction store (\<open>models/Transaction.ts\<close>).

  \<open>pollWithBackoff\<close> calls itself after each unanswered request and awaits twice: the
  provider's answer and the pause.  A loop is one such chain of calls; the poller's state
  holds the loops that are waiting, each with what it waits for.  A loop that waits for an
  answer keeps the copy of the transaction that it read before, as the source does.  The
  steps of the system are the answers and the ends of pauses, in any order.

  The theorem shows that the loops end, however many run for one transaction and however
  their reads and writes interleave, and that no transaction is pending when the loops
  that recovery started have ended.  A poll that ends before its first request is not
  seen as active; in the source it is for one turn of the microtask queue.  The SQLite
  store of the same interface answers a failed read with \<open>undefined\<close>, which would end a
  poll and leave its row pending; database errors are not modelled.
\<close>

subsection \<open>Transactions and their store\<close>

datatype tx_status = PENDING | SUCCESS | FAILED | TIMEOUT

record transaction =
  tx_hash :: string
  tx_status :: tx_status
  tx_receipt :: "json option"
  tx_lastCheckedAt :: "int option"
  tx_retryCount :: int
  tx_startedAt :: "int option"

type_synonym tx_store = "(string, transaction) jsmap"

definition txstore_get :: "string \<Rightarrow> tx_store \<Rightarrow> transaction option" where
  "txstore_get hash st = map_get st hash"

definition txstore_set :: "string \<Rightarrow> transaction \<Rightarrow> tx_store \<Rightarrow> tx_store" where
  "txstore_set hash tx st = map_set hash tx st"

definition txstore_delete :: "string \<Rightarrow> tx_store \<Rightarrow> bool \<times> tx_store" where
  "txstore_delete hash st = (map_has st hash, map_delete hash st)"

definition txstore_clear :: "tx_store \<Rightarrow> tx_store" where
  "txstore_clear st = map_empty"

definition txstore_values :: "tx_store \<Rightarrow> transaction list" where
  "txstore_values st = map_values st"

subsection \<open>The poller\<close>

datatype poll_phase = AwaitReceipt transaction | Sleeping rat

record poll_loop =
  pl_hash :: string
  pl_phase :: poll_phase
  pl_registered :: bool

record poller =
  po_maxRetries :: int
  po_initialDelay :: rat
  po_maxTotalDurationMs :: "int option"
  po_accepting :: bool
  po_activePolls :: "string list"
  po_store :: tx_store
  po_loops :: "poll_loop list"

definition new_poller :: "int option \<Rightarrow> rat option \<Rightarrow> int option \<Rightarrow> tx_store \<Rightarrow> (string, poller) result" where
  "new_poller maxRetries initialDelay maxTotalDurationMs st =
     (if (case maxTotalDurationMs of Some m \<Rightarrow> m \<le> 0 | None \<Rightarrow> False)
      then Throw ''maxTotalDurationMs must be a positive finite number to prevent silently disabling timeouts''
      else Ok \<lparr>po_maxRetries = or_default 5 maxRetries, po_initialDelay = or_default 1000 initialDelay,
               po_maxTotalDurationMs = maxTotalDurationMs, po_accepting = True, po_activePolls = [],
               po_store = st, po_loops = []\<rparr>)"

text \<open>\<open>pollWithBackoff\<close> up to its request: the transaction that it waits for, if it does.\<close>

definition pollWithBackoff_enter :: "int \<Rightarrow> string \<Rightarrow> poller \<Rightarrow> transaction option \<times> poller" where
  "pollWithBackoff_enter now txHash s =
     (case txstore_get txHash (po_store s) of
        None \<Rightarrow> (None, s)
      | Some tx \<Rightarrow>
          if tx_status tx \<noteq> PENDING then (None, s)
          else let timed_out = (None, s\<lparr>po_store := txstore_set txHash
                     (tx\<lparr>tx_status := TIMEOUT, tx_lastCheckedAt := Some now\<rparr>) (po_store s)\<rparr>)
               in if po_maxRetries s \<le> tx_retryCount tx then timed_out
                  else (case (po_maxTotalDurationMs s, tx_startedAt tx) of
                          (Some m, Some startedAt) \<Rightarrow> if m \<le> now - startedAt then timed_out else (Some tx, s)
                        | _ \<Rightarrow> (Some tx, s)))"

text \<open>From the answer to the pause: the pause, or \<^const>\<open>None\<close> when the loop is over.\<close>

definition pollWithBackoff_reply ::
  "int \<Rightarrow> rat \<Rightarrow> string \<Rightarrow> transaction \<Rightarrow> (unit, json) result \<Rightarrow> poller \<Rightarrow> rat option \<times> poller" where
  "pollWithBackoff_reply now random txHash tx reply s =
     (let retry = (let tx' = tx\<lparr>tx_retryCount := tx_retryCount tx + 1, tx_lastCheckedAt := Some now\<rparr>
                   in (Some (calculateDelay random (tx_retryCount tx' - 1) (po_initialDelay s) None True),
                       s\<lparr>po_store := txstore_set txHash tx' (po_store s)\<rparr>))
      in case reply of
           Throw error \<Rightarrow> retry
         | Ok receipt \<Rightarrow>
             if js_truthy receipt
             then (None, s\<lparr>po_store := txstore_set txHash
                     (tx\<lparr>tx_status := (if get_field receipt ''status'' = JNum 1 then SUCCESS else FAILED),
                         tx_receipt := Some receipt, tx_lastCheckedAt := Some now\<rparr>) (po_store s)\<rparr>)
             else retry)"

text \<open>A chain of calls begins: it ends at once or waits for its first answer.\<close>

definition start_loop :: "int \<Rightarrow> bool \<Rightarrow> string \<Rightarrow> poller \<Rightarrow> poller" where
  "start_loop now registered txHash s =
     (case pollWithBackoff_enter now txHash s of
        (None, s') \<Rightarrow> s'
      | (Some tx, s') \<Rightarrow>
          s'\<lparr>po_loops := po_loops s' @ [\<lparr>pl_hash = txHash, pl_phase = AwaitReceipt tx, pl_registered = registered\<rparr>],
             po_activePolls := (if registered then po_activePolls s' @ [txHash] else po_activePolls s')\<rparr>)"

definition poll :: "int \<Rightarrow> string \<Rightarrow> poller \<Rightarrow> poller" where
  "poll now txHash s =
     (if \<not> po_accepting s then s
      else if txHash \<in> set (po_activePolls s) then s
      else let s1 = (case txstore_get txHash (po_store s) of
                       None \<Rightarrow> s\<lparr>po_store := txstore_set txHash
                                  \<lparr>tx_hash = txHash, tx_status = PENDING, tx_receipt = None, tx_lastCheckedAt = None,
                                   tx_retryCount = 0, tx_startedAt = Some now\<rparr> (po_store s)\<rparr>
                     | Some tx \<Rightarrow> if tx_startedAt tx = None
                                   then s\<lparr>po_store := txstore_set txHash (tx\<lparr>tx_startedAt := Some now\<rparr>) (po_store s)\<rparr>
                                   else s)
           in start_loop now True txHash s1)"

definition recoverPendingTransactions :: "int \<Rightarrow> poller \<Rightarrow> poller" where
  "recoverPendingTransactions now s =
     fold (\<lambda>tx. start_loop now False (tx_hash tx))
       (filter (\<lambda>tx. tx_status tx = PENDING) (txstore_values (po_store s))) s"

definition stopAccepting :: "poller \<Rightarrow> poller" where
  "stopAccepting s = s\<lparr>po_accepting := False\<rparr>"

text \<open>The polls that \<open>drain\<close> waits for.\<close>

definition poller_drain :: "poller \<Rightarrow> string list" where
  "poller_drain s = (if po_activePolls s = [] then [] else po_activePolls s)"

definition checkpoint :: "poller \<Rightarrow> poller" where
  "checkpoint s =
     fold (\<lambda>tx s. if tx_status tx = PENDING then s\<lparr>po_store := txstore_set (tx_hash tx) tx (po_store s)\<rparr> else s)
       (txstore_values (po_store s)) s"

definition end_loop :: "nat \<Rightarrow> poller \<Rightarrow> poller" where
  "end_loop i s =
     s\<lparr>po_loops := take i (po_loops s) @ drop (Suc i) (po_loops s),
       po_activePolls := (if pl_registered (po_loops s ! i)
                          then remove1 (pl_hash (po_loops s ! i)) (po_activePolls s) else po_activePolls s)\<rparr>"

text \<open>The \<open>i\<close>-th loop receives its answer, and the pause of the \<open>i\<close>-th loop ends.\<close>

definition poller_reply :: "nat \<Rightarrow> int \<Rightarrow> rat \<Rightarrow> (unit, json) result \<Rightarrow> poller \<Rightarrow> poller" where
  "poller_reply i now random reply s =
     (case pl_phase (po_loops s ! i) of
        Sleeping d \<Rightarrow> s
      | AwaitReceipt tx \<Rightarrow>
          (case pollWithBackoff_reply now random (pl_hash (po_loops s ! i)) tx reply s of
             (None, s') \<Rightarrow> end_loop i s'
           | (Some d, s') \<Rightarrow> s'\<lparr>po_loops := (po_loops s')[i := (po_loops s' ! i)\<lparr>pl_phase := Sleeping d\<rparr>]\<rparr>))"

definition poller_wake :: "nat \<Rightarrow> int \<Rightarrow> poller \<Rightarrow> poller" where
  "poller_wake i now s =
     (case pl_phase (po_loops s ! i) of
        AwaitReceipt tx \<Rightarrow> s
      | Sleeping d \<Rightarrow>
          (case pollWithBackoff_enter now (pl_hash (po_loops s ! i)) s of
             (None, s') \<Rightarrow> end_loop i s'
           | (Some tx, s') \<Rightarrow> s'\<lparr>po_loops := (po_loops s')[i := (po_loops s' ! i)\<lparr>pl_phase := AwaitReceipt tx\<rparr>]\<rparr>))"

inductive poller_step :: "poller \<Rightarrow> poller \<Rightarrow> bool" where
  reply: "i < length (po_loops s) \<Longrightarrow> pl_phase (po_loops s ! i) = AwaitReceipt tx
    \<Longrightarrow> poller_step s (poller_reply i now random reply s)"
| wake: "i < length (po_loops s) \<Longrightarrow> pl_phase (po_loops s ! i) = Sleeping d
    \<Longrightarrow> poller_step s (poller_wake i now s)"

inductive_simps poller_step_iff: "poller_step s s'"

subsection \<open>The cases of a step\<close>

lemmas store_ops = txstore_get_def txstore_set_def txstore_values_def

lemma enter_cases:
  assumes "pollWithBackoff_enter now h s = (r, s')"
  obtains (over) "r = None" "s' = s" "\<And>tx. map_get (po_store s) h = Some tx \<Longrightarrow> tx_status tx \<noteq> PENDING"
  | (timeout) tx where "r = None" "map_get (po_store s) h = Some tx" "tx_status tx = PENDING"
      "s' = s\<lparr>po_store := map_set h (tx\<lparr>tx_status := TIMEOUT, tx_lastCheckedAt := Some now\<rparr>) (po_store s)\<rparr>"
  | (wait) tx where "r = Some tx" "s' = s" "map_get (po_store s) h = Some tx" "tx_status tx = PENDING"
      "tx_retryCount tx < po_maxRetries s"
proof (cases "map_get (po_store s) h")
  case None
  then show thesis using assms over by (simp add: pollWithBackoff_enter_def store_ops)
next
  case (Some tx)
  show thesis
  proof (cases "tx_status tx = PENDING")
    case False
    then show thesis using assms over Some by (simp add: pollWithBackoff_enter_def store_ops)
  next
    case True
    then show thesis using assms Some timeout [OF _ Some True] wait [OF _ _ Some True]
      by (auto simp: pollWithBackoff_enter_def store_ops Let_def split: if_splits option.splits)
  qed
qed

lemma reply_cases:
  assumes "pollWithBackoff_reply now random h tx reply s = (r, s')"
  obtains (over) tx' where "r = None" "tx_status tx' \<noteq> PENDING" "tx_hash tx' = tx_hash tx"
      "s' = s\<lparr>po_store := map_set h tx' (po_store s)\<rparr>"
  | (retry) d where "r = Some d"
      "s' = s\<lparr>po_store := map_set h (tx\<lparr>tx_retryCount := tx_retryCount tx + 1, tx_lastCheckedAt := Some now\<rparr>) (po_store s)\<rparr>"
proof (cases "\<exists>receipt. reply = Ok receipt \<and> js_truthy receipt")
  case True
  then obtain receipt where "reply = Ok receipt" "js_truthy receipt" by blast
  then show thesis using assms
      over [of "tx\<lparr>tx_status := (if get_field receipt ''status'' = JNum 1 then SUCCESS else FAILED),
                   tx_receipt := Some receipt, tx_lastCheckedAt := Some now\<rparr>"]
    by (simp add: pollWithBackoff_reply_def store_ops Let_def)
next
  case False
  then show thesis using assms retry
    by (auto simp: pollWithBackoff_reply_def store_ops Let_def split: sum.splits)
qed

subsection \<open>The loops end\<close>

text \<open>
  What a loop may still do: the attempts left by the copy it holds, or, while it pauses, by
  the stored transaction that it will read.  A write sets the count of the stored
  transaction back to that of the writer's copy plus one, and with it the attempts of
  every pausing loop; but the writer's own attempts were more than that.
\<close>

definition loop_level :: "int \<Rightarrow> tx_store \<Rightarrow> poll_loop \<Rightarrow> nat" where
  "loop_level m st l =
     (case pl_phase l of
        AwaitReceipt tx \<Rightarrow> Suc (nat (m - tx_retryCount tx))
      | Sleeping d \<Rightarrow>
          (case map_get st (pl_hash l) of
             None \<Rightarrow> 0
           | Some tx \<Rightarrow> if tx_status tx = PENDING \<and> tx_retryCount tx < m then Suc (nat (m - tx_retryCount tx)) else 0))"

definition is_sleeping :: "poll_loop \<Rightarrow> bool" where
  "is_sleeping l \<longleftrightarrow> (case pl_phase l of Sleeping d \<Rightarrow> True | _ \<Rightarrow> False)"

definition loop_levels :: "poller \<Rightarrow> nat multiset" where
  "loop_levels s = image_mset (loop_level (po_maxRetries s) (po_store s)) (mset (po_loops s))"

definition poller_order :: "((nat multiset \<times> nat) \<times> (nat multiset \<times> nat)) set" where
  "poller_order = mult less_than <*lex*> less_than"

definition poller_rank :: "poller \<Rightarrow> nat multiset \<times> nat" where
  "poller_rank s = (loop_levels s, length (filter is_sleeping (po_loops s)))"

lemma mult_levels:
  fixes f g :: "'a \<Rightarrow> nat"
  assumes "\<And>x. x \<in># R \<Longrightarrow> g x = f x \<or> g x < b" "\<And>x. x \<in># K \<Longrightarrow> x < b"
  shows "(image_mset g R + K, add_mset b (image_mset f R)) \<in> mult less_than"
proof -
  let ?E = "filter_mset (\<lambda>x. g x = f x) R" and ?D = "filter_mset (\<lambda>x. g x \<noteq> f x) R"
  have R: "image_mset h R = image_mset h ?E + image_mset h ?D" for h :: "'a \<Rightarrow> nat"
    by (metis image_mset_union multiset_partition)
  have "image_mset g ?E = image_mset f ?E" by (rule image_mset_cong) simp
  then have "image_mset g R + K = image_mset f ?E + (image_mset g ?D + K)"
    "add_mset b (image_mset f R) = image_mset f ?E + add_mset b (image_mset f ?D)"
    using R [of g] R [of f] by (simp_all add: add.assoc)
  moreover have "(image_mset f ?E + (image_mset g ?D + K), image_mset f ?E + add_mset b (image_mset f ?D)) \<in> mult less_than"
    by (rule one_step_implies_mult) (use assms in auto)
  ultimately show ?thesis by (simp only:)
qed

definition others :: "nat \<Rightarrow> 'a list \<Rightarrow> 'a list" where
  "others i xs = take i xs @ drop (Suc i) xs"

lemma mset_others: "i < length xs \<Longrightarrow> mset xs = add_mset (xs ! i) (mset (others i xs))"
  by (subst id_take_nth_drop [of i xs]) (simp_all add: others_def)

lemma mset_update_others: "i < length xs \<Longrightarrow> mset (xs[i := y]) = add_mset y (mset (others i xs))"
  by (simp add: upd_conv_take_nth_drop others_def)

text \<open>What a write does to the levels of the other loops.\<close>

lemma level_over: "tx_status tx' \<noteq> PENDING \<Longrightarrow>
    loop_level m (map_set h tx' st) l = loop_level m st l \<or> loop_level m (map_set h tx' st) l = 0"
  by (auto simp: loop_level_def map_get_set split: poll_phase.splits)

lemma level_retry: "loop_level m (map_set h (tx\<lparr>tx_retryCount := tx_retryCount tx + 1, tx_lastCheckedAt := t\<rparr>) st) l
      = loop_level m st l
    \<or> loop_level m (map_set h (tx\<lparr>tx_retryCount := tx_retryCount tx + 1, tx_lastCheckedAt := t\<rparr>) st) l
      < Suc (nat (m - tx_retryCount tx))"
  by (auto simp: loop_level_def map_get_set split: poll_phase.splits)

lemma end_loop_sel [simp]:
  "po_loops (end_loop i s) = others i (po_loops s)" "po_store (end_loop i s) = po_store s"
  "po_maxRetries (end_loop i s) = po_maxRetries s" "po_maxTotalDurationMs (end_loop i s) = po_maxTotalDurationMs s"
  by (simp_all add: end_loop_def others_def)

lemma rank_levels: "(loop_levels s', loop_levels s) \<in> mult less_than \<Longrightarrow> (poller_rank s', poller_rank s) \<in> poller_order"
  by (simp add: poller_rank_def poller_order_def)

lemma reply_decreases:
  assumes i: "i < length (po_loops s)" and tx: "pl_phase (po_loops s ! i) = AwaitReceipt tx"
  shows "(poller_rank (poller_reply i now random reply s), poller_rank s) \<in> poller_order"
proof -
  let ?l = "po_loops s ! i" and ?O = "mset (others i (po_loops s))" and ?m = "po_maxRetries s"
  let ?b = "Suc (nat (?m - tx_retryCount tx))"
  have old: "loop_levels s = add_mset ?b (image_mset (loop_level ?m (po_store s)) ?O)"
    using mset_others [OF i] tx by (simp add: loop_levels_def loop_level_def)
  obtain r s' where rs: "pollWithBackoff_reply now random (pl_hash ?l) tx reply s = (r, s')" by fastforce
  then show ?thesis
  proof (cases rule: reply_cases)
    case (over tx')
    have "poller_reply i now random reply s = end_loop i s'" using tx rs over(1) by (simp add: poller_reply_def)
    then have "loop_levels (poller_reply i now random reply s) =
        image_mset (loop_level ?m (map_set (pl_hash ?l) tx' (po_store s))) ?O + {#}"
      using over(4) by (simp add: loop_levels_def)
    moreover have "(\<dots>, loop_levels s) \<in> mult less_than"
      unfolding old by (rule mult_levels) (use level_over [OF over(2)] in fastforce)+
    ultimately show ?thesis by (simp add: rank_levels)
  next
    case (retry d)
    let ?tx = "tx\<lparr>tx_retryCount := tx_retryCount tx + 1, tx_lastCheckedAt := Some now\<rparr>"
    let ?st = "map_set (pl_hash ?l) ?tx (po_store s)" and ?l' = "?l\<lparr>pl_phase := Sleeping d\<rparr>"
    have "poller_reply i now random reply s = s\<lparr>po_store := ?st, po_loops := (po_loops s)[i := ?l']\<rparr>"
      using tx rs retry by (simp add: poller_reply_def)
    then have "loop_levels (poller_reply i now random reply s) =
        image_mset (loop_level ?m ?st) ?O + {#loop_level ?m ?st ?l'#}"
      using i by (simp add: loop_levels_def mset_update_others)
    moreover have "loop_level ?m ?st ?l' < ?b" by (auto simp: loop_level_def map_get_set)
    then have "(image_mset (loop_level ?m ?st) ?O + {#loop_level ?m ?st ?l'#}, loop_levels s) \<in> mult less_than"
      unfolding old by (intro mult_levels) (use level_retry in auto)
    ultimately show ?thesis by (simp add: rank_levels)
  qed
qed

lemma length_sleeping: "length (filter is_sleeping xs) = size (filter_mset is_sleeping (mset xs))"
  by (metis mset_filter size_mset)

lemma wake_decreases:
  assumes i: "i < length (po_loops s)" and d: "pl_phase (po_loops s ! i) = Sleeping d"
  shows "(poller_rank (poller_wake i now s), poller_rank s) \<in> poller_order"
proof -
  let ?l = "po_loops s ! i" and ?O = "mset (others i (po_loops s))" and ?m = "po_maxRetries s"
  let ?b = "loop_level ?m (po_store s) ?l"
  have old: "loop_levels s = add_mset ?b (image_mset (loop_level ?m (po_store s)) ?O)"
    using mset_others [OF i] by (simp add: loop_levels_def)
  obtain r s' where rs: "pollWithBackoff_enter now (pl_hash ?l) s = (r, s')" by fastforce
  then show ?thesis
  proof (cases rule: enter_cases)
    case over
    have "poller_wake i now s = end_loop i s" using d rs over(1,2) by (simp add: poller_wake_def)
    then have "loop_levels (poller_wake i now s) = image_mset (loop_level ?m (po_store s)) ?O + {#}"
      by (simp add: loop_levels_def)
    moreover have "(\<dots>, loop_levels s) \<in> mult less_than" unfolding old by (rule mult_levels) auto
    ultimately show ?thesis by (simp add: rank_levels)
  next
    case (timeout tx)
    let ?st = "map_set (pl_hash ?l) (tx\<lparr>tx_status := TIMEOUT, tx_lastCheckedAt := Some now\<rparr>) (po_store s)"
    have "poller_wake i now s = end_loop i (s\<lparr>po_store := ?st\<rparr>)"
      using d rs timeout(1,4) by (simp add: poller_wake_def)
    then have "loop_levels (poller_wake i now s) = image_mset (loop_level ?m ?st) ?O + {#}"
      by (simp add: loop_levels_def)
    moreover have "loop_level ?m ?st l = loop_level ?m (po_store s) l \<or> loop_level ?m ?st l < ?b" for l
      using d timeout(2) by (auto simp: loop_level_def map_get_set split: poll_phase.splits)
    then have "(image_mset (loop_level ?m ?st) ?O + {#}, loop_levels s) \<in> mult less_than"
      unfolding old by (intro mult_levels) auto
    ultimately show ?thesis by (simp add: rank_levels)
  next
    case (wait tx)
    let ?l' = "?l\<lparr>pl_phase := AwaitReceipt tx\<rparr>"
    have s': "poller_wake i now s = s\<lparr>po_loops := (po_loops s)[i := ?l']\<rparr>"
      using d rs wait(1,2) by (simp add: poller_wake_def)
    have "loop_level ?m (po_store s) ?l' = ?b" using d wait(3-5) by (simp add: loop_level_def)
    then have "loop_levels (poller_wake i now s) = loop_levels s"
      using i unfolding s' old by (simp add: loop_levels_def mset_update_others)
    moreover have "length (filter is_sleeping (po_loops (poller_wake i now s))) < length (filter is_sleeping (po_loops s))"
      using i d unfolding s' length_sleeping
      by (simp add: mset_update_others mset_others [OF i] is_sleeping_def)
    ultimately show ?thesis by (simp add: poller_rank_def poller_order_def)
  qed
qed

lemma wf_poller_order: "wf poller_order"
  unfolding poller_order_def by (intro wf_lex_prod wf_mult wf_less_than)

lemma poller_step_decreases: "poller_step s s' \<Longrightarrow> (poller_rank s', poller_rank s) \<in> poller_order"
  by (induction rule: poller_step.induct) (simp_all add: reply_decreases wake_decreases)

lemma no_infinite_polling: "\<nexists>run. \<forall>n. poller_step (run n) (run (Suc n))"
proof -
  have "wf (inv_image poller_order poller_rank)" by (rule wf_inv_image [OF wf_poller_order])
  then show ?thesis unfolding wf_iff_no_infinite_down_chain in_inv_image
    using poller_step_decreases by blast
qed

lemma poller_step_enabled: "po_loops s \<noteq> [] \<Longrightarrow> \<exists>s'. poller_step s s'"
  by (cases "pl_phase (po_loops s ! 0)") (blast intro: poller_step.intros length_greater_0_conv [THEN iffD2])+

subsection \<open>Every pending transaction is being polled\<close>

definition pending_covered :: "poller \<Rightarrow> string set \<Rightarrow> bool" where
  "pending_covered s H \<longleftrightarrow>
     (\<forall>h tx. map_get (po_store s) h = Some tx \<and> tx_status tx = PENDING \<longrightarrow> h \<in> H \<or> h \<in> pl_hash ` set (po_loops s))"

lemma in_others: "l \<in> set xs \<Longrightarrow> i < length xs \<Longrightarrow> l \<noteq> xs ! i \<Longrightarrow> l \<in> set (others i xs)"
  using mset_others [of i xs] by (metis add_mset_remove_trivial_eq insert_noteq_member set_mset_add_mset_insert set_mset_mset insertE)

lemma hash_update [simp]: "i < length xs \<Longrightarrow> pl_hash y = pl_hash (xs ! i) \<Longrightarrow> pl_hash ` set (xs[i := y]) = pl_hash ` set xs"
  by (metis list.set_map list_update_id map_update)

lemma covered_others:
  assumes "pending_covered s H" "i < length (po_loops s)"
    "\<And>tx. map_get st (pl_hash (po_loops s ! i)) = Some tx \<Longrightarrow> tx_status tx \<noteq> PENDING"
    "\<And>h. h \<noteq> pl_hash (po_loops s ! i) \<Longrightarrow> map_get st h = map_get (po_store s) h"
  shows "pending_covered (end_loop i (s\<lparr>po_store := st\<rparr>)) H"
  unfolding pending_covered_def
proof (intro allI impI)
  fix h tx
  assume "map_get (po_store (end_loop i (s\<lparr>po_store := st\<rparr>))) h = Some tx \<and> tx_status tx = PENDING"
  then have h: "map_get st h = Some tx" "tx_status tx = PENDING" by simp_all
  then have ne: "h \<noteq> pl_hash (po_loops s ! i)" using assms(3) by blast
  then have "h \<in> H \<or> h \<in> pl_hash ` set (po_loops s)"
    using h assms(1) assms(4) unfolding pending_covered_def by metis
  then show "h \<in> H \<or> h \<in> pl_hash ` set (po_loops (end_loop i (s\<lparr>po_store := st\<rparr>)))"
    using ne in_others [OF _ assms(2)] by auto
qed

lemma step_covered: "poller_step s s' \<Longrightarrow> pending_covered s H \<Longrightarrow> pending_covered s' H"
proof (induction rule: poller_step.induct)
  case (reply i s tx now random answer)
  obtain r s' where rs: "pollWithBackoff_reply now random (pl_hash (po_loops s ! i)) tx answer s = (r, s')" by fastforce
  then show ?case
  proof (cases rule: reply_cases)
    case (over tx')
    then have eq: "poller_reply i now random answer s =
        end_loop i (s\<lparr>po_store := map_set (pl_hash (po_loops s ! i)) tx' (po_store s)\<rparr>)"
      using reply.hyps(2) rs by (simp add: poller_reply_def)
    show ?thesis unfolding eq
      by (rule covered_others [OF reply.prems reply.hyps(1)]) (use over(2) in \<open>auto simp: map_get_set\<close>)
  next
    case (retry d)
    then show ?thesis using reply rs
      by (auto simp: poller_reply_def pending_covered_def map_get_set split: if_splits)
  qed
next
  case (wake i s d now)
  obtain r s' where rs: "pollWithBackoff_enter now (pl_hash (po_loops s ! i)) s = (r, s')" by fastforce
  then show ?case
  proof (cases rule: enter_cases)
    case over
    then have eq: "poller_wake i now s = end_loop i (s\<lparr>po_store := po_store s\<rparr>)"
      using wake.hyps(2) rs by (simp add: poller_wake_def)
    show ?thesis unfolding eq by (rule covered_others [OF wake.prems wake.hyps(1)]) (use over(3) in blast)+
  next
    case (timeout tx)
    then have eq: "poller_wake i now s = end_loop i (s\<lparr>po_store := map_set (pl_hash (po_loops s ! i))
        (tx\<lparr>tx_status := TIMEOUT, tx_lastCheckedAt := Some now\<rparr>) (po_store s)\<rparr>)"
      using wake.hyps(2) rs by (simp add: poller_wake_def)
    show ?thesis unfolding eq
      by (rule covered_others [OF wake.prems wake.hyps(1)]) (auto simp: map_get_set)
  next
    case (wait tx)
    then show ?thesis using wake rs by (simp add: poller_wake_def pending_covered_def)
  qed
qed

lemma start_loop_covered:
  assumes "pending_covered s (insert h H)"
  shows "pending_covered (start_loop now registered h s) H"
proof -
  obtain r s' where rs: "pollWithBackoff_enter now h s = (r, s')" by fastforce
  then show ?thesis
  proof (cases rule: enter_cases)
    case over
    then show ?thesis using assms rs by (auto simp: start_loop_def pending_covered_def)
  next
    case (timeout tx)
    then show ?thesis using assms rs
      by (auto simp: start_loop_def pending_covered_def map_get_set split: if_splits)
  next
    case (wait tx)
    then show ?thesis using assms rs by (auto simp: start_loop_def pending_covered_def)
  qed
qed

lemma recover_covered:
  assumes "\<And>h tx. map_get (po_store s) h = Some tx \<Longrightarrow> tx_hash tx = h"
  shows "pending_covered (recoverPendingTransactions now s) {}"
proof -
  have "pending_covered s (tx_hash ` set txs) \<Longrightarrow> pending_covered (fold (\<lambda>tx. start_loop now False (tx_hash tx)) txs s) {}"
    for txs s
  proof (induction txs arbitrary: s)
    case (Cons tx txs)
    then show ?case using start_loop_covered [of s "tx_hash tx" "tx_hash ` set txs" now False] by simp
  qed simp
  moreover have "pending_covered s (tx_hash ` set (filter (\<lambda>tx. tx_status tx = PENDING) (txstore_values (po_store s))))"
    unfolding pending_covered_def
  proof (intro allI impI disjI1)
    fix h tx
    assume h: "map_get (po_store s) h = Some tx \<and> tx_status tx = PENDING"
    then have "(h, tx) \<in> set (po_store s)" using map_get_in_set by metis
    then have "tx \<in> set (filter (\<lambda>tx. tx_status tx = PENDING) (txstore_values (po_store s)))"
      using h by (force simp: txstore_values_def map_values_def)
    then show "h \<in> tx_hash ` set (filter (\<lambda>tx. tx_status tx = PENDING) (txstore_values (po_store s)))"
      using assms h by (metis image_eqI)
  qed
  ultimately show ?thesis unfolding recoverPendingTransactions_def by blast
qed

text \<open>
  C40: polling ends.  There is no infinite sequence of answers and pauses, whatever the
  provider answers and however many polls of one transaction interleave, and while a poll
  is not over it has a next step.  And when all polls have ended after a recovery, no
  transaction is pending.
\<close>

theorem polling_terminates:
  assumes "\<And>h tx. map_get (po_store s0) h = Some tx \<Longrightarrow> tx_hash tx = h"
    and "poller_step\<^sup>*\<^sup>* (recoverPendingTransactions now s0) s"
  shows "(\<nexists>run. \<forall>n. poller_step (run n) (run (Suc n)))
    \<and> (if po_loops s \<noteq> [] then \<exists>s'. poller_step s s'
       else \<forall>h tx. map_get (po_store s) h = Some tx \<longrightarrow> tx_status tx \<noteq> PENDING)"
proof -
  have "pending_covered s {}"
    using assms(2) by induction (simp_all add: recover_covered [OF assms(1)] step_covered)
  then show ?thesis using no_infinite_polling poller_step_enabled [of s]
    by (auto simp: pending_covered_def)
qed

definition sample_tx :: transaction where
  "sample_tx = \<lparr>tx_hash = ''0xab'', tx_status = PENDING, tx_receipt = None, tx_lastCheckedAt = None,
     tx_retryCount = 0, tx_startedAt = Some 0\<rparr>"

definition sample_poller :: poller where
  "sample_poller = \<lparr>po_maxRetries = 5, po_initialDelay = 1000, po_maxTotalDurationMs = None, po_accepting = True,
     po_activePolls = [], po_store = [(''0xab'', sample_tx)], po_loops = []\<rparr>"

definition success_receipt :: json where
  "success_receipt = JObj [(''status'', JNum 1)]"

definition sample_loop :: "poll_phase \<Rightarrow> poll_loop" where
  "sample_loop phase = \<lparr>pl_hash = ''0xab'', pl_phase = phase, pl_registered = False\<rparr>"

definition sample_tx1 :: transaction where
  "sample_tx1 = sample_tx\<lparr>tx_retryCount := 1, tx_lastCheckedAt := Some 1000\<rparr>"

definition sample_polled :: poller where
  "sample_polled = sample_poller\<lparr>po_store := [(''0xab'', sample_tx1\<lparr>tx_status := SUCCESS,
     tx_receipt := Some success_receipt, tx_lastCheckedAt := Some 3000\<rparr>)]\<rparr>"

lemma sample_loop_phase: "pl_phase (sample_loop phase) = phase"
  by (simp add: sample_loop_def)

lemmas sample_defs = sample_poller_def sample_tx_def sample_tx1_def sample_loop_def success_receipt_def sample_polled_def
  store_ops map_get_def map_values_def Let_def

lemma sample_recover:
  "recoverPendingTransactions 0 sample_poller = sample_poller\<lparr>po_loops := [sample_loop (AwaitReceipt sample_tx)]\<rparr>"
  by (simp add: recoverPendingTransactions_def start_loop_def pollWithBackoff_enter_def sample_defs)

lemma sample_reply:
  "poller_reply 0 1000 0 (Ok JNull) (sample_poller\<lparr>po_loops := [sample_loop (AwaitReceipt sample_tx)]\<rparr>) =
     sample_poller\<lparr>po_store := [(''0xab'', sample_tx1)], po_loops := [sample_loop (Sleeping 500)]\<rparr>"
  by (simp add: poller_reply_def pollWithBackoff_reply_def calculateDelay_def js_min_def js_truthy_def sample_defs)

lemma sample_wake:
  "poller_wake 0 2000 (sample_poller\<lparr>po_store := [(''0xab'', sample_tx1)], po_loops := [sample_loop (Sleeping 500)]\<rparr>) =
     sample_poller\<lparr>po_store := [(''0xab'', sample_tx1)], po_loops := [sample_loop (AwaitReceipt sample_tx1)]\<rparr>"
  by (simp add: poller_wake_def pollWithBackoff_enter_def sample_defs)

lemma sample_success:
  "poller_reply 0 3000 0 (Ok success_receipt)
     (sample_poller\<lparr>po_store := [(''0xab'', sample_tx1)], po_loops := [sample_loop (AwaitReceipt sample_tx1)]\<rparr>) = sample_polled"
  by (simp add: poller_reply_def pollWithBackoff_reply_def js_truthy_def end_loop_def sample_defs)

lemma sample_polled_run: "poller_step\<^sup>*\<^sup>* (recoverPendingTransactions 0 sample_poller) sample_polled"
proof -
  let ?a = "sample_poller\<lparr>po_loops := [sample_loop (AwaitReceipt sample_tx)]\<rparr>"
  let ?b = "sample_poller\<lparr>po_store := [(''0xab'', sample_tx1)], po_loops := [sample_loop (Sleeping 500)]\<rparr>"
  let ?c = "sample_poller\<lparr>po_store := [(''0xab'', sample_tx1)], po_loops := [sample_loop (AwaitReceipt sample_tx1)]\<rparr>"
  have phases: "pl_phase (po_loops ?a ! 0) = AwaitReceipt sample_tx" "pl_phase (po_loops ?b ! 0) = Sleeping 500"
    "pl_phase (po_loops ?c ! 0) = AwaitReceipt sample_tx1" "0 < length (po_loops ?a)" "0 < length (po_loops ?b)"
    "0 < length (po_loops ?c)"
    by (simp_all add: sample_loop_phase)
  have "poller_step ?a ?b" by (rule poller_step.reply [OF phases(4,1), of 1000 0 "Ok JNull", unfolded sample_reply])
  moreover have "poller_step ?b ?c" by (rule poller_step.wake [OF phases(5,2), of 2000, unfolded sample_wake])
  moreover have "poller_step ?c sample_polled"
    by (rule poller_step.reply [OF phases(6,3), of 3000 0 "Ok success_receipt", unfolded sample_success])
  ultimately have "poller_step\<^sup>*\<^sup>* ?a sample_polled"
    by (rule converse_rtranclp_into_rtranclp [OF _ converse_rtranclp_into_rtranclp [OF _ r_into_rtranclp]])
  then show ?thesis unfolding sample_recover .
qed

theorem polling_terminates_witness:
  "po_loops sample_polled = [] \<and> map_get (po_store sample_polled) ''0xab'' \<noteq> None
   \<and> tx_status (the (map_get (po_store sample_polled) ''0xab'')) \<noteq> PENDING"
proof -
  have keyed: "map_get (po_store sample_poller) h = Some tx \<Longrightarrow> tx_hash tx = h" for h tx
    by (auto simp: sample_poller_def sample_tx_def map_get_def split: if_splits)
  have "po_loops sample_polled = []" "map_get (po_store sample_polled) ''0xab'' \<noteq> None"
    by (simp_all add: sample_defs)
  then show ?thesis using polling_terminates [OF keyed sample_polled_run] by auto
qed

subsection \<open>One poll per transaction\<close>

text \<open>
  \<open>poll\<close> alone never starts a second loop for a transaction.  Then a loop's copy is what the
  store holds, and a transaction that is no longer pending keeps its status.
\<close>

definition exclusive :: "poller \<Rightarrow> bool" where
  "exclusive s \<longleftrightarrow> distinct (map pl_hash (po_loops s)) \<and> po_activePolls s = map pl_hash (po_loops s)
     \<and> (\<forall>l\<in>set (po_loops s). pl_registered l
          \<and> (\<forall>tx. pl_phase l = AwaitReceipt tx \<longrightarrow> map_get (po_store s) (pl_hash l) = Some tx \<and> tx_status tx = PENDING))"

lemma map_others: "map f (others i xs) = others i (map f xs)"
  by (simp add: others_def take_map drop_map)

lemma remove1_others: "distinct xs \<Longrightarrow> i < length xs \<Longrightarrow> remove1 (xs ! i) xs = others i xs"
proof (induction xs arbitrary: i)
  case (Cons x xs)
  then show ?case by (cases i) (auto simp: others_def)
qed simp

lemma set_others: "set (others i xs) \<subseteq> set xs"
  by (auto simp: others_def dest: in_set_takeD in_set_dropD)

lemma others_neq: "distinct (map f xs) \<Longrightarrow> i < length xs \<Longrightarrow> y \<in> set (others i xs) \<Longrightarrow> f y \<noteq> f (xs ! i)"
proof -
  assume d: "distinct (map f xs)" and i: "i < length xs" and y: "y \<in> set (others i xs)"
  have "mset (map f xs) = mset (f (xs ! i) # map f (others i xs))"
    using mset_others [of i "map f xs"] i by (simp add: map_others)
  then have "distinct (f (xs ! i) # map f (others i xs))" using d mset_eq_imp_distinct_iff by blast
  then have "f (xs ! i) \<notin> f ` set (others i xs)" by simp
  then show "f y \<noteq> f (xs ! i)" using y by (metis image_eqI)
qed

lemma exclusive_end:
  assumes "exclusive s" "i < length (po_loops s)"
    "\<And>h. h \<noteq> pl_hash (po_loops s ! i) \<Longrightarrow> map_get st h = map_get (po_store s) h"
  shows "exclusive (end_loop i (s\<lparr>po_store := st\<rparr>))"
proof -
  have d: "distinct (map pl_hash (po_loops s))" and act: "po_activePolls s = map pl_hash (po_loops s)"
    and reg: "pl_registered (po_loops s ! i)" using assms(1,2) by (auto simp: exclusive_def)
  have "remove1 (pl_hash (po_loops s ! i)) (po_activePolls s) = map pl_hash (others i (po_loops s))"
    using remove1_others [OF d] assms(2) act by (simp add: map_others)
  moreover have "distinct (map pl_hash (others i (po_loops s)))"
    using d act calculation by (metis distinct_remove1)
  moreover have "map_get st (pl_hash l) = map_get (po_store s) (pl_hash l)" if "l \<in> set (others i (po_loops s))" for l
    using assms(3) others_neq [OF d assms(2) that] by blast
  ultimately show ?thesis using assms(1) reg set_others [of i "po_loops s"]
    by (auto simp: exclusive_def end_loop_def others_def)
qed

lemma exclusive_update:
  assumes "exclusive s" "i < length (po_loops s)"
    "\<And>h. h \<noteq> pl_hash (po_loops s ! i) \<Longrightarrow> map_get st h = map_get (po_store s) h"
    "\<And>tx. phase = AwaitReceipt tx \<Longrightarrow> map_get st (pl_hash (po_loops s ! i)) = Some tx \<and> tx_status tx = PENDING"
  shows "exclusive (s\<lparr>po_store := st, po_loops := (po_loops s)[i := (po_loops s ! i)\<lparr>pl_phase := phase\<rparr>]\<rparr>)"
proof -
  let ?l = "po_loops s ! i" and ?l' = "(po_loops s ! i)\<lparr>pl_phase := phase\<rparr>"
  have d: "distinct (map pl_hash (po_loops s))" using assms(1) by (simp add: exclusive_def)
  have hashes: "map pl_hash ((po_loops s)[i := ?l']) = map pl_hash (po_loops s)"
    by (simp add: map_update) (metis list_update_id map_update)
  have mem: "l = ?l' \<or> l \<in> set (others i (po_loops s))" if "l \<in> set ((po_loops s)[i := ?l'])" for l
    using that mset_update_others [OF assms(2), of ?l'] by (metis insertE set_mset_add_mset_insert set_mset_mset)
  have same: "map_get st (pl_hash l) = map_get (po_store s) (pl_hash l)" if "l \<in> set (others i (po_loops s))" for l
    using assms(3) others_neq [OF d assms(2) that] by blast
  have ok: "pl_registered l \<and> (\<forall>tx. pl_phase l = AwaitReceipt tx \<longrightarrow> map_get st (pl_hash l) = Some tx \<and> tx_status tx = PENDING)"
    if "l \<in> set ((po_loops s)[i := ?l'])" for l
    using mem [OF that]
  proof
    assume "l = ?l'"
    moreover have "pl_registered ?l" using assms(1,2) by (simp add: exclusive_def)
    ultimately show ?thesis using assms(4) by simp
  next
    assume l: "l \<in> set (others i (po_loops s))"
    then have "l \<in> set (po_loops s)" using set_others by fastforce
    then show ?thesis using assms(1) same [OF l] by (simp add: exclusive_def)
  qed
  have "po_activePolls s = map pl_hash (po_loops s)" using assms(1) by (simp add: exclusive_def)
  then show ?thesis using d hashes ok by (simp add: exclusive_def)
qed

text \<open>What a step does to the store of an exclusive poller: it writes only over a pending transaction.\<close>

definition keeps_settled :: "tx_store \<Rightarrow> tx_store \<Rightarrow> bool" where
  "keeps_settled st st' \<longleftrightarrow>
     (\<forall>h tx. map_get st h = Some tx \<and> tx_status tx \<noteq> PENDING \<longrightarrow>
        (\<exists>tx'. map_get st' h = Some tx' \<and> tx_status tx' = tx_status tx))"

lemma keeps_settled_refl [simp]: "keeps_settled st st"
  by (simp add: keeps_settled_def)

lemma keeps_settled_set:
  "map_get st h = Some tx \<Longrightarrow> tx_status tx = PENDING \<Longrightarrow> keeps_settled st (map_set h tx' st)"
  by (auto simp: keeps_settled_def map_get_set)

lemma step_exclusive: "poller_step s s' \<Longrightarrow> exclusive s \<Longrightarrow> exclusive s' \<and> keeps_settled (po_store s) (po_store s')"
proof (induction rule: poller_step.induct)
  case (reply i s tx now random answer)
  let ?h = "pl_hash (po_loops s ! i)"
  have tx: "map_get (po_store s) ?h = Some tx" "tx_status tx = PENDING"
    using reply by (auto simp: exclusive_def)
  obtain r s' where rs: "pollWithBackoff_reply now random ?h tx answer s = (r, s')" by fastforce
  then show ?case
  proof (cases rule: reply_cases)
    case (over tx')
    then have eq: "poller_reply i now random answer s = end_loop i (s\<lparr>po_store := map_set ?h tx' (po_store s)\<rparr>)"
      using reply.hyps(2) rs by (simp add: poller_reply_def)
    have "exclusive (end_loop i (s\<lparr>po_store := map_set ?h tx' (po_store s)\<rparr>))"
      by (rule exclusive_end [OF reply.prems reply.hyps(1)]) (simp add: map_get_set)
    then show ?thesis unfolding eq by (simp add: keeps_settled_set [OF tx])
  next
    case (retry d)
    let ?st = "map_set ?h (tx\<lparr>tx_retryCount := tx_retryCount tx + 1, tx_lastCheckedAt := Some now\<rparr>) (po_store s)"
    have eq: "poller_reply i now random answer s =
        s\<lparr>po_store := ?st, po_loops := (po_loops s)[i := (po_loops s ! i)\<lparr>pl_phase := Sleeping d\<rparr>]\<rparr>"
      using reply.hyps(2) rs retry by (simp add: poller_reply_def)
    have "exclusive (s\<lparr>po_store := ?st, po_loops := (po_loops s)[i := (po_loops s ! i)\<lparr>pl_phase := Sleeping d\<rparr>]\<rparr>)"
      by (rule exclusive_update [OF reply.prems reply.hyps(1)]) (simp_all add: map_get_set)
    then show ?thesis unfolding eq by (simp add: keeps_settled_set [OF tx])
  qed
next
  case (wake i s d now)
  let ?h = "pl_hash (po_loops s ! i)"
  obtain r s' where rs: "pollWithBackoff_enter now ?h s = (r, s')" by fastforce
  then show ?case
  proof (cases rule: enter_cases)
    case over
    then have eq: "poller_wake i now s = end_loop i (s\<lparr>po_store := po_store s\<rparr>)"
      using wake.hyps(2) rs by (simp add: poller_wake_def)
    have "exclusive (end_loop i (s\<lparr>po_store := po_store s\<rparr>))"
      by (rule exclusive_end [OF wake.prems wake.hyps(1)]) simp
    then show ?thesis unfolding eq by simp
  next
    case (timeout tx)
    let ?st = "map_set ?h (tx\<lparr>tx_status := TIMEOUT, tx_lastCheckedAt := Some now\<rparr>) (po_store s)"
    have eq: "poller_wake i now s = end_loop i (s\<lparr>po_store := ?st\<rparr>)"
      using wake.hyps(2) rs timeout(1,4) by (simp add: poller_wake_def)
    have "exclusive (end_loop i (s\<lparr>po_store := ?st\<rparr>))"
      by (rule exclusive_end [OF wake.prems wake.hyps(1)]) (simp add: map_get_set)
    then show ?thesis unfolding eq by (simp add: keeps_settled_set [OF timeout(2,3)])
  next
    case (wait tx)
    then have eq: "poller_wake i now s =
        s\<lparr>po_store := po_store s, po_loops := (po_loops s)[i := (po_loops s ! i)\<lparr>pl_phase := AwaitReceipt tx\<rparr>]\<rparr>"
      using wake.hyps(2) rs by (simp add: poller_wake_def)
    have "exclusive (s\<lparr>po_store := po_store s, po_loops := (po_loops s)[i := (po_loops s ! i)\<lparr>pl_phase := AwaitReceipt tx\<rparr>]\<rparr>)"
      by (rule exclusive_update [OF wake.prems wake.hyps(1)]) (use wait in simp_all)
    then show ?thesis unfolding eq by simp
  qed
qed

lemma exclusive_store:
  assumes "exclusive s" "h \<notin> set (po_activePolls s)" "\<And>h'. h' \<noteq> h \<Longrightarrow> map_get st h' = map_get (po_store s) h'"
  shows "exclusive (s\<lparr>po_store := st\<rparr>)"
proof -
  have "pl_hash l \<noteq> h" if "l \<in> set (po_loops s)" for l using assms(1,2) that by (auto simp: exclusive_def)
  then show ?thesis using assms(1,3) by (simp add: exclusive_def)
qed

lemma start_loop_exclusive:
  assumes ex: "exclusive s" and h: "h \<notin> set (po_activePolls s)"
  shows "exclusive (start_loop now True h s) \<and> keeps_settled (po_store s) (po_store (start_loop now True h s))"
proof -
  obtain r s' where rs: "pollWithBackoff_enter now h s = (r, s')" by fastforce
  then show ?thesis
  proof (cases rule: enter_cases)
    case over
    then show ?thesis using ex rs by (simp add: start_loop_def)
  next
    case (timeout tx)
    then have "start_loop now True h s =
        s\<lparr>po_store := map_set h (tx\<lparr>tx_status := TIMEOUT, tx_lastCheckedAt := Some now\<rparr>) (po_store s)\<rparr>"
      using rs by (simp add: start_loop_def)
    then show ?thesis using exclusive_store [OF ex h] keeps_settled_set [OF timeout(2,3)] by (simp add: map_get_set)
  next
    case (wait tx)
    then show ?thesis using ex rs h by (auto simp: start_loop_def exclusive_def)
  qed
qed

lemma poll_exclusive:
  assumes ex: "exclusive s"
  shows "exclusive (poll now h s) \<and> keeps_settled (po_store s) (po_store (poll now h s))"
proof (cases "po_accepting s \<and> h \<notin> set (po_activePolls s)")
  case True
  have keep: "keeps_settled st1 st3" if "keeps_settled st1 st2" "keeps_settled st2 st3" for st1 st2 st3
    using that unfolding keeps_settled_def by metis
  have begin_poll: "exclusive (start_loop now True h (s\<lparr>po_store := st\<rparr>))
      \<and> keeps_settled (po_store s) (po_store (start_loop now True h (s\<lparr>po_store := st\<rparr>)))"
    if "keeps_settled (po_store s) st" "\<And>h'. h' \<noteq> h \<Longrightarrow> map_get st h' = map_get (po_store s) h'" for st
  proof -
    have "exclusive (s\<lparr>po_store := st\<rparr>)" by (rule exclusive_store [OF ex]) (use True that in auto)
    then show ?thesis using start_loop_exclusive [of "s\<lparr>po_store := st\<rparr>" h now] True keep [OF that(1)] by simp
  qed
  show ?thesis
  proof (cases "map_get (po_store s) h")
    case None
    let ?tx = "\<lparr>tx_hash = h, tx_status = PENDING, tx_receipt = None, tx_lastCheckedAt = None,
      tx_retryCount = 0, tx_startedAt = Some now\<rparr>"
    have "keeps_settled (po_store s) (map_set h ?tx (po_store s))" using None by (auto simp: keeps_settled_def map_get_set)
    then show ?thesis using begin_poll [of "map_set h ?tx (po_store s)"] True None
      by (simp add: poll_def store_ops map_get_set)
  next
    case (Some tx)
    let ?st = "map_set h (tx\<lparr>tx_startedAt := Some now\<rparr>) (po_store s)"
    have "keeps_settled (po_store s) ?st" using Some by (auto simp: keeps_settled_def map_get_set)
    then show ?thesis using begin_poll [of ?st] begin_poll [of "po_store s"] True Some
      by (simp add: poll_def store_ops map_get_set)
  qed
next
  case False
  then show ?thesis using ex by (auto simp: poll_def)
qed

definition poller_work :: "poller \<Rightarrow> poller \<Rightarrow> bool" where
  "poller_work s s' \<longleftrightarrow> poller_step s s' \<or> (\<exists>now h. s' = poll now h s) \<or> s' = stopAccepting s"

lemma stop_exclusive: "exclusive s \<Longrightarrow> exclusive (stopAccepting s) \<and> po_store (stopAccepting s) = po_store s"
  by (simp add: stopAccepting_def exclusive_def)

lemma work_exclusive: "poller_work s s' \<Longrightarrow> exclusive s \<Longrightarrow> exclusive s' \<and> keeps_settled (po_store s) (po_store s')"
  by (auto simp: poller_work_def poll_exclusive step_exclusive stop_exclusive)

interpretation settled_sys: invariant_system "\<lambda>s. po_loops s = [] \<and> po_activePolls s = []" poller_work
  "\<lambda>s. exclusive s"
  by unfold_locales (auto simp: exclusive_def dest: work_exclusive)

lemma settled_stays:
  assumes "po_loops s = []" "po_activePolls s = []" "poller_work\<^sup>*\<^sup>* s s1" "poller_work\<^sup>*\<^sup>* s1 s2"
    "map_get (po_store s1) h = Some tx" "tx_status tx \<noteq> PENDING"
  shows "\<exists>tx'. map_get (po_store s2) h = Some tx' \<and> tx_status tx' = tx_status tx"
proof -
  have ex: "exclusive s1" using settled_sys.reachable_inv [of s s1] assms(1-3) by simp
  from assms(4) have "exclusive s2 \<and> (\<exists>tx'. map_get (po_store s2) h = Some tx' \<and> tx_status tx' = tx_status tx)"
  proof induction
    case base
    show ?case using ex assms(5) by simp
  next
    case (step s2 s3)
    then have "exclusive s3" "keeps_settled (po_store s2) (po_store s3)" using work_exclusive by blast+
    then show ?case using step.IH assms(6) unfolding keeps_settled_def by metis
  qed
  then show ?thesis by blast
qed

subsection \<open>Recovery beside polling\<close>

text \<open>
  Recovery does not enter its loops in \<open>activePolls\<close>: a later \<open>poll\<close> starts a second loop for
  the same transaction, and a loop that was still waiting overwrites the success that the
  other has stored.  Nor does a shutdown wait for recovered loops.
\<close>

lemma recovered_success_lost:
  "let s1 = poll 0 ''0xab'' (recoverPendingTransactions 0 sample_poller);
       s2 = poller_reply 1 900 0 (Ok success_receipt) s1;
       s3 = poller_reply 0 1000 0 (Ok JNull) s2
   in map_option tx_status (map_get (po_store s2) ''0xab'') = Some SUCCESS \<and> po_store s3 = [(''0xab'', sample_tx1)]
      \<and> tx_status sample_tx1 = PENDING"
  unfolding sample_recover
  by (simp add: poll_def start_loop_def pollWithBackoff_enter_def poller_reply_def pollWithBackoff_reply_def
      calculateDelay_def js_min_def js_truthy_def end_loop_def sample_defs)

lemma recovered_not_drained:
  "let s = recoverPendingTransactions 0 sample_poller in poller_drain s = [] \<and> po_loops s \<noteq> []"
  unfolding sample_recover by (simp add: poller_drain_def sample_defs)

end
