(* ===== verification/Spec2Isabelle.thy ===== *)
theory Spec2Isabelle
  imports AuditLog AuditService CircuitBreaker SoftDelete EscrowHooks Disputes ContractBounds
    Milestones ContractRepository ContractsService AccountLockout SafeErrors RateLimiter RateLimitTiers
    TokenBucket EventIndexer EventIngestion Idempotency ApiKeys
    TransactionPoller
begin

text \<open>
  A model of the TalentTrust backend (\<open>src/src\<close>), an escrow service for freelance
  contracts, and of what its components promise.

  \<^bold>\<open>Conventions.\<close>  A JavaScript number that counts, measures milliseconds or an
  amount in stroops is an \<open>int\<close>; fractions are rationals.  A \<open>Map\<close> is an
  association list in insertion order (\<open>JsMap\<close>).  A thrown error is the left summand
  of a \<open>result\<close>, and every operation that may change state returns the new state
  beside its result.  Values the program takes from outside (the clock, fresh ids,
  SHA-256, environment variables, what an awaited call returns) are arguments.  An
  \<open>async\<close> method whose behaviour depends on what runs during an \<open>await\<close> is split there
  into the part before and the part after, so that interleavings are sequences of
  such parts.

  \<^bold>\<open>Theories.\<close>
  \<^item> \<open>Prelude\<close>, \<open>JsMap\<close>, \<open>Json\<close>: strings, numbers, maps and \<open>JSON.stringify\<close> as the
    sources use them; the locales \<open>invariant_system\<close>, \<open>handler_system\<close> (invariants of
    step relations and of handlers) and \<open>js_map\<close> (the laws of a map).
  \<^item> \<open>AuditLog\<close> (\<open>audit/types.ts\<close>, \<open>audit/store.ts\<close>): the hash-chained log.  The chain
    is intact after any operations; with a hash free of collisions a log that
    verifies and ends in the same hash is the same log; the integrity check finds the
    first entry whose link or hash is broken; pages without filters are complete.
  \<^item> \<open>AuditService\<close> (\<open>audit/service.ts\<close>, \<open>audit/auditCache.ts\<close>): the service with its
    cache.  Reads about a resource, cursor pages included, are those of the repository
    when JSON prints the resource's id unescaped; the cache is bounded.  The repository
    is an interface (\<open>audit_repository\<close>) that the store interprets.
  \<^item> \<open>CircuitBreaker\<close> (\<open>circuit-breaker/\<close>): the breaker as a state machine, its
    interleaved calls as a step relation, and the registry.
  \<^item> \<open>SoftDelete\<close> (\<open>utils/softDelete.ts\<close>): the retention window, and the interface
    \<open>soft_delete_store\<close> that disputes, milestones and both contract repositories
    interpret.
  \<^item> \<open>EscrowHooks\<close> (\<open>hooks/escrow.hooks.ts\<close>), \<open>Disputes\<close>
    (\<open>services/disputes.service.ts\<close>), \<open>ContractBounds\<close> (\<open>contracts/bounds.ts\<close>),
    \<open>Milestones\<close> (\<open>services/milestones.service.ts\<close>): round trips of deletion and
    restoration, the dispute life cycle, batches, and the exact sets that the
    validations accept.
  \<^item> \<open>ContractRepository\<close> (\<open>repositories/contractRepository.ts\<close>,
    \<open>contracts/cursor.repository.ts\<close>): rows as a list, the SQL statements as functions on
    it, with the \<open>CHECK\<close> constraints, primary key and foreign keys that
    \<open>db/migrations.ts\<close> declares; the ids of users and of rated contracts are arguments.
    Updates by version are serial under any interleaving; pages are complete.
    The in-memory repository is modelled beside it, with the interleaving in which it
    loses an update.
  \<^item> \<open>ContractsService\<close> (\<open>services/contracts.service.ts\<close>): creation and update over the
    repository: the exact conditions of bounds, version and database constraints under
    which they succeed, and that they change nothing otherwise.
  \<^item> \<open>AccountLockout\<close> (\<open>auth/accountLockout.ts\<close>): the delay curve, when an account
    locks, and that a lockout holds while the last failure is within the decay window.
  \<^item> \<open>SafeErrors\<close> (\<open>errors/\<close>): regular expressions with a matcher proved correct against
    their language, and that no response carries unsafe content.
  \<^item> \<open>RateLimiter\<close> (\<open>middleware/rateLimiter.ts\<close>, \<open>lib/rateLimitStore.ts\<close>) and
    \<open>RateLimitTiers\<close> (\<open>config/rateLimit.ts\<close> and the key functions): exact quotas and
    blocks, and where configuration and store disagree.
  \<^item> \<open>TokenBucket\<close> (\<open>rateLimit.ts\<close>): the rate of a bucket, the Redis script as a
    refinement of the in-process store, and progress of the waiters of the in-process
    limiter.
  \<^item> \<open>EventEnvelope\<close> (\<open>shared/eventEnvelopeValidation.ts\<close>) and \<open>EventIndexer\<close>
    (\<open>contracts/indexer.ts\<close>, \<open>processor.ts\<close>, \<open>validation.ts\<close>, \<open>repository.ts\<close>, \<open>dedupe.ts\<close>
    and the cursor store): what a batch of events stores, field by field, and counts, and
    that replays are absorbed.
  \<^item> \<open>Canonical\<close> (\<open>utils/deduplication.ts\<close>): payload hashes do not depend on the order of
    keys and distinguish everything else; keys can be read back.
  \<^item> \<open>EventIngestion\<close> (\<open>repository/eventAuditRepository.ts\<close>,
    \<open>events/eventIngestionService.ts\<close>): events are accepted once per key when they are
    processed one at a time, and not when a chunk holds copies.
  \<^item> \<open>Idempotency\<close> (\<open>events/idempotency.ts\<close>, \<open>db/idempotencyStore.ts\<close>,
    \<open>events/idempotencyStore.ts\<close>): how long a handler's result is replayed.
  \<^item> \<open>Authorization\<close> (\<open>lib/authorization.ts\<close>, \<open>lib/authHelpers.ts\<close>,
    \<open>middleware/authorization.ts\<close>, and the older \<open>auth/roles.ts\<close>, \<open>authorize.ts\<close>,
    \<open>authenticate.ts\<close>, \<open>middleware.ts\<close>): the permission matrix and the guards of the
    routes; what a request that passes a guard is allowed, read off the matrix.
  \<^item> \<open>ApiKeys\<close> (\<open>auth/apiKeys.ts\<close>, \<open>auth/authCache.ts\<close>, the key table of
    \<open>database/index.ts\<close>, \<open>auth/apiKeyMiddleware.ts\<close>, \<open>middleware/adminAuthGuard.ts\<close>):
    revoked keys are refused in spite of the cache, and the interleaving in which one is
    not.
  \<^item> \<open>Retry\<close> (\<open>utils/retry.ts\<close>, \<open>rpc/stellarConfig.ts\<close>, \<open>rpc/stellarClient.ts\<close>): the exact
    answer and the pauses of the retry loop, and what the circuit breaker of the Stellar
    client counts.
  \<^item> \<open>TransactionPoller\<close> (\<open>services/TransactionPoller.ts\<close>, \<open>models/Transaction.ts\<close>): polling
    as interleaved loops; they end, by a multiset of the attempts that are left, and after
    a recovery no transaction stays pending.

  \<^bold>\<open>Loops and bounds.\<close>  All loops of the sources are structural recursions, folds or
  filters here; the walks over pages take the number of pages as fuel, and the
  theorems on them state a number that suffices.  The retry loop recurses on the attempts
  that are left.  Polling is a step relation, and its end is a theorem.  No function is
  partial.

  \<^bold>\<open>Not modelled.\<close>  Express routes, controllers and middleware plumbing, metrics and
  logging, the database connection and the running of migrations, errors of the
  database other than violated constraints, queue workers, and the remote services
  themselves.  Whole numbers are unbounded: rounding of doubles above \<open>2^53\<close> and the
  exponents that JavaScript prints from \<open>10^21\<close> on are left out, except for the overflow
  of the lockout delay.
\<close>

end
